(* ===== verification/Prelude.thy ===== *)
theory Prelude
  imports Main "HOL-Library.Word" "HOL-Library.Signed_Division"
begin

text \<open>
  What the components share: Go's run-time panics as values, the result type of code that may
  panic or return an error and its sequencing, the fixed-width integers (\<open>int\<close> with the
  wrap-around of \<open>int64\<close> written out), slices that are read and written by index, and the
  generic lemmas on them. The collections \<open>go_simps\<close> (unfolding of the sequencing operators)
  and \<open>i64_simps\<close> (arithmetic that stays in range) carry the component proofs.
\<close>

unbundle bit_operations_syntax

named_theorems go_simps
named_theorems i64_simps

section \<open>Panics and results\<close>

datatype panic =
    PanicMsg string
  | IndexOutOfRange
  | DivideByZero
  | MakeSliceLen
  | CloseOfClosed
  | NilMapWrite

type_synonym 'a go = "panic + 'a"

definition bindR :: "'e + 'a \<Rightarrow> ('a \<Rightarrow> 'e + 'b) \<Rightarrow> 'e + 'b" where
  "bindR m k = (case m of Inl e \<Rightarrow> Inl e | Inr x \<Rightarrow> k x)"

lemma bindR_simps [simp]:
  "bindR (Inl e) k = Inl e"
  "bindR (Inr x) k = k x"
  by (simp_all add: bindR_def)

lemma bindR_Inr_iff [go_simps]: "bindR m k = Inr y \<longleftrightarrow> (\<exists>x. m = Inr x \<and> k x = Inr y)"
  by (cases m) auto

lemma bindR_cong [fundef_cong]:
  assumes "m = m'" and "\<And>x. m' = Inr x \<Longrightarrow> k x = k' x"
  shows "bindR m k = bindR m' k'"
  using assms by (cases m') auto

text \<open>A loop \<open>for _, x := range xs\<close> whose body updates a state and may leave the function.\<close>

fun foldR :: "('s \<Rightarrow> 'x \<Rightarrow> 'e + 's) \<Rightarrow> 's \<Rightarrow> 'x list \<Rightarrow> 'e + 's" where
  "foldR f s [] = Inr s"
| "foldR f s (x # xs) = bindR (f s x) (\<lambda>s'. foldR f s' xs)"

lemma foldR_append: "foldR f s (xs @ ys) = bindR (foldR f s xs) (\<lambda>t. foldR f t ys)"
  by (induction xs arbitrary: s) (auto simp: bindR_def split: sum.splits)

text \<open>An invariant of the loop body is an invariant of the loop.\<close>

lemma foldR_invariant:
  assumes "foldR f s xs = Inr t" and "P s"
    and "\<And>s x t. P s \<Longrightarrow> x \<in> set xs \<Longrightarrow> f s x = Inr t \<Longrightarrow> P t"
  shows "P t"
  using assms
proof (induction xs arbitrary: s)
  case Nil
  then show ?case by simp
next
  case (Cons x xs)
  from Cons.prems(1) obtain u where u: "f s x = Inr u" and rest: "foldR f u xs = Inr t"
    by (auto simp: go_simps)
  have "P u" by (rule Cons.prems(3) [OF Cons.prems(2) _ u]) simp
  then show ?case using Cons.IH [OF rest] Cons.prems(3) by (meson list.set_intros(2))
qed

text \<open>The loop runs to its end when the body succeeds in every state the invariant allows.\<close>

lemma foldR_total:
  assumes "P s" and "\<And>s x. P s \<Longrightarrow> x \<in> set xs \<Longrightarrow> \<exists>t. f s x = Inr t \<and> P t"
  shows "\<exists>t. foldR f s xs = Inr t \<and> P t"
  using assms
proof (induction xs arbitrary: s)
  case Nil
  then show ?case by simp
next
  case (Cons x xs)
  from Cons.prems(1) Cons.prems(2) [of s x] obtain u where "f s x = Inr u" "P u" by auto
  with Cons.IH [of u] Cons.prems(2) show ?case by simp
qed

section \<open>The signed 64-bit integers\<close>

text \<open>
  An \<open>int64\<close> is an \<open>int\<close> between \<open>-2 ^ 63\<close> and \<open>2 ^ 63 - 1\<close>; the operations that can
  leave that range are followed by \<open>wrap64\<close>, two's complement truncation. The bitwise
  operations and the arithmetic right shift (\<open>drop_bit\<close>) of \<open>int\<close> are those of two's
  complement numbers. Division and remainder truncate towards zero (\<open>sdiv\<close>, \<open>smod\<close>).
\<close>

definition wrap64 :: "int \<Rightarrow> int" where
  "wrap64 x = signed_take_bit 63 x"

definition is_i64 :: "int \<Rightarrow> bool" where
  "is_i64 x \<longleftrightarrow> - (2 ^ 63) \<le> x \<and> x < 2 ^ 63"

definition max_i64 :: int where
  "max_i64 = 2 ^ 63 - 1"

lemma wrap64_id [i64_simps]: "is_i64 x \<Longrightarrow> wrap64 x = x"
  by (simp add: wrap64_def is_i64_def signed_take_bit_int_eq_self)

lemma wrap64_range: "is_i64 (wrap64 x)"
  unfolding is_i64_def wrap64_def
  using signed_take_bit_int_greater_eq_minus_exp [of 63 x] signed_take_bit_int_less_exp [of 63 x]
  by simp

lemma wrap64_shift: "wrap64 (x - 2 ^ 64) = wrap64 x"
  by (simp add: wrap64_def signed_take_bit_eq_iff_take_bit_eq take_bit_eq_mod)

text \<open>A value that leaves the range at the top by less than \<open>2 ^ 63\<close> wraps to a negative one.\<close>

lemma wrap64_over: "2 ^ 63 \<le> x \<Longrightarrow> x < 2 ^ 63 + 2 ^ 63 \<Longrightarrow> wrap64 x = x - 2 ^ 64"
  using wrap64_shift [of x] wrap64_id [of "x - 2 ^ 64"] by (simp add: is_i64_def)

lemma sdiv_nonneg [i64_simps]: "0 \<le> (a::int) \<Longrightarrow> 0 < b \<Longrightarrow> a sdiv b = a div b"
  by (cases "a = 0") (simp_all add: signed_divide_int_def sgn_if)

lemma smod_nonneg [i64_simps]: "0 \<le> (a::int) \<Longrightarrow> 0 < b \<Longrightarrow> a smod b = a mod b"
  by (cases "a = 0") (simp_all add: signed_modulo_int_def)

text \<open>The remainder operator, which panics on a zero divisor.\<close>

definition go_rem :: "int \<Rightarrow> int \<Rightarrow> int go" where
  "go_rem a b = (if b = 0 then Inl DivideByZero else Inr (a smod b))"

lemma go_rem_pos: "0 \<le> a \<Longrightarrow> 0 < b \<Longrightarrow> go_rem a b = Inr (a mod b)"
  by (simp add: go_rem_def smod_nonneg)

section \<open>Slices\<close>

definition slice_get :: "'a list \<Rightarrow> int \<Rightarrow> 'a go" where
  "slice_get xs i =
     (if 0 \<le> i \<and> i < int (length xs) then Inr (xs ! nat i) else Inl IndexOutOfRange)"

definition slice_set :: "'a list \<Rightarrow> int \<Rightarrow> 'a \<Rightarrow> 'a list go" where
  "slice_set xs i v =
     (if 0 \<le> i \<and> i < int (length xs) then Inr (xs[nat i := v]) else Inl IndexOutOfRange)"

definition make_slice :: "int \<Rightarrow> 'a \<Rightarrow> 'a list go" where
  "make_slice n v = (if n < 0 then Inl MakeSliceLen else Inr (replicate (nat n) v))"

lemma slice_get_in [simp]: "n < length xs \<Longrightarrow> slice_get xs (int n) = Inr (xs ! n)"
  by (simp add: slice_get_def)

lemma slice_set_in [simp]: "n < length xs \<Longrightarrow> slice_set xs (int n) v = Inr (xs[n := v])"
  by (simp add: slice_set_def)

end
