(* ===== verification/Bitset_Iface.thy ===== *)
theory Bitset_Iface
  imports Prelude
begin

text \<open>
  The interface through which the Bloom filter uses the bitmap: a store of non-negative
  indices below a capacity. \<open>inv\<close>, \<open>cap\<close> and \<open>els\<close> are the invariant, the capacity and the
  set the store stands for; \<open>set1\<close>, \<open>mset1\<close> and \<open>isset\<close> are \<open>Set\<close>, \<open>MSet\<close> and \<open>IsSet\<close>.
\<close>

text \<open>The loop of a membership test that returns at the first index that is not set.\<close>

fun allR :: "('x \<Rightarrow> 'e + bool) \<Rightarrow> 'x list \<Rightarrow> 'e + bool" where
  "allR f [] = Inr True"
| "allR f (x # xs) = bindR (f x) (\<lambda>ok. if \<not> ok then Inr False else allR f xs)"

locale bitset =
  fixes inv :: "'b \<Rightarrow> bool"
    and cap :: "'b \<Rightarrow> int"
    and els :: "'b \<Rightarrow> int set"
    and set1 :: "'b \<Rightarrow> int \<Rightarrow> 'b go"
    and mset1 :: "'b \<Rightarrow> int list \<Rightarrow> 'b go"
    and isset :: "'b \<Rightarrow> int \<Rightarrow> bool go"
  assumes set_ok: "inv b \<Longrightarrow> 0 \<le> i \<Longrightarrow> i < cap b \<Longrightarrow>
      \<exists>b'. set1 b i = Inr b' \<and> inv b' \<and> cap b' = cap b \<and> els b' = insert i (els b)"
    and mset_ok: "inv b \<Longrightarrow> \<forall>i \<in> set is. 0 \<le> i \<and> i < cap b \<Longrightarrow>
      \<exists>b'. mset1 b is = Inr b' \<and> inv b' \<and> cap b' = cap b \<and> els b' = els b \<union> set is"
    and isset_ok: "inv b \<Longrightarrow> 0 \<le> i \<Longrightarrow> i < cap b \<Longrightarrow> isset b i = Inr (i \<in> els b)"
    and els_range: "inv b \<Longrightarrow> els b \<subseteq> {0..<cap b}"
begin

lemma fold_set_ok:
  assumes "inv b" and "\<forall>i \<in> set is. 0 \<le> i \<and> i < cap b"
  shows "\<exists>b'. foldR set1 b is = Inr b' \<and> inv b' \<and> cap b' = cap b \<and> els b' = els b \<union> set is"
  using assms
proof (induction "is" arbitrary: b)
  case Nil
  then show ?case by simp
next
  case (Cons i "is")
  then obtain c where c: "set1 b i = Inr c" "inv c" "cap c = cap b" "els c = insert i (els b)"
    using set_ok [of b i] by auto
  with Cons.IH [of c] Cons.prems(2) show ?case by auto
qed

lemma all_isset_ok:
  assumes "inv b" and "\<forall>i \<in> set is. 0 \<le> i \<and> i < cap b"
  shows "allR (isset b) is = Inr (set is \<subseteq> els b)"
  using assms by (induction "is") (auto simp: isset_ok)

lemma finite_els: "inv b \<Longrightarrow> finite (els b)"
  using els_range finite_subset by blast

end

text \<open>A store that also reports how many indices are set.\<close>

locale counted_bitset = bitset +
  fixes count :: "'b \<Rightarrow> int"
  assumes count_card: "inv b \<Longrightarrow> count b = int (card (els b))"
begin

lemma count_le_cap: "inv b \<Longrightarrow> 0 \<le> cap b \<Longrightarrow> 0 \<le> count b \<and> count b \<le> cap b"
  using card_mono [OF _ els_range, of b] by (simp add: count_card)

lemma count_set:
  assumes "inv b" and "0 \<le> i" and "i < cap b" and "set1 b i = Inr b'"
  shows "count b' = (if i \<in> els b then count b else count b + 1)"
  using set_ok [OF assms(1-3)] assms(1,4) finite_els [OF assms(1)]
  by (auto simp: count_card insert_absorb)

end

end
