(* ===== verification/Bitmap_Model.thy ===== *)
theory Bitmap_Model
  imports Bitset_Iface
begin

text \<open>
  The package \<open>bitmap\<close> (\<open>bitmap/bitmap.go\<close>): a bitmap over a byte slice. Every method
  takes the mutex for its whole body, so a call is one atomic state change.
\<close>

record bitmap =
  bm_bits :: "8 word list"
  bm_size :: int

definition NewBitmap :: "int \<Rightarrow> bitmap go" where
  "NewBitmap sz =
     (if sz < 0 then Inl (PanicMsg ''bitmap size must be non-negative'')
      else bindR (make_slice (wrap64 (sz + 7) sdiv 8) 0)
             (\<lambda>bs. Inr \<lparr>bm_bits = bs, bm_size = sz\<rparr>))"

definition validateIndex :: "bitmap \<Rightarrow> int \<Rightarrow> unit go" where
  "validateIndex b index =
     (if index < 0 \<or> bm_size b \<le> index then Inl (PanicMsg ''bitmap index out of range'')
      else Inr ())"

text \<open>The statement \<open>b.bits[index/8] |= 1 << (index % 8)\<close> of \<open>Set\<close> and \<open>MSet\<close>.\<close>

definition or_bit :: "bitmap \<Rightarrow> int \<Rightarrow> bitmap go" where
  "or_bit b index =
     bindR (slice_get (bm_bits b) (index sdiv 8)) (\<lambda>w.
     bindR (slice_set (bm_bits b) (index sdiv 8) (w OR push_bit (nat (index smod 8)) 1)) (\<lambda>bs.
     Inr (b\<lparr>bm_bits := bs\<rparr>)))"

definition Set :: "bitmap \<Rightarrow> int \<Rightarrow> bitmap go" where
  "Set b index = bindR (validateIndex b index) (\<lambda>_. or_bit b index)"

definition MSet :: "bitmap \<Rightarrow> int list \<Rightarrow> bitmap go" where
  "MSet b indexes =
     (if indexes = [] then Inr b
      else bindR (foldR (\<lambda>_ index. validateIndex b index) () indexes) (\<lambda>_.
             foldR or_bit b indexes))"

definition Clear :: "bitmap \<Rightarrow> int \<Rightarrow> bitmap go" where
  "Clear b index =
     bindR (validateIndex b index) (\<lambda>_.
     bindR (slice_get (bm_bits b) (index sdiv 8)) (\<lambda>w.
     bindR (slice_set (bm_bits b) (index sdiv 8) (w AND NOT (push_bit (nat (index smod 8)) 1))) (\<lambda>bs.
     Inr (b\<lparr>bm_bits := bs\<rparr>))))"

definition IsSet :: "bitmap \<Rightarrow> int \<Rightarrow> bool go" where
  "IsSet b index =
     bindR (validateIndex b index) (\<lambda>_.
     bindR (slice_get (bm_bits b) (index sdiv 8)) (\<lambda>w.
     Inr (w AND push_bit (nat (index smod 8)) 1 \<noteq> 0)))"

definition OnesCount8 :: "8 word \<Rightarrow> int" where
  "OnesCount8 w = int (length (filter (bit w) [0..<8]))"

definition Count :: "bitmap \<Rightarrow> int" where
  "Count b = foldl (\<lambda>count byteVal. wrap64 (count + OnesCount8 byteVal)) 0 (bm_bits b)"

definition Size :: "bitmap \<Rightarrow> int" where
  "Size b = bm_size b"

section \<open>The invariant and the set a bitmap stands for\<close>

text \<open>Bit \<open>n\<close> of a byte slice, little-endian inside each byte.\<close>

definition bit_at :: "8 word list \<Rightarrow> nat \<Rightarrow> bool" where
  "bit_at bs n \<longleftrightarrow> n div 8 < length bs \<and> bit (bs ! (n div 8)) (n mod 8)"

text \<open>The slice has exactly the bytes the capacity needs, and the spare bits of the last byte are 0.\<close>

definition bm_inv :: "bitmap \<Rightarrow> bool" where
  "bm_inv b \<longleftrightarrow> 0 \<le> bm_size b \<and> bm_size b + 7 < 2 ^ 63
     \<and> length (bm_bits b) = (nat (bm_size b) + 7) div 8
     \<and> (\<forall>n. bit_at (bm_bits b) n \<longrightarrow> int n < bm_size b)"

definition elems :: "bitmap \<Rightarrow> int set" where
  "elems b = {i. 0 \<le> i \<and> bit_at (bm_bits b) (nat i)}"

section \<open>Single bits\<close>

lemma index_split_eq: "m = n \<longleftrightarrow> m div 8 = n div 8 \<and> m mod 8 = n mod 8" for m n :: nat
  by (metis div_mult_mod_eq)

lemma bit_at_or:
  assumes "n div 8 < length bs"
  shows "bit_at (bs[n div 8 := bs ! (n div 8) OR push_bit (n mod 8) 1]) m \<longleftrightarrow> m = n \<or> bit_at bs m"
  using assms by (auto simp: bit_at_def nth_list_update bit_simps index_split_eq [of m n])

lemma bit_at_and_not:
  assumes "n div 8 < length bs"
  shows "bit_at (bs[n div 8 := bs ! (n div 8) AND NOT (push_bit (n mod 8) 1)]) m
    \<longleftrightarrow> m \<noteq> n \<and> bit_at bs m"
  using assms by (auto simp: bit_at_def nth_list_update bit_simps index_split_eq [of m n])

lemma and_single_bit: "w AND push_bit k 1 \<noteq> 0 \<longleftrightarrow> bit w k" if "k < 8" for w :: "8 word"
proof -
  have "w AND push_bit k 1 = (if bit w k then push_bit k 1 else 0)"
    by (rule bit_word_eqI) (use that in \<open>auto simp: bit_simps\<close>)
  moreover have "push_bit k (1 :: 8 word) \<noteq> 0"
    using that by (auto simp: bit_eq_iff bit_simps)
  ultimately show ?thesis by simp
qed

lemma bm_inv_byte:
  assumes "bm_inv b" and "0 \<le> i" and "i < bm_size b"
  shows "nat i div 8 < length (bm_bits b)"
    and "i sdiv 8 = int (nat i div 8)" and "i smod 8 = int (nat i mod 8)"
  using assms by (auto simp: bm_inv_def i64_simps nat_div_distrib zdiv_int zmod_int)

section \<open>The methods on a valid index\<close>

lemma or_bit_eq:
  assumes "bm_inv b" and "0 \<le> i" and "i < bm_size b"
  shows "or_bit b i = Inr (b\<lparr>bm_bits := (bm_bits b)[nat i div 8 :=
           bm_bits b ! (nat i div 8) OR push_bit (nat i mod 8) 1]\<rparr>)"
  using bm_inv_byte [OF assms] by (simp add: or_bit_def)

lemma or_bit_ok:
  assumes "bm_inv b" and "0 \<le> i" and "i < bm_size b"
  shows "\<exists>b'. or_bit b i = Inr b' \<and> bm_inv b' \<and> bm_size b' = bm_size b \<and> elems b' = insert i (elems b)"
  using assms bm_inv_byte(1) [OF assms]
  by (auto simp: or_bit_eq bm_inv_def elems_def bit_at_or simp del: push_bit_of_1)

lemma Set_ok:
  assumes "bm_inv b" and "0 \<le> i" and "i < bm_size b"
  shows "\<exists>b'. Set b i = Inr b' \<and> bm_inv b' \<and> bm_size b' = bm_size b \<and> elems b' = insert i (elems b)"
  using or_bit_ok [OF assms] assms by (simp add: Set_def validateIndex_def)

lemma validate_all:
  "foldR (\<lambda>_ index. validateIndex b index) () is
     = (if \<forall>i \<in> set is. 0 \<le> i \<and> i < bm_size b then Inr ()
        else Inl (PanicMsg ''bitmap index out of range''))"
  by (induction "is") (auto simp: validateIndex_def)

lemma MSet_ok:
  assumes "bm_inv b" and "\<forall>i \<in> set is. 0 \<le> i \<and> i < bm_size b"
  shows "\<exists>b'. MSet b is = Inr b' \<and> bm_inv b' \<and> bm_size b' = bm_size b \<and> elems b' = elems b \<union> set is"
proof -
  have "\<exists>b'. foldR or_bit b is = Inr b' \<and> bm_inv b' \<and> bm_size b' = bm_size b
      \<and> elems b' = elems b \<union> set is"
    using assms
  proof (induction "is" arbitrary: b)
    case Nil
    then show ?case by simp
  next
    case (Cons i "is")
    then obtain c where "or_bit b i = Inr c" "bm_inv c" "bm_size c = bm_size b"
        "elems c = insert i (elems b)"
      using or_bit_ok [of b i] by auto
    with Cons.IH [of c] Cons.prems(2) show ?case by auto
  qed
  then show ?thesis using assms by (auto simp: MSet_def validate_all)
qed

lemma IsSet_ok:
  assumes "bm_inv b" and "0 \<le> i" and "i < bm_size b"
  shows "IsSet b i = Inr (i \<in> elems b)"
  using assms bm_inv_byte [OF assms]
  by (simp add: IsSet_def validateIndex_def and_single_bit elems_def bit_at_def
      del: push_bit_of_1)

lemma Clear_ok:
  assumes "bm_inv b" and "0 \<le> i" and "i < bm_size b"
  shows "\<exists>b'. Clear b i = Inr b' \<and> bm_inv b' \<and> bm_size b' = bm_size b \<and> elems b' = elems b - {i}"
  using assms bm_inv_byte [OF assms]
  by (auto simp: Clear_def validateIndex_def bm_inv_def elems_def bit_at_and_not simp del: push_bit_of_1)

lemma elems_range: "bm_inv b \<Longrightarrow> elems b \<subseteq> {0..<bm_size b}"
  by (auto simp: bm_inv_def elems_def)

section \<open>Counting\<close>

lemma bit_at_Cons: "bit_at (w # bs) n \<longleftrightarrow> (if n < 8 then bit w n else bit_at bs (n - 8))"
proof (cases "n < 8")
  case False
  then obtain m where "n = m + 8" using le_Suc_ex [of 8 n] by auto
  moreover have "(m + 8) div 8 = Suc (m div 8)" by simp
  ultimately show ?thesis by (simp add: bit_at_def del: div_add_self2)
qed (simp add: bit_at_def)

lemma OnesCount8_card: "OnesCount8 w = int (card {n. n < 8 \<and> bit w n})"
proof -
  have "length (filter (bit w) [0..<8]) = card (set (filter (bit w) [0..<8]))"
    by (rule distinct_card [symmetric]) simp
  moreover have "set (filter (bit w) [0..<8]) = {n. n < 8 \<and> bit w n}" by auto
  ultimately show ?thesis by (simp add: OnesCount8_def)
qed

lemma finite_bit_at: "finite {n. bit_at bs n}"
  by (rule finite_subset [of _ "{..< 8 * length bs}"]) (auto simp: bit_at_def)

lemma card_bit_at: "int (card {n. bit_at bs n}) = sum_list (map OnesCount8 bs)"
proof (induction bs)
  case Nil
  then show ?case by (simp add: bit_at_def)
next
  case (Cons w bs)
  have "{n. bit_at (w # bs) n} = {n. n < 8 \<and> bit w n} \<union> (\<lambda>n. n + 8) ` {n. bit_at bs n}"
    (is "?L = ?R")
  proof
    show "?L \<subseteq> ?R"
    proof
      fix n assume "n \<in> ?L"
      then show "n \<in> ?R"
        by (cases "n < 8") (auto simp: bit_at_Cons image_iff intro: exI [of _ "n - 8"])
    qed
  qed (auto simp: bit_at_Cons)
  moreover have "card ({n. n < 8 \<and> bit w n} \<union> (\<lambda>n. n + 8) ` {n. bit_at bs n})
      = card {n. n < 8 \<and> bit w n} + card {n. bit_at bs n}"
    by (subst card_Un_disjoint) (auto simp: finite_bit_at card_image)
  ultimately show ?case using Cons by (simp add: OnesCount8_card)
qed

lemma OnesCount8_bounds: "0 \<le> OnesCount8 w" "OnesCount8 w \<le> 8"
  using length_filter_le [of "bit w" "[0..<8]"] by (auto simp: OnesCount8_def)

text \<open>The accumulator of \<open>Count\<close> never wraps: there are fewer than \<open>2 ^ 60\<close> bytes.\<close>

lemma count_loop:
  assumes "0 \<le> c" and "c + 8 * int (length bs) < 2 ^ 63"
  shows "foldl (\<lambda>count v. wrap64 (count + OnesCount8 v)) c bs = c + sum_list (map OnesCount8 bs)"
  using assms
proof (induction bs arbitrary: c)
  case Nil
  then show ?case by simp
next
  case (Cons w bs)
  have "wrap64 (c + OnesCount8 w) = c + OnesCount8 w"
    by (rule wrap64_id) (use Cons.prems OnesCount8_bounds [of w] in \<open>auto simp: is_i64_def\<close>)
  with Cons.IH [of "c + OnesCount8 w"] Cons.prems OnesCount8_bounds [of w] show ?case by simp
qed

lemma Count_ok:
  assumes "bm_inv b"
  shows "Count b = int (card (elems b))"
proof -
  have "8 * int (length (bm_bits b)) < 2 ^ 63"
    using assms by (auto simp: bm_inv_def)
  then have "Count b = int (card {n. bit_at (bm_bits b) n})"
    by (simp add: Count_def count_loop card_bit_at)
  also have "card {n. bit_at (bm_bits b) n} = card (int ` {n. bit_at (bm_bits b) n})"
    by (simp add: card_image)
  also have "int ` {n. bit_at (bm_bits b) n} = elems b"
    by (auto simp: elems_def image_iff) (metis int_nat_eq)
  finally show ?thesis .
qed

section \<open>The constructor, and the bitmap as a bit store\<close>

lemma bit_at_zeros: "\<not> bit_at (replicate k 0) n"
  by (auto simp: bit_at_def)

lemma NewBitmap_ok:
  assumes "0 \<le> sz" and "sz + 7 < 2 ^ 63"
  shows "\<exists>b. NewBitmap sz = Inr b \<and> bm_inv b \<and> bm_size b = sz \<and> elems b = {}"
proof -
  have "wrap64 (sz + 7) sdiv 8 = int ((nat sz + 7) div 8)"
    using assms by (simp add: i64_simps is_i64_def zdiv_int)
  then show ?thesis
    using assms by (auto simp: NewBitmap_def make_slice_def bm_inv_def elems_def bit_at_zeros)
qed

text \<open>A bitmap in the invariant is determined by its capacity and the set it stands for.\<close>

lemma bm_eqI:
  assumes "bm_inv a" and "bm_inv b" and "bm_size a = bm_size b" and "elems a = elems b"
  shows "a = (b :: bitmap)"
proof -
  have len: "length (bm_bits a) = length (bm_bits b)"
    using assms by (simp add: bm_inv_def)
  have same: "bit_at (bm_bits a) n = bit_at (bm_bits b) n" for n
    using assms(4) by (auto simp: elems_def set_eq_iff dest: spec [of _ "int n"])
  have "bm_bits a ! j = bm_bits b ! j" if j: "j < length (bm_bits a)" for j
  proof (rule bit_word_eqI)
    fix k assume "k < LENGTH(8)"
    then have "(8 * j + k) div 8 = j" "(8 * j + k) mod 8 = k" by simp_all
    with same [of "8 * j + k"] j len show "bit (bm_bits a ! j) k = bit (bm_bits b ! j) k"
      by (simp add: bit_at_def)
  qed
  with len have "bm_bits a = bm_bits b" by (simp add: nth_equalityI)
  with assms(3) show ?thesis by simp
qed

interpretation bms: counted_bitset bm_inv bm_size elems Set MSet IsSet Count
  by unfold_locales (simp_all add: Set_ok MSet_ok IsSet_ok elems_range Count_ok)

text \<open>The bitmap the witnesses use: ten bits in two bytes, all clear.\<close>

abbreviation ten_bits :: bitmap where
  "ten_bits \<equiv> \<lparr>bm_bits = [0, 0], bm_size = 10\<rparr>"

lemma ten_bits_inv: "bm_inv ten_bits"
  using bit_at_zeros [of 2] by (simp add: bm_inv_def numeral_2_eq_2)

lemma ten_bits_elems: "elems ten_bits = {}"
  using bit_at_zeros [of 2] by (simp add: elems_def numeral_2_eq_2)

section \<open>Properties of the package\<close>

text \<open>C2: On a bitmap in the invariant and an index below its capacity, the three single-bit
  methods are insertion, deletion and membership of the set the bitmap stands for: none of them
  panics, \<open>Set\<close> and \<open>Clear\<close> keep the invariant and the capacity, and no other index changes.\<close>

theorem bitmap_ops_refine_set:
  assumes "bm_inv b" and "0 \<le> i" and "i < Size b"
  shows "(\<exists>b'. Set b i = Inr b' \<and> bm_inv b' \<and> Size b' = Size b \<and> elems b' = insert i (elems b))
       \<and> (\<exists>b'. Clear b i = Inr b' \<and> bm_inv b' \<and> Size b' = Size b \<and> elems b' = elems b - {i})
       \<and> IsSet b i = Inr (i \<in> elems b)"
  using assms Set_ok Clear_ok IsSet_ok by (simp add: Size_def)

theorem bitmap_ops_refine_set_witness:
  "(\<exists>b'. Set ten_bits 9 = Inr b' \<and> elems b' = {9}) \<and> IsSet ten_bits 9 = Inr False"
  using bitmap_ops_refine_set [of ten_bits 9] by (auto simp: ten_bits_inv ten_bits_elems Size_def)

text \<open>\<open>MSet\<close> is all or nothing: if every index is in range it leaves exactly the bitmap that
  setting the indices one after the other leaves, and if any index is out of range it panics
  before the first bit is written.\<close>

theorem MSet_all_or_nothing:
  assumes "bm_inv b"
  shows "(if \<forall>i \<in> set is. 0 \<le> i \<and> i < Size b then MSet b is = foldR Set b is
          else MSet b is = Inl (PanicMsg ''bitmap index out of range''))"
proof (cases "\<forall>i \<in> set is. 0 \<le> i \<and> i < Size b")
  case True
  then have valid: "\<forall>i \<in> set is. 0 \<le> i \<and> i < bm_size b" by (simp add: Size_def)
  obtain c d where "MSet b is = Inr c" "bm_inv c" "bm_size c = bm_size b" "elems c = elems b \<union> set is"
    and "foldR Set b is = Inr d" "bm_inv d" "bm_size d = bm_size b" "elems d = elems b \<union> set is"
    using MSet_ok [OF assms valid] bms.fold_set_ok [OF assms valid] by blast
  moreover from this have "c = d" by (intro bm_eqI) simp_all
  ultimately show ?thesis using True by simp
next
  case False
  then have "is \<noteq> []" by auto
  with False show ?thesis by (auto simp: MSet_def validate_all Size_def)
qed

theorem MSet_all_or_nothing_witness:
  "MSet ten_bits [3, 9] = foldR Set ten_bits [3, 9]
   \<and> MSet ten_bits [3, 10] = Inl (PanicMsg ''bitmap index out of range'')"
  using MSet_all_or_nothing [OF ten_bits_inv, of "[3, 9]"]
    MSet_all_or_nothing [OF ten_bits_inv, of "[3, 10]"] by (simp add: Size_def)

text \<open>\<open>Count\<close> is the number of indices that are set (the spare bits of the last byte are never
  counted and the accumulator never wraps), so it lies between 0 and the capacity, and setting an
  index raises it by one exactly when the index was clear.\<close>

theorem Count_is_cardinality:
  assumes "bm_inv b"
  shows "Count b = int (card (elems b)) \<and> 0 \<le> Count b \<and> Count b \<le> Size b
    \<and> (\<forall>i b'. 0 \<le> i \<and> i < Size b \<and> Set b i = Inr b'
         \<longrightarrow> Count b' = Count b + (if i \<in> elems b then 0 else 1))"
proof -
  have "0 \<le> bm_size b" using assms by (simp add: bm_inv_def)
  then show ?thesis
    using bms.count_le_cap [OF assms] bms.count_card [OF assms]
    by (auto simp: Size_def bms.count_set [OF assms])
qed

theorem Count_is_cardinality_witness:
  "Count ten_bits = 0 \<and> (\<exists>b'. Set ten_bits 4 = Inr b' \<and> Count b' = 1)"
  using Count_is_cardinality [OF ten_bits_inv] Set_ok [OF ten_bits_inv, of 4]
  by (auto simp: ten_bits_elems Size_def dest: spec [of _ 4])

text \<open>\<open>NewBitmap\<close> on every \<open>int64\<close>: a negative size panics with the message of the source, the
  seven sizes for which \<open>size + 7\<close> overflows panic in \<open>make\<close>, and every other size gives an empty
  bitmap of that capacity in the invariant.\<close>

theorem NewBitmap_total:
  assumes "is_i64 sz"
  shows "(if sz < 0 then NewBitmap sz = Inl (PanicMsg ''bitmap size must be non-negative'')
          else if max_i64 - 7 < sz then NewBitmap sz = Inl MakeSliceLen
          else \<exists>b. NewBitmap sz = Inr b \<and> bm_inv b \<and> Size b = sz \<and> elems b = {})"
proof -
  have "NewBitmap sz = Inl MakeSliceLen" if "0 \<le> sz" "max_i64 - 7 < sz"
  proof -
    have "wrap64 (sz + 7) = sz + 7 - 2 ^ 64"
      by (rule wrap64_over) (use that assms in \<open>simp_all add: is_i64_def max_i64_def\<close>)
    moreover have "(sz + 7 - 2 ^ 64) sdiv 8 < 0"
      using that assms by (simp add: is_i64_def max_i64_def signed_divide_int_def sgn_if)
    ultimately show ?thesis using that by (simp add: NewBitmap_def make_slice_def)
  qed
  then show ?thesis using NewBitmap_ok [of sz] by (auto simp: NewBitmap_def max_i64_def Size_def)
qed

theorem NewBitmap_total_witness:
  "NewBitmap (2 ^ 63 - 1) = Inl MakeSliceLen \<and> (\<exists>b. NewBitmap 10 = Inr b \<and> Size b = 10)"
proof -
  have "is_i64 (2 ^ 63 - 1)" and "is_i64 10" by (simp_all add: is_i64_def)
  from this [THEN NewBitmap_total] show ?thesis by (auto simp: max_i64_def)
qed

end
