(* ===== verification/Bloom_Model.thy ===== *)
theory Bloom_Model
  imports Complex_Main Bitmap_Model
begin

text \<open>
  The package \<open>bloom\<close> (\<open>bloom/bloom.go\<close>): a Bloom filter for \<open>int64\<close> elements over the bitmap.
  The hash functions are the ones of the source, on \<open>int\<close> with the wrap-around of \<open>int64\<close>
  written out. The floating-point operations of \<open>estimateParameters\<close> are a parameter.
\<close>

section \<open>The hash functions\<close>

definition primes :: "int list" where
  "primes =
     [7540381766041133433, 4354685564936845354, 6742423442829656945, 5864445385546375633,
      6955415921471435831, 2270897969802886123, 6620516959819538809, 4354685564936845354]"

text \<open>\<open>h ^= h >> 33\<close>, with the arithmetic shift of a signed operand.\<close>

definition xorshift33 :: "int \<Rightarrow> int" where
  "xorshift33 h = h XOR drop_bit 33 h"

text \<open>The five statements both closures share.\<close>

definition mix64 :: "int \<Rightarrow> int" where
  "mix64 h =
     (let h = xorshift33 h;
          h = wrap64 (h * 0x5136ead0f35b37d);
          h = xorshift33 h;
          h = wrap64 (h * 0x4cf5ad432745937)
      in xorshift33 h)"

definition hash_mul :: "int \<Rightarrow> int \<Rightarrow> int" where
  "hash_mul seed data = mix64 (wrap64 (data * seed))"

definition hash_xor :: "int \<Rightarrow> int \<Rightarrow> int" where
  "hash_xor seed data = mix64 (data XOR seed)"

definition variant_seed :: "nat \<Rightarrow> int" where
  "variant_seed i = primes ! (i mod length primes) XOR wrap64 (int i * 0x1234567)"

definition createInt64HashFunctions :: "int \<Rightarrow> (int \<Rightarrow> int) list go" where
  "createInt64HashFunctions k =
     (if k < 0 then Inl MakeSliceLen
      else Inr (map (\<lambda>i. hash_mul (primes ! i)) [0..<min (nat k) (length primes)]
              @ map (\<lambda>i. hash_xor (variant_seed i)) [length primes..<nat k]))"

section \<open>The filter\<close>

text \<open>
  \<open>fp_rnd\<close> is the rounding of one \<open>float64\<close> operation or conversion, \<open>fp_log\<close> and \<open>fp_pow\<close> are
  \<open>math.Log\<close> and \<open>math.Pow\<close>; negation and \<open>math.Ceil\<close> are exact. The conversion to \<open>int64\<close> is
  the identity on the values it is defined for.
\<close>

record float_ops =
  fp_rnd :: "real \<Rightarrow> real"
  fp_log :: "real \<Rightarrow> real"
  fp_pow :: "real \<Rightarrow> real \<Rightarrow> real"

definition estimateParameters :: "float_ops \<Rightarrow> int \<Rightarrow> real \<Rightarrow> int \<times> int" where
  "estimateParameters fp n p =
     (let m = \<lceil>fp_rnd fp (fp_rnd fp (- fp_rnd fp (of_int n) * fp_log fp p)
                          / fp_pow fp (fp_log fp 2) 2)\<rceil>;
          k = \<lceil>fp_rnd fp (fp_rnd fp (fp_log fp 2 * fp_rnd fp (of_int m)) / fp_rnd fp (of_int n))\<rceil>
      in (m, k))"

record bloom =
  bf_bitmap :: bitmap
  bf_hashFunc :: "(int \<Rightarrow> int) list"
  bf_size :: int

definition NewInt64Bloom :: "float_ops \<Rightarrow> int \<Rightarrow> real \<Rightarrow> bloom go" where
  "NewInt64Bloom fp n p =
     (let (m, k) = estimateParameters fp n p;
          k = (if k > 8 then 8 else k)
      in bindR (NewBitmap m) (\<lambda>b.
         bindR (createInt64HashFunctions k) (\<lambda>fns.
         Inr \<lparr>bf_bitmap = b, bf_hashFunc = fns, bf_size = m\<rparr>)))"

definition Add :: "bloom \<Rightarrow> int \<Rightarrow> bloom go" where
  "Add bf data =
     foldR (\<lambda>bf fn. bindR (go_rem (fn data) (bf_size bf)) (\<lambda>h.
                    bindR (Set (bf_bitmap bf) h) (\<lambda>b. Inr (bf\<lparr>bf_bitmap := b\<rparr>))))
       bf (bf_hashFunc bf)"

text \<open>The two nested loops of \<open>MAdd\<close> that collect the indexes.\<close>

definition madd_indexes :: "bloom \<Rightarrow> int list \<Rightarrow> int list go" where
  "madd_indexes bf data =
     foldR (\<lambda>indexes d.
              foldR (\<lambda>indexes fn. bindR (go_rem (fn d) (bf_size bf)) (\<lambda>h. Inr (indexes @ [h])))
                indexes (bf_hashFunc bf))
       [] data"

definition MAdd :: "bloom \<Rightarrow> int list \<Rightarrow> bloom go" where
  "MAdd bf data =
     (if data = [] then Inr bf
      else bindR (madd_indexes bf data) (\<lambda>indexes.
           bindR (MSet (bf_bitmap bf) indexes) (\<lambda>b. Inr (bf\<lparr>bf_bitmap := b\<rparr>))))"

definition Contains :: "bloom \<Rightarrow> int \<Rightarrow> bool go" where
  "Contains bf data =
     allR (\<lambda>fn. bindR (go_rem (fn data) (bf_size bf)) (IsSet (bf_bitmap bf))) (bf_hashFunc bf)"

section \<open>Every index the filter computes is in range\<close>

text \<open>
  The last step of a hash function xors the sign bit with itself, because the shift of a
  signed operand copies it: a hash is never negative, and neither is its remainder.
\<close>

lemma xorshift33_nonneg: "0 \<le> xorshift33 h"
  by (simp add: xorshift33_def)

lemma hash_nonneg: "0 \<le> hash_mul seed data" "0 \<le> hash_xor seed data"
  by (simp_all add: hash_mul_def hash_xor_def mix64_def Let_def xorshift33_nonneg)

lemma created_hash_nonneg:
  "createInt64HashFunctions k = Inr fns \<Longrightarrow> fn \<in> set fns \<Longrightarrow> 0 \<le> fn data"
  by (auto simp: createInt64HashFunctions_def hash_nonneg split: if_splits)

definition bf_inv :: "bloom \<Rightarrow> bool" where
  "bf_inv bf \<longleftrightarrow> bm_inv (bf_bitmap bf) \<and> bm_size (bf_bitmap bf) = bf_size bf \<and> 0 < bf_size bf
     \<and> (\<forall>fn \<in> set (bf_hashFunc bf). \<forall>data. 0 \<le> fn data)"

definition bf_idx :: "bloom \<Rightarrow> int \<Rightarrow> int list" where
  "bf_idx bf data = map (\<lambda>fn. fn data mod bf_size bf) (bf_hashFunc bf)"

lemma bf_idx_range:
  "bf_inv bf \<Longrightarrow> \<forall>i \<in> set (bf_idx bf data). 0 \<le> i \<and> i < bm_size (bf_bitmap bf)"
  by (auto simp: bf_inv_def bf_idx_def)

section \<open>The methods in terms of the bit store\<close>

lemma Add_fold:
  assumes "0 < sz" and "\<forall>fn \<in> set fns. \<forall>data. 0 \<le> fn data"
  shows "foldR (\<lambda>bf fn. bindR (go_rem (fn data) (bf_size bf)) (\<lambda>h.
             bindR (Set (bf_bitmap bf) h) (\<lambda>b. Inr (bf\<lparr>bf_bitmap := b\<rparr>))))
           \<lparr>bf_bitmap = b, bf_hashFunc = fs, bf_size = sz\<rparr> fns
       = bindR (foldR Set b (map (\<lambda>fn. fn data mod sz) fns)) (\<lambda>b.
           Inr \<lparr>bf_bitmap = b, bf_hashFunc = fs, bf_size = sz\<rparr>)"
  using assms
  by (induction fns arbitrary: b) (auto simp: go_rem_pos bindR_def split: sum.splits)

lemma Add_eq:
  assumes "bf_inv bf"
  shows "Add bf data = bindR (foldR Set (bf_bitmap bf) (bf_idx bf data)) (\<lambda>b.
           Inr (bf\<lparr>bf_bitmap := b\<rparr>))"
  using assms Add_fold [of "bf_size bf" "bf_hashFunc bf" data "bf_bitmap bf" "bf_hashFunc bf"]
  by (cases bf) (simp add: Add_def bf_inv_def bf_idx_def)

lemma madd_indexes_inner:
  assumes "0 < bf_size bf" and "\<forall>fn \<in> set fns. \<forall>data. 0 \<le> fn data"
  shows "foldR (\<lambda>indexes fn. bindR (go_rem (fn d) (bf_size bf)) (\<lambda>h. Inr (indexes @ [h]))) acc fns
    = Inr (acc @ map (\<lambda>fn. fn d mod bf_size bf) fns)"
  using assms by (induction fns arbitrary: acc) (simp_all add: go_rem_pos)

lemma madd_indexes_eq:
  assumes "bf_inv bf"
  shows "madd_indexes bf data = Inr (concat (map (bf_idx bf) data))"
proof -
  have "foldR (\<lambda>indexes d. foldR (\<lambda>indexes fn. bindR (go_rem (fn d) (bf_size bf))
      (\<lambda>h. Inr (indexes @ [h]))) indexes (bf_hashFunc bf)) acc data
      = Inr (acc @ concat (map (bf_idx bf) data))" for acc
    using assms
    by (induction data arbitrary: acc) (simp_all add: madd_indexes_inner bf_inv_def bf_idx_def)
  then show ?thesis by (simp add: madd_indexes_def)
qed

lemma Contains_eq:
  assumes "bf_inv bf"
  shows "Contains bf data = Inr (set (bf_idx bf data) \<subseteq> elems (bf_bitmap bf))"
proof -
  have "allR (\<lambda>fn. bindR (go_rem (fn data) (bf_size bf)) (IsSet b)) fns
      = allR (IsSet b) (map (\<lambda>fn. fn data mod bf_size bf) fns)"
    if "\<forall>fn \<in> set fns. \<forall>data. 0 \<le> fn data" for b fns
    using that assms by (induction fns) (simp_all add: go_rem_pos bf_inv_def cong: if_cong)
  then have "Contains bf data = allR (IsSet (bf_bitmap bf)) (bf_idx bf data)"
    using assms by (simp add: Contains_def bf_idx_def bf_inv_def)
  also have "\<dots> = Inr (set (bf_idx bf data) \<subseteq> elems (bf_bitmap bf))"
    using assms bf_idx_range [OF assms] by (intro bms.all_isset_ok) (auto simp: bf_inv_def)
  finally show ?thesis .
qed

text \<open>Adding succeeds, keeps the invariant and adds exactly the indices of the element.\<close>

lemma Add_ok:
  assumes "bf_inv bf"
  shows "\<exists>bf'. Add bf data = Inr bf' \<and> bf_inv bf' \<and> bf_idx bf' = bf_idx bf
    \<and> bf_hashFunc bf' = bf_hashFunc bf \<and> bf_size bf' = bf_size bf
    \<and> elems (bf_bitmap bf') = elems (bf_bitmap bf) \<union> set (bf_idx bf data)"
proof -
  have "bm_inv (bf_bitmap bf)" using assms by (simp add: bf_inv_def)
  from bms.fold_set_ok [OF this bf_idx_range [OF assms, of data]]
  obtain b' where "foldR Set (bf_bitmap bf) (bf_idx bf data) = Inr b'" "bm_inv b'"
      "bm_size b' = bm_size (bf_bitmap bf)"
      "elems b' = elems (bf_bitmap bf) \<union> set (bf_idx bf data)"
    by blast
  with assms show ?thesis
    by (simp add: Add_eq) (auto simp: bf_inv_def bf_idx_def)
qed

lemma MAdd_ok:
  assumes "bf_inv bf"
  shows "\<exists>bf'. MAdd bf data = Inr bf' \<and> bf_inv bf' \<and> bf_idx bf' = bf_idx bf
    \<and> bf_hashFunc bf' = bf_hashFunc bf \<and> bf_size bf' = bf_size bf
    \<and> elems (bf_bitmap bf') = elems (bf_bitmap bf) \<union> (\<Union>d \<in> set data. set (bf_idx bf d))"
proof (cases "data = []")
  case False
  have "bm_inv (bf_bitmap bf)" using assms by (simp add: bf_inv_def)
  moreover have "\<forall>i \<in> set (concat (map (bf_idx bf) data)). 0 \<le> i \<and> i < bm_size (bf_bitmap bf)"
    using bf_idx_range [OF assms] by auto
  ultimately obtain b' where "MSet (bf_bitmap bf) (concat (map (bf_idx bf) data)) = Inr b'" "bm_inv b'"
      "bm_size b' = bm_size (bf_bitmap bf)"
      "elems b' = elems (bf_bitmap bf) \<union> set (concat (map (bf_idx bf) data))"
    using bms.mset_ok by blast
  with False assms show ?thesis
    by (simp add: MAdd_def madd_indexes_eq) (auto simp: bf_inv_def bf_idx_def)
qed (use assms in \<open>simp add: MAdd_def\<close>)

lemma foldR_Add_ok:
  assumes "bf_inv bf"
  shows "\<exists>bf'. foldR Add bf data = Inr bf' \<and> bf_inv bf'
    \<and> bf_hashFunc bf' = bf_hashFunc bf \<and> bf_size bf' = bf_size bf
    \<and> elems (bf_bitmap bf') = elems (bf_bitmap bf) \<union> (\<Union>d \<in> set data. set (bf_idx bf d))"
  using assms
proof (induction data arbitrary: bf)
  case Nil
  then show ?case by simp
next
  case (Cons d data)
  from Add_ok [OF Cons.prems, of d] obtain c where c: "Add bf d = Inr c" "bf_inv c"
      "bf_idx c = bf_idx bf" "bf_hashFunc c = bf_hashFunc bf" "bf_size c = bf_size bf"
      "elems (bf_bitmap c) = elems (bf_bitmap bf) \<union> set (bf_idx bf d)" by auto
  from Cons.IH [OF c(2)] c show ?case by auto
qed

lemma bf_eqI:
  assumes "bf_inv a" and "bf_inv b" and "bf_hashFunc a = bf_hashFunc b" and "bf_size a = bf_size b"
    and "elems (bf_bitmap a) = elems (bf_bitmap b)"
  shows "a = (b :: bloom)"
proof -
  have "bf_bitmap a = bf_bitmap b"
    by (rule bm_eqI) (use assms in \<open>auto simp: bf_inv_def\<close>)
  with assms(3,4) show ?thesis by simp
qed

section \<open>The parameters\<close>

text \<open>
  What the estimate relies on in the floating-point operations, stated for results in the range of
  normal \<open>float64\<close> numbers: rounding keeps a positive value within a factor of two, the logarithm
  of the largest \<open>float64\<close> below 1 is at most \<open>- 1 / 2 ^ 53\<close>, and that of 2 and its square are
  what they are up to rounding.
\<close>

definition fp_ok :: "float_ops \<Rightarrow> bool" where
  "fp_ok fp \<longleftrightarrow>
     (\<forall>x. 1 / 2 ^ 1022 \<le> x \<longrightarrow> x / 2 \<le> fp_rnd fp x \<and> fp_rnd fp x \<le> 2 * x)
     \<and> (\<forall>x. 0 < x \<and> x \<le> 1 - 1 / 2 ^ 53 \<longrightarrow> fp_log fp x \<le> - (1 / 2 ^ 53))
     \<and> 1 / 2 \<le> fp_log fp 2
     \<and> 0 < fp_pow fp (fp_log fp 2) 2 \<and> fp_pow fp (fp_log fp 2) 2 \<le> 1"

lemma fp_rnd_ge: "fp_ok fp \<Longrightarrow> 1 / 2 ^ 1022 \<le> c \<Longrightarrow> c \<le> x \<Longrightarrow> c / 2 \<le> fp_rnd fp x"
  by (auto simp: fp_ok_def intro: order_trans [of _ "x / 2"] dest: spec [of _ x])

lemma normal_min: "1 / 2 ^ 1022 \<le> (1 / 2 ^ 67 :: real)"
  by (rule divide_left_mono) (simp_all del: power_numeral)

lemma fp_of_int_bounds:
  assumes "fp_ok fp" and "1 \<le> n"
  shows "1 / 2 \<le> fp_rnd fp (of_int n)" and "fp_rnd fp (of_int n) \<le> 2 * of_int n"
proof -
  have "1 / 2 ^ 1022 \<le> (1 :: real)" by simp
  moreover have "(1 :: real) \<le> of_int n" using assms(2) by simp
  ultimately have "1 / 2 ^ 1022 \<le> (of_int n :: real)" by (rule order_trans)
  then show "1 / 2 \<le> fp_rnd fp (of_int n)" and "fp_rnd fp (of_int n) \<le> 2 * of_int n"
    using assms fp_rnd_ge [OF assms(1), of 1 "of_int n"] by (auto simp: fp_ok_def)
qed

lemma estimate_m_pos:
  assumes fp: "fp_ok fp" and n: "1 \<le> n" and p: "0 < p" "p \<le> 1 - 1 / 2 ^ 53"
  shows "1 \<le> fst (estimateParameters fp n p)"
proof -
  let ?a = "fp_rnd fp (of_int n)" and ?q = "fp_pow fp (fp_log fp 2) 2"
  let ?x = "fp_rnd fp (- ?a * fp_log fp p)"
  have q: "0 < ?q" "?q \<le> 1" using fp by (simp_all add: fp_ok_def)
  have "1 / 2 * (1 / 2 ^ 53) \<le> ?a * (- fp_log fp p)"
    using fp_of_int_bounds [OF fp n] p fp by (intro mult_mono) (auto simp: fp_ok_def)
  then have x: "1 / 2 ^ 55 \<le> ?x"
    using fp_rnd_ge [OF fp _ , of "1 / 2 ^ 54"] normal_min by simp
  have "1 / 2 ^ 55 \<le> ?x / 1" using x by simp
  also have "\<dots> \<le> ?x / ?q" by (rule divide_left_mono) (use q x in simp_all)
  finally have "1 / 2 ^ 56 \<le> fp_rnd fp (?x / ?q)"
    using fp_rnd_ge [OF fp _ , of "1 / 2 ^ 55"] normal_min by simp
  then have "0 < fp_rnd fp (?x / ?q)" by (rule less_le_trans [rotated]) simp
  then show ?thesis by (simp add: estimateParameters_def Let_def)
qed

lemma estimate_k_pos:
  assumes fp: "fp_ok fp" and n: "1 \<le> n" "n < 2 ^ 63" and p: "0 < p" "p \<le> 1 - 1 / 2 ^ 53"
  shows "1 \<le> snd (estimateParameters fp n p)"
proof -
  let ?a = "fp_rnd fp (of_int n)" and ?b = "fp_rnd fp (of_int (fst (estimateParameters fp n p)))"
  let ?y = "fp_rnd fp (fp_log fp 2 * ?b)"
  have "1 / 2 * (1 / 2) \<le> fp_log fp 2 * ?b"
    using fp_of_int_bounds [OF fp estimate_m_pos [OF fp n(1) p]] fp
    by (intro mult_mono) (auto simp: fp_ok_def)
  then have y: "1 / 8 \<le> ?y" using fp_rnd_ge [OF fp, of "1 / 4"] normal_min by simp
  have "2 * of_int n \<le> (2 ^ 64 :: real)" using n by simp
  then have a: "1 / 2 \<le> ?a" "?a \<le> 2 ^ 64" using fp_of_int_bounds [OF fp n(1)] by linarith+
  have "1 / 2 ^ 67 = (1 / 8) / (2 ^ 64 :: real)" by simp
  also have "\<dots> \<le> ?y / ?a" by (rule frac_le) (use a y in simp_all)
  finally have "1 / 2 ^ 68 \<le> fp_rnd fp (?y / ?a)"
    using fp_rnd_ge [OF fp, of "1 / 2 ^ 67"] normal_min by simp
  then have "0 < fp_rnd fp (?y / ?a)" by (rule less_le_trans [rotated]) simp
  then show ?thesis by (simp add: estimateParameters_def Let_def)
qed

lemma created_length:
  "1 \<le> k \<Longrightarrow> k \<le> 8 \<Longrightarrow> \<exists>fns. createInt64HashFunctions k = Inr fns \<and> length fns = nat k"
  by (simp add: createInt64HashFunctions_def primes_def)

text \<open>The filter of the witnesses: ten bits and two of the source's hash functions.\<close>

abbreviation small_bloom :: bloom where
  "small_bloom \<equiv> \<lparr>bf_bitmap = ten_bits, bf_hashFunc = [hash_mul (primes ! 0), hash_mul (primes ! 1)],
     bf_size = 10\<rparr>"

lemma small_bloom_inv: "bf_inv small_bloom"
  using ten_bits_inv by (simp add: bf_inv_def hash_nonneg)

section \<open>Properties of the package\<close>

text \<open>C1: No false negatives. Adding an element to a filter never panics (every index is in range),
  keeps the invariant, and afterwards the filter contains the element and everything it contained.\<close>

theorem bloom_no_false_negatives:
  assumes "bf_inv bf"
  shows "\<exists>bf'. Add bf data = Inr bf' \<and> bf_inv bf' \<and> Contains bf' data = Inr True
    \<and> (\<forall>x. Contains bf x = Inr True \<longrightarrow> Contains bf' x = Inr True)"
proof -
  from Add_ok [OF assms, of data] obtain bf' where "Add bf data = Inr bf'" "bf_inv bf'"
      "bf_idx bf' = bf_idx bf"
      "elems (bf_bitmap bf') = elems (bf_bitmap bf) \<union> set (bf_idx bf data)" by blast
  then show ?thesis using assms by (intro exI [of _ bf']) (auto simp: Contains_eq)
qed

theorem bloom_no_false_negatives_witness:
  "\<exists>bf'. Add small_bloom 42 = Inr bf' \<and> Contains bf' 42 = Inr True"
  using bloom_no_false_negatives [OF small_bloom_inv, of 42] by blast

text \<open>\<open>MAdd\<close>, which collects the indexes of all elements and sets them in one \<open>MSet\<close>, leaves
  exactly the filter that adding the elements one after the other leaves, and that filter contains
  every one of them.\<close>

theorem MAdd_is_repeated_Add:
  assumes "bf_inv bf"
  shows "MAdd bf data = foldR Add bf data
    \<and> (\<exists>bf'. MAdd bf data = Inr bf' \<and> (\<forall>d \<in> set data. Contains bf' d = Inr True))"
proof -
  from MAdd_ok [OF assms, of data] obtain a where a: "MAdd bf data = Inr a" "bf_inv a"
      "bf_idx a = bf_idx bf" "bf_hashFunc a = bf_hashFunc bf" "bf_size a = bf_size bf"
      "elems (bf_bitmap a) = elems (bf_bitmap bf) \<union> (\<Union>d \<in> set data. set (bf_idx bf d))" by blast
  from foldR_Add_ok [OF assms, of data] obtain b where b: "foldR Add bf data = Inr b" "bf_inv b"
      "bf_hashFunc b = bf_hashFunc bf" "bf_size b = bf_size bf"
      "elems (bf_bitmap b) = elems (bf_bitmap bf) \<union> (\<Union>d \<in> set data. set (bf_idx bf d))" by blast
  from a b have "a = b" by (intro bf_eqI) simp_all
  with a b show ?thesis by (auto simp: Contains_eq)
qed

theorem MAdd_is_repeated_Add_witness:
  "MAdd small_bloom [42, - 7] = foldR Add small_bloom [42, - 7]"
  using MAdd_is_repeated_Add [OF small_bloom_inv, of "[42, - 7]"] by blast

text \<open>The constructor. For a positive expected count and a false positive rate strictly between
  0 and 1, and a bit count that fits \<open>int64\<close>, \<open>NewInt64Bloom\<close> does not panic: it has between one and
  eight hash functions, none of which ever returns a negative value, at least one bit, and contains
  nothing.\<close>

theorem NewInt64Bloom_ok:
  assumes "fp_ok fp" and "1 \<le> n" and "n < 2 ^ 63" and "0 < p" and "p \<le> 1 - 1 / 2 ^ 53"
    and "fst (estimateParameters fp n p) + 7 < 2 ^ 63"
  shows "\<exists>bf. NewInt64Bloom fp n p = Inr bf \<and> bf_inv bf
    \<and> 1 \<le> length (bf_hashFunc bf) \<and> length (bf_hashFunc bf) \<le> 8
    \<and> (\<forall>x. Contains bf x = Inr False)"
proof -
  obtain m k where mk: "estimateParameters fp n p = (m, k)" by (cases "estimateParameters fp n p")
  have m: "1 \<le> m" and k: "1 \<le> k"
    using estimate_m_pos [OF assms(1,2,4,5)] estimate_k_pos [OF assms(1-5)] mk by simp_all
  obtain b where b: "NewBitmap m = Inr b" "bm_inv b" "bm_size b = m" "elems b = {}"
    using NewBitmap_ok [of m] m assms(6) mk by auto
  define k' where "k' = (if k > 8 then 8 else k)"
  have k': "1 \<le> k'" "k' \<le> 8" using k by (simp_all add: k'_def)
  from created_length [OF this] obtain fns where
    fns: "createInt64HashFunctions k' = Inr fns" "length fns = nat k'" by blast
  let ?bf = "\<lparr>bf_bitmap = b, bf_hashFunc = fns, bf_size = m\<rparr>"
  have inv: "bf_inv ?bf"
    using b m created_hash_nonneg [OF fns(1)] by (simp add: bf_inv_def)
  have "fns \<noteq> []" using fns(2) k' by auto
  then have "Contains ?bf x = Inr False" for x
    using b by (simp add: Contains_eq [OF inv] bf_idx_def)
  with mk b fns inv k' show ?thesis by (auto simp: NewInt64Bloom_def simp flip: k'_def)
qed

theorem NewInt64Bloom_ok_witness:
  "\<exists>bf. NewInt64Bloom \<lparr>fp_rnd = \<lambda>x. x, fp_log = ln, fp_pow = (powr)\<rparr> 1 (1 / 2) = Inr bf \<and> bf_inv bf"
proof -
  let ?fp = "\<lparr>fp_rnd = \<lambda>x. x, fp_log = ln, fp_pow = (powr)\<rparr>"
  have ln2: "1 / 2 \<le> ln (2 :: real)"
    using ln_le_minus_one [of "1 / 2"] by (simp add: ln_div)
  have "ln (2 :: real) \<le> 1" using ln_le_minus_one [of 2] by simp
  then have "ln 2 powr 2 \<le> (1 :: real)" using ln2 by (simp add: power_le_one)
  moreover have "ln x \<le> - (1 / 2 ^ 53)" if "0 < x" "x \<le> 1 - 1 / 2 ^ 53" for x :: real
    using ln_le_minus_one [of x] that by linarith
  ultimately have ok: "fp_ok ?fp" using ln2 by (simp add: fp_ok_def)
  have "- ln (1 / 2 :: real) / (ln 2) powr 2 = 1 / ln (2 :: real)"
    by (simp add: ln_div power2_eq_square)
  also have "\<dots> \<le> 1 / (1 / 2)" by (rule divide_left_mono) (use ln2 in simp_all)
  finally have "\<lceil>- ln (1 / 2 :: real) / (ln 2) powr 2\<rceil> \<le> (2 :: int)"
    by (simp add: ceiling_le_iff del: powr_numeral)
  then have "fst (estimateParameters ?fp 1 (1 / 2)) + 7 < 2 ^ 63"
    by (simp add: estimateParameters_def Let_def)
  from NewInt64Bloom_ok [OF ok _ _ _ _ this] show ?thesis by auto
qed

text \<open>The table of multipliers holds the same number at its second and at its last place, so with
  eight hash functions (the largest number the constructor uses) the eighth sets and tests no bit:
  the indices of every element are those of the first seven functions alone.\<close>

theorem eighth_hash_adds_nothing:
  assumes "createInt64HashFunctions 8 = Inr fns" and "bf_hashFunc bf = fns"
  shows "fns ! 7 = fns ! 1
    \<and> set (bf_idx bf data) = set (bf_idx (bf\<lparr>bf_hashFunc := take 7 fns\<rparr>) data)"
proof -
  have fns: "fns = map (\<lambda>i. hash_mul (primes ! i)) [0, 1, 2, 3, 4, 5, 6, 7]"
    using assms(1) by (simp add: createInt64HashFunctions_def primes_def upt_rec)
  have "primes ! 7 = primes ! 1" by (simp add: primes_def)
  then show ?thesis using assms(2) by (simp add: bf_idx_def fns) auto
qed

theorem eighth_hash_adds_nothing_witness:
  "\<exists>fns. createInt64HashFunctions 8 = Inr fns \<and> fns ! 7 = fns ! 1"
proof -
  obtain fns where "createInt64HashFunctions 8 = Inr fns" using created_length [of 8] by auto
  with eighth_hash_adds_nothing [of fns "small_bloom\<lparr>bf_hashFunc := fns\<rparr>" 0] show ?thesis by simp
qed

end
