(* ===== verification/Go_Strings.thy ===== *)
theory Go_Strings
  imports Prelude
begin

text \<open>
  What the source uses of the packages \<open>strings\<close>, \<open>strconv\<close> and \<open>unicode\<close>, on byte strings:
  decimal numbers, splitting, joining, trimming and replacing. The case functions are those of
  ASCII letters; a byte outside ASCII is left alone.
\<close>

section \<open>Characters\<close>

definition is_digit :: "char \<Rightarrow> bool" where
  "is_digit c \<longleftrightarrow> 48 \<le> (of_char c :: nat) \<and> (of_char c :: nat) \<le> 57"

definition is_upper :: "char \<Rightarrow> bool" where
  "is_upper c \<longleftrightarrow> 65 \<le> (of_char c :: nat) \<and> (of_char c :: nat) \<le> 90"

definition is_lower :: "char \<Rightarrow> bool" where
  "is_lower c \<longleftrightarrow> 97 \<le> (of_char c :: nat) \<and> (of_char c :: nat) \<le> 122"

definition to_lower :: "char \<Rightarrow> char" where
  "to_lower c = (if is_upper c then char_of (of_char c + 32 :: nat) else c)"

definition to_upper :: "char \<Rightarrow> char" where
  "to_upper c = (if is_lower c then char_of (of_char c - 32 :: nat) else c)"

definition is_space :: "char \<Rightarrow> bool" where
  "is_space c \<longleftrightarrow> (of_char c :: nat) \<in> {9, 10, 11, 12, 13, 32}"

definition digit :: "nat \<Rightarrow> char" where
  "digit d = char_of (48 + d)"

definition digit_val :: "char \<Rightarrow> nat" where
  "digit_val c = of_char c - 48"

text \<open>The conversions \<open>[]byte(s)\<close> and \<open>string(b)\<close>, which copy the bytes.\<close>

definition to_bytes :: "string \<Rightarrow> 8 word list" where
  "to_bytes s = map (\<lambda>c. of_nat (of_char c)) s"

definition of_bytes :: "8 word list \<Rightarrow> string" where
  "of_bytes bs = map (\<lambda>b. char_of (unat b)) bs"

lemma of_char_less [simp]: "(of_char c :: nat) < 256"
  using nat_of_char_less_256 [of c] by simp

lemma of_bytes_to_bytes [simp]: "of_bytes (to_bytes s) = s"
proof -
  have "unat (of_nat (of_char c) :: 8 word) = of_char c" for c
    using nat_of_char_less_256 [of c] by (simp add: unat_of_nat)
  then show ?thesis by (simp add: of_bytes_def to_bytes_def comp_def)
qed

lemma to_bytes_simps [simp]: "length (to_bytes s) = length s" "to_bytes s = [] \<longleftrightarrow> s = []"
  by (simp_all add: to_bytes_def)

lemma is_digit_digit [simp]: "d < 10 \<Longrightarrow> is_digit (digit d)"
  by (simp add: is_digit_def digit_def)

lemma digit_val_digit [simp]: "d < 10 \<Longrightarrow> digit_val (digit d) = d"
  by (simp add: digit_val_def digit_def)

lemma is_upper_to_lower [simp]: "\<not> is_upper (to_lower c)"
  by (auto simp: to_lower_def is_upper_def)

lemma to_lower_not_upper [simp]: "\<not> is_upper c \<Longrightarrow> to_lower c = c"
  by (simp add: to_lower_def)

lemma to_upper_not_lower [simp]: "\<not> is_lower c \<Longrightarrow> to_upper c = c"
  by (simp add: to_upper_def)

lemma is_lower_to_lower: "is_lower (to_lower c) \<longleftrightarrow> is_upper c \<or> is_lower c"
  by (auto simp: to_lower_def is_upper_def is_lower_def)

lemma is_upper_to_upper: "is_upper (to_upper c) \<longleftrightarrow> is_upper c \<or> is_lower c"
  by (auto simp: to_upper_def is_upper_def is_lower_def)

lemma to_upper_to_lower: "is_upper c \<Longrightarrow> to_upper (to_lower c) = c"
  by (auto simp: to_upper_def to_lower_def is_upper_def is_lower_def)

section \<open>Decimal numbers\<close>

fun show_nat :: "nat \<Rightarrow> string" where
  "show_nat n = (if n < 10 then [digit n] else show_nat (n div 10) @ [digit (n mod 10)])"

declare show_nat.simps [simp del]

text \<open>\<open>strconv.Itoa\<close> and \<open>strconv.FormatInt\<close> in base ten.\<close>

definition itoa :: "int \<Rightarrow> string" where
  "itoa i = (if i < 0 then CHR ''-'' # show_nat (nat (- i)) else show_nat (nat i))"

datatype num_error = ErrSyntax | ErrRange int

text \<open>The digit loop of \<open>strconv.ParseUint\<close>: it leaves at the first bad digit or at the first overflow.\<close>

fun parse_uint :: "nat \<Rightarrow> string \<Rightarrow> num_error + nat" where
  "parse_uint n [] = Inr n"
| "parse_uint n (c # cs) =
     (if \<not> is_digit c then Inl ErrSyntax
      else let n' = 10 * n + digit_val c
           in if 2 ^ 64 \<le> n' then Inl (ErrRange (2 ^ 64 - 1)) else parse_uint n' cs)"

text \<open>
  \<open>strconv.ParseInt(s, 10, 64)\<close> and \<open>strconv.Atoi\<close>. A range error carries the value the
  functions return beside the error; with a syntax error that value is 0.
\<close>

definition parse_int :: "string \<Rightarrow> num_error + int" where
  "parse_int s =
     (let neg = (case s of c # _ \<Rightarrow> c = CHR ''-'' | [] \<Rightarrow> False);
          ds = (case s of c # cs \<Rightarrow> if c = CHR ''-'' \<or> c = CHR ''+'' then cs else s | [] \<Rightarrow> s)
      in if ds = [] then Inl ErrSyntax
         else let over = (if neg then Inl (ErrRange (- (2 ^ 63))) else Inl (ErrRange (2 ^ 63 - 1)))
              in case parse_uint 0 ds of
                   Inl ErrSyntax \<Rightarrow> Inl ErrSyntax
                 | Inl (ErrRange _) \<Rightarrow> over
                 | Inr n \<Rightarrow>
                     if \<not> neg \<and> 2 ^ 63 \<le> n then over
                     else if neg \<and> 2 ^ 63 < n then over
                     else Inr (if neg then - int n else int n))"

lemma show_nat_digits: "\<forall>c \<in> set (show_nat n). is_digit c"
proof (induction n rule: show_nat.induct)
  case (1 n)
  then show ?case by (cases "n < 10") (auto simp: show_nat.simps [of n])
qed

lemma show_nat_nonempty [simp]: "show_nat n \<noteq> []"
  by (subst show_nat.simps) simp

lemma parse_uint_append:
  "parse_uint n (xs @ ys) = bindR (parse_uint n xs) (\<lambda>m. parse_uint m ys)"
  by (induction xs arbitrary: n) (auto simp: Let_def)

lemma parse_uint_show_nat: "n < 2 ^ 64 \<Longrightarrow> parse_uint 0 (show_nat n) = Inr n"
proof (induction n rule: show_nat.induct)
  case (1 n)
  show ?case
  proof (cases "n < 10")
    case True
    then show ?thesis by (simp add: show_nat.simps [of n])
  next
    case False
    then have "parse_uint 0 (show_nat (n div 10)) = Inr (n div 10)"
      using "1.IH" "1.prems" by simp
    moreover have "10 * (n div 10) + n mod 10 = n" by simp
    ultimately show ?thesis
      using False "1.prems" by (simp add: show_nat.simps [of n] parse_uint_append del: mult_div_mod_eq)
  qed
qed

lemma is_digit_simps [simp]: "\<not> is_digit CHR ''-''" "\<not> is_digit CHR ''+''" "\<not> is_digit CHR ''_''"
    "\<not> is_digit CHR '':''"
  by (simp_all add: is_digit_def)

lemma show_nat_cases:
  obtains c cs where "show_nat n = c # cs" and "is_digit c" and "c \<noteq> CHR ''-''" and "c \<noteq> CHR ''+''"
proof -
  obtain c cs where c: "show_nat n = c # cs" by (cases "show_nat n") auto
  then have "is_digit c" using show_nat_digits [of n] by simp
  moreover from this have "c \<noteq> CHR ''-''" and "c \<noteq> CHR ''+''" by auto
  ultimately show ?thesis using that c by blast
qed

text \<open>Printing an \<open>int64\<close> and parsing the text gives the number back.\<close>

lemma parse_int_itoa:
  assumes "is_i64 i"
  shows "parse_int (itoa i) = Inr i"
proof (cases "i < 0")
  case True
  have "nat (- i) < 2 ^ 64" "nat (- i) \<le> 2 ^ 63" using assms by (auto simp: is_i64_def)
  with True show ?thesis
    by (simp add: parse_int_def itoa_def parse_uint_show_nat)
next
  case False
  have "nat i < 2 ^ 64" "nat i < 2 ^ 63" using assms False by (auto simp: is_i64_def)
  moreover obtain c cs where "show_nat (nat i) = c # cs" "c \<noteq> CHR ''-''" "c \<noteq> CHR ''+''"
    using show_nat_cases by metis
  ultimately show ?thesis
    using False parse_uint_show_nat [of "nat i"] by (simp add: parse_int_def itoa_def Let_def)
qed

lemma show_nat_value: "foldl (\<lambda>n c. 10 * n + digit_val c) 0 (show_nat n) = n"
proof (induction n rule: show_nat.induct)
  case (1 n)
  then show ?case by (cases "n < 10") (simp_all add: show_nat.simps [of n])
qed

lemma show_nat_inj: "show_nat m = show_nat n \<Longrightarrow> m = n"
  by (metis show_nat_value)

section \<open>Splitting and joining\<close>

text \<open>\<open>strings.Split\<close> at a one-byte separator.\<close>

fun split_on :: "char \<Rightarrow> string \<Rightarrow> string list" where
  "split_on c [] = [[]]"
| "split_on c (x # xs) =
     (if x = c then [] # split_on c xs
      else case split_on c xs of p # ps \<Rightarrow> (x # p) # ps | [] \<Rightarrow> [[x]])"

fun join :: "string \<Rightarrow> string list \<Rightarrow> string" where
  "join sep [] = []"
| "join sep [p] = p"
| "join sep (p # q # ps) = p @ sep @ join sep (q # ps)"

lemma split_on_nonempty [simp]: "split_on c s \<noteq> []"
  by (induction s) (auto split: list.splits)

lemma join_Cons_head: "join sep ((x # p) # ps) = x # join sep (p # ps)"
  by (cases ps) simp_all

lemma join_split: "join [c] (split_on c s) = s"
proof (induction s)
  case (Cons x xs)
  obtain p ps where "split_on c xs = p # ps" by (cases "split_on c xs") auto
  with Cons show ?case by (auto simp: join_Cons_head)
qed simp

lemma split_no_sep: "p \<in> set (split_on c s) \<Longrightarrow> c \<notin> set p"
proof (induction s arbitrary: p)
  case (Cons x xs)
  obtain q ps where "split_on c xs = q # ps" by (cases "split_on c xs") auto
  with Cons show ?case by (auto split: if_splits)
qed simp

lemma split_on_absent: "c \<notin> set s \<Longrightarrow> split_on c s = [s]"
  by (induction s) auto

lemma split_on_append: "c \<notin> set p \<Longrightarrow> split_on c (p @ c # s) = p # split_on c s"
  by (induction p) auto

lemma split_join:
  assumes "ps \<noteq> []" and "\<forall>p \<in> set ps. c \<notin> set p"
  shows "split_on c (join [c] ps) = ps"
  using assms
proof (induction ps)
  case (Cons p ps)
  then show ?case by (cases ps) (auto simp: split_on_absent split_on_append)
qed simp

lemma set_split: "p \<in> set (split_on c s) \<Longrightarrow> set p \<subseteq> set s"
proof (induction s arbitrary: p)
  case (Cons x xs)
  obtain q ps where "split_on c xs = q # ps" by (cases "split_on c xs") auto
  with Cons show ?case by (fastforce split: if_splits)
qed simp

section \<open>Searching, replacing and trimming\<close>

fun has_prefix :: "string \<Rightarrow> string \<Rightarrow> bool" where
  "has_prefix s [] = True"
| "has_prefix [] (c # cs) = False"
| "has_prefix (x # xs) (c # cs) = (x = c \<and> has_prefix xs cs)"

fun contains :: "string \<Rightarrow> string \<Rightarrow> bool" where
  "contains [] sub = (sub = [])"
| "contains (x # xs) sub = (has_prefix (x # xs) sub \<or> contains xs sub)"

text \<open>\<open>strings.ReplaceAll\<close> for a non-empty \<open>old\<close>: left to right, without overlaps.\<close>

function replace_all :: "string \<Rightarrow> string \<Rightarrow> string \<Rightarrow> string" where
  "replace_all [] old new = []"
| "replace_all (x # xs) old new =
     (if old \<noteq> [] \<and> has_prefix (x # xs) old
      then new @ replace_all (drop (length old) (x # xs)) old new
      else x # replace_all xs old new)"
  by pat_completeness auto
termination by (relation "measure (\<lambda>(s, _, _). length s)") auto

definition trim_left :: "string \<Rightarrow> string" where
  "trim_left s = dropWhile is_space s"

definition trim_space :: "string \<Rightarrow> string" where
  "trim_space s = rev (trim_left (rev (trim_left s)))"

definition trim_suffix :: "string \<Rightarrow> string \<Rightarrow> string" where
  "trim_suffix s suf =
     (if has_prefix (rev s) (rev suf) then take (length s - length suf) s else s)"

lemma has_prefix_iff: "has_prefix s p \<longleftrightarrow> (\<exists>r. s = p @ r)"
  by (induction s p rule: has_prefix.induct) auto

lemma contains_iff: "contains s sub \<longleftrightarrow> (\<exists>a b. s = a @ sub @ b)"
proof (induction s)
  case (Cons x xs)
  have "(\<exists>a b. x # xs = a @ sub @ b) \<longleftrightarrow> (\<exists>b. x # xs = sub @ b) \<or> (\<exists>a b. xs = a @ sub @ b)"
    by (auto simp: Cons_eq_append_conv)
  with Cons show ?case by (simp add: has_prefix_iff)
qed simp

lemma set_trim_space: "set (trim_space s) \<subseteq> set s"
proof
  fix x assume "x \<in> set (trim_space s)"
  then have "x \<in> set (dropWhile is_space (rev (dropWhile is_space s)))"
    by (simp add: trim_space_def trim_left_def)
  from set_dropWhileD [OF this] show "x \<in> set s"
    by (auto dest: set_dropWhileD)
qed

lemma itoa_nonneg_prefix: "0 \<le> i \<Longrightarrow> \<not> has_prefix (itoa i) ''-''"
  by (rule show_nat_cases [of "nat i"]) (simp add: itoa_def)

lemma itoa_neg_prefix: "i < 0 \<Longrightarrow> has_prefix (itoa i) ''-''"
  by (simp add: itoa_def)

end
