(* ===== verification/Xid_Model.thy ===== *)
theory Xid_Model
  imports Go_Strings
begin

text \<open>
  The package \<open>xid\<close> (\<open>xid/id.go\<close>): a user id packs a game id and a zone into one \<open>int64\<close>
  (game id in the upper 48 bits, zone in bits 8 to 15), and is shown to users as a HashID string.
  The HashID library is a parameter: a function \<open>enc\<close> for \<open>EncodeInt64\<close> and a function \<open>dec\<close>
  for \<open>DecodeInt64WithError\<close>.
\<close>

definition gameIDSlotBit :: nat where "gameIDSlotBit = 16"

definition gameIDBit :: nat where "gameIDBit = 63 - gameIDSlotBit"

definition MaxGameID :: int where "MaxGameID = push_bit gameIDBit 1 - 1"

definition MinGameID :: int where "MinGameID = - MaxGameID"

definition zoneSlotBit :: nat where "zoneSlotBit = 8"

definition zoneMask :: int where "zoneMask = push_bit 8 1 - 1"

lemmas xid_consts = gameIDSlotBit_def gameIDBit_def MaxGameID_def MinGameID_def zoneSlotBit_def
  zoneMask_def

text \<open>
  The initialisation of the package: \<open>newHashIDs\<close> is \<open>NewWithData\<close> with a salt and a least length; without
  the object the program does not start.
\<close>

definition uidHashLen :: nat where "uidHashLen = 18"

definition salt :: string where "salt = ''go-pahtheon#2020''"

definition xid_init :: "(string \<Rightarrow> nat \<Rightarrow> 'e + 'h) \<Rightarrow> 'h go" where
  "xid_init newHashIDs = (case newHashIDs salt uidHashLen of
     Inl e \<Rightarrow> Inl (PanicMsg ''hashID encode failed'')
   | Inr h \<Rightarrow> Inr h)"

datatype 'e xid_error =
    ErrGameIDTooLarge
  | ErrGameIDTooSmall
  | EncodeFailed 'e
  | DecodeFailed 'e
  | DecodeEmpty
  | ParseFailed num_error

definition BuildUID :: "int \<Rightarrow> 8 word \<Rightarrow> 'e xid_error + int" where
  "BuildUID gameID zone =
     (if gameID > MaxGameID then Inl ErrGameIDTooLarge
      else if gameID < MinGameID then Inl ErrGameIDTooSmall
      else Inr (wrap64 (push_bit gameIDSlotBit gameID) OR push_bit zoneSlotBit (uint zone)))"

definition SplitUID :: "int \<Rightarrow> int \<times> 8 word" where
  "SplitUID uid =
     (let gameID = drop_bit gameIDSlotBit uid;
          zoneBits = drop_bit zoneSlotBit uid AND zoneMask
      in (gameID, word_of_int zoneBits))"

definition EncodeID :: "(int list \<Rightarrow> 'e + string) \<Rightarrow> int \<Rightarrow> 'e xid_error + string" where
  "EncodeID enc i =
     (if i < 0 then Inr (itoa i)
      else case enc [i] of Inl e \<Rightarrow> Inl (EncodeFailed e) | Inr s \<Rightarrow> Inr s)"

definition DecodeID :: "(string \<Rightarrow> 'e + int list) \<Rightarrow> string \<Rightarrow> 'e xid_error + int" where
  "DecodeID dec str =
     (if has_prefix str ''-'' then
        (case parse_int str of Inl e \<Rightarrow> Inl (ParseFailed e) | Inr i \<Rightarrow> Inr i)
      else case dec str of
             Inl e \<Rightarrow> Inl (DecodeFailed e)
           | Inr ids \<Rightarrow> (case ids of [] \<Rightarrow> Inl DecodeEmpty | i # _ \<Rightarrow> Inr i))"

section \<open>The packed layout\<close>

lemma push16_in_range: "MinGameID \<le> g \<Longrightarrow> g \<le> MaxGameID \<Longrightarrow> wrap64 (push_bit 16 g) = push_bit 16 g"
  by (rule wrap64_id) (simp add: is_i64_def xid_consts push_bit_eq_mult)

text \<open>The two fields do not overlap: the word is \<open>g * 2 ^ 16 + z * 2 ^ 8\<close>.\<close>

lemma pack_sum: "push_bit 16 g OR push_bit 8 (uint z) = 65536 * g + 256 * uint (z :: 8 word)"
proof -
  have "push_bit 16 g AND push_bit 8 (uint z) = 0"
    by (rule bit_eqI) (auto simp: bit_simps dest: bit_imp_le_length)
  then have "push_bit 16 g OR push_bit 8 (uint z) = push_bit 16 g + push_bit 8 (uint z)"
    using plus_and_or [of "push_bit 16 g" "push_bit 8 (uint z)"] by simp
  then show ?thesis by (simp add: push_bit_eq_mult)
qed

lemma BuildUID_eq:
  "MinGameID \<le> g \<Longrightarrow> g \<le> MaxGameID \<Longrightarrow> BuildUID g z = Inr (65536 * g + 256 * uint z)"
  using push16_in_range [of g] pack_sum [of g z]
  by (simp add: BuildUID_def gameIDSlotBit_def zoneSlotBit_def)

lemma uint8_bounds: "0 \<le> uint (z :: 8 word)" "uint z < 256"
  using uint_lt2p [of z] by simp_all

lemma SplitUID_eq: "SplitUID uid = (uid div 65536, word_of_int (uid div 256))"
proof -
  have "word_of_int (x AND 255) = (word_of_int x :: 8 word)" for x :: int
  proof -
    have "x AND 255 = take_bit 8 x" by (simp add: take_bit_eq_mask mask_eq_exp_minus_1)
    then show ?thesis by (simp add: word_of_int_eq_iff)
  qed
  then show ?thesis
    by (simp add: SplitUID_def Let_def xid_consts drop_bit_eq_div push_bit_eq_mult)
qed

lemma word8_mult256 [simp]: "(256 :: 8 word) * x = 0"
proof -
  have "(256 :: 8 word) * x = 0 * x"
    by (rule arg_cong [of _ _ "\<lambda>y. y * x"]) simp
  then show ?thesis by simp
qed

lemma pack_div:
  assumes "0 \<le> z" and "z < (256 :: int)"
  shows "(65536 * g + 256 * z) div 65536 = g" and "(65536 * g + 256 * z) div 256 = z + 256 * g"
proof -
  have "(256 * z + g * 65536) div 65536 = g" using assms by (subst div_mult_self1) simp_all
  then show "(65536 * g + 256 * z) div 65536 = g" by (simp add: algebra_simps)
  have "256 * (z + 256 * g) div 256 = z + 256 * g" by (rule nonzero_mult_div_cancel_left) simp
  then show "(65536 * g + 256 * z) div 256 = z + 256 * g" by (simp add: algebra_simps)
qed

section \<open>Properties of the package\<close>

text \<open>C29: Splitting undoes building. For every game id in the legal range and every zone, \<open>BuildUID\<close>
  succeeds with an \<open>int64\<close> whose sign is the sign of the game id when that is not zero, and
  \<open>SplitUID\<close> of it gives back the game id, negative ones included, and the zone.\<close>

theorem SplitUID_BuildUID:
  assumes "MinGameID \<le> gameID" and "gameID \<le> MaxGameID"
  shows "\<exists>uid. BuildUID gameID zone = Inr uid \<and> is_i64 uid \<and> SplitUID uid = (gameID, zone)
    \<and> (uid < 0 \<longleftrightarrow> gameID < 0)"
proof -
  let ?uid = "65536 * gameID + 256 * uint zone"
  have "SplitUID ?uid = (gameID, zone)"
    using pack_div [OF uint8_bounds, of gameID zone] by (simp add: SplitUID_eq)
  moreover have "is_i64 ?uid"
  proof -
    have "- (2 ^ 47) < gameID" "gameID < 2 ^ 47"
      using assms by (simp_all add: xid_consts push_bit_eq_mult)
    moreover obtain z where z: "z = uint zone" "0 \<le> z" "z < 256" using uint8_bounds by blast
    ultimately show ?thesis by (simp add: is_i64_def flip: z(1))
  qed
  moreover have "?uid < 0 \<longleftrightarrow> gameID < 0"
    using uint8_bounds [of zone] by linarith
  ultimately show ?thesis using BuildUID_eq [OF assms, of zone] by blast
qed

theorem SplitUID_BuildUID_witness:
  "\<exists>uid. BuildUID (- 12345) 255 = Inr uid \<and> SplitUID uid = (- 12345, 255)"
  using SplitUID_BuildUID [of "- 12345" 255] by (auto simp: xid_consts)

text \<open>Building undoes splitting, for every \<open>int64\<close> whose unused low byte is clear, except the ones
  whose game id part is the least 48-bit number: that number is below \<open>MinGameID\<close>, and \<open>BuildUID\<close>
  refuses it. Two different pairs never build the same id.\<close>

theorem BuildUID_SplitUID:
  assumes "is_i64 uid" and "uid mod 256 = 0"
  shows "(case SplitUID uid of (g, z) \<Rightarrow> BuildUID g z)
       = (if uid div 2 ^ 16 = - (2 ^ 47) then Inl ErrGameIDTooSmall else Inr uid)"
proof (cases "uid div 65536 = - (2 ^ 47)")
  case True
  then show ?thesis by (simp add: SplitUID_eq BuildUID_def xid_consts push_bit_eq_mult)
next
  case False
  obtain q where q: "uid = 256 * q" using assms(2) by auto
  have "q div 256 < 2 ^ 47" "- (2 ^ 47) \<le> q div 256" using assms(1) q by (auto simp: is_i64_def)
  moreover have "q div 256 \<noteq> - (2 ^ 47)" using False q by simp
  ultimately have "BuildUID (q div 256) (word_of_int q)
      = Inr (65536 * (q div 256) + 256 * (q mod 256))"
    using BuildUID_eq [of "q div 256" "word_of_int q"]
    by (simp add: xid_consts push_bit_eq_mult uint_word_of_int)
  moreover have "65536 * (q div 256) + 256 * (q mod 256) = uid"
    using mult_div_mod_eq [of 256 q] q by linarith
  ultimately show ?thesis using False q by (simp add: SplitUID_eq)
qed

theorem BuildUID_SplitUID_witness:
  "(case SplitUID 66304 of (g, z) \<Rightarrow> BuildUID g z) = Inr 66304"
  using BuildUID_SplitUID [of 66304] by (simp add: is_i64_def)

text \<open>
  What the documentation of the HashID library promises for one non-negative number: it encodes,
  the string decodes to that number alone, and no string it makes starts with a minus sign.
\<close>

definition hashid_ok :: "(int list \<Rightarrow> 'e + string) \<Rightarrow> (string \<Rightarrow> 'e + int list) \<Rightarrow> bool" where
  "hashid_ok enc dec \<longleftrightarrow>
     (\<forall>i. 0 \<le> i \<and> is_i64 i \<longrightarrow>
        (\<exists>s. enc [i] = Inr s \<and> dec s = Inr [i] \<and> \<not> has_prefix s ''-''))"

text \<open>C30: Every \<open>int64\<close> survives encoding and decoding: the non-negative ones through the HashID
  library, the negative ones through their decimal text, which \<open>DecodeID\<close> recognises by the minus
  sign; in particular \<open>EncodeID\<close> never fails and two ids never share a string.\<close>

theorem DecodeID_EncodeID:
  assumes "hashid_ok enc dec" and "is_i64 i" and "is_i64 j"
  shows "\<exists>s. EncodeID enc i = Inr s \<and> DecodeID dec s = Inr i
    \<and> (EncodeID enc j = Inr s \<longrightarrow> j = i)"
proof -
  have rt: "\<exists>s. EncodeID enc k = Inr s \<and> DecodeID dec s = Inr k" if i64: "is_i64 k" for k
  proof (cases "k < 0")
    case True
    then show ?thesis
      using parse_int_itoa [OF i64] itoa_neg_prefix by (simp add: EncodeID_def DecodeID_def)
  next
    case False
    then obtain s where "enc [k] = Inr s" "dec s = Inr [k]" "\<not> has_prefix s ''-''"
      using assms(1) i64 by (auto simp: hashid_ok_def dest!: spec [of _ k])
    with False show ?thesis by (simp add: EncodeID_def DecodeID_def)
  qed
  from rt [OF assms(2)] rt [OF assms(3)] show ?thesis by auto
qed

theorem DecodeID_EncodeID_witness:
  "\<exists>s. EncodeID (\<lambda>is. Inr (itoa (hd is)) :: unit + string) (- 5) = Inr s
     \<and> DecodeID (\<lambda>s. case parse_int s of Inl _ \<Rightarrow> Inl () | Inr i \<Rightarrow> Inr [i]) s = Inr (- 5)"
proof -
  have "hashid_ok (\<lambda>is. Inr (itoa (hd is)) :: unit + string)
      (\<lambda>s. case parse_int s of Inl _ \<Rightarrow> Inl () | Inr i \<Rightarrow> Inr [i])"
    by (simp add: hashid_ok_def parse_int_itoa itoa_nonneg_prefix)
  from DecodeID_EncodeID [OF this, of "- 5" "- 5"] show ?thesis by (auto simp: is_i64_def)
qed

end
