(* ===== verification/Ring_Iface.thy ===== *)
theory Ring_Iface
  imports Prelude "HOL-Library.Multiset"
begin

text \<open>
  What the two consistent-hash rings share: the binary search of \<open>sort.Search\<close>, the in-place
  compaction of a slice by \<open>filtered := xs[:0]\<close> and \<open>append\<close>, the contract of \<open>sort.Sort\<close>, and the
  interface of a ring with the routing lemmas proved once.
\<close>

section \<open>Library routines\<close>

text \<open>\<open>sort.Search(n, f)\<close>: the loop over \<open>i\<close> and \<open>j\<close>.\<close>

function search_loop :: "(nat \<Rightarrow> bool) \<Rightarrow> nat \<Rightarrow> nat \<Rightarrow> nat" where
  "search_loop f i j =
     (if i < j then
        let h = (i + j) div 2
        in if \<not> f h then search_loop f (h + 1) j else search_loop f i h
      else i)"
  by pat_completeness auto
termination by (relation "measure (\<lambda>(f, i, j). j - i)") auto

declare search_loop.simps [simp del]

definition sort_Search :: "nat \<Rightarrow> (nat \<Rightarrow> bool) \<Rightarrow> nat" where
  "sort_Search n f = search_loop f 0 n"

text \<open>On a predicate that stays true once it is true, the search finds the first index where it holds.\<close>

lemma search_loop_spec:
  assumes "i \<le> j" and "j \<le> n" and "\<forall>x < i. \<not> f x" and "\<forall>x. j \<le> x \<and> x < n \<longrightarrow> f x"
    and "\<forall>x y. x \<le> y \<and> y < n \<and> f x \<longrightarrow> f y"
  shows "search_loop f i j \<le> n \<and> (\<forall>x < search_loop f i j. \<not> f x)
    \<and> (search_loop f i j < n \<longrightarrow> f (search_loop f i j))"
  using assms
proof (induction f i j rule: search_loop.induct)
  case (1 f i j)
  show ?case
  proof (cases "i < j")
    case False
    then have "search_loop f i j = i" by (simp add: search_loop.simps [of f i j])
    moreover have "i = j" using False "1.prems"(1) by simp
    ultimately show ?thesis using "1.prems" by simp
  next
    case True
    define h where "h = (i + j) div 2"
    have h: "i \<le> h" "h < j" using True by (auto simp: h_def)
    have eq: "search_loop f i j = (if f h then search_loop f i h else search_loop f (h + 1) j)"
      using True by (simp add: search_loop.simps [of f i j] h_def Let_def)
    have hn: "h < n" using h "1.prems"(2) by simp
    show ?thesis
    proof (cases "f h")
      case True
      have up: "\<forall>x. h \<le> x \<and> x < n \<longrightarrow> f x" using "1.prems"(5) True by blast
      have nn: "\<not> \<not> f h" using True by simp
      from "1.IH"(2) [OF \<open>i < j\<close> h_def nn h(1) less_imp_le [OF hn] "1.prems"(3) up "1.prems"(5)]
      show ?thesis unfolding eq using True by simp
    next
      case False
      have low: "\<forall>x < h + 1. \<not> f x"
      proof (intro allI impI notI)
        fix x assume "x < h + 1" and "f x"
        then have "x \<le> h" by simp
        with \<open>f x\<close> hn "1.prems"(5) False show False by blast
      qed
      have "h + 1 \<le> j" using h(2) by simp
      from "1.IH"(1) [OF \<open>i < j\<close> h_def False this "1.prems"(2) low "1.prems"(4,5)]
      show ?thesis unfolding eq using False by simp
    qed
  qed
qed

lemma sort_Search_spec:
  assumes "\<forall>x y. x \<le> y \<and> y < n \<and> f x \<longrightarrow> f y"
  shows "sort_Search n f \<le> n" and "\<forall>x < sort_Search n f. \<not> f x"
    and "sort_Search n f < n \<longrightarrow> f (sort_Search n f)"
proof -
  have "sort_Search n f \<le> n \<and> (\<forall>x < sort_Search n f. \<not> f x)
      \<and> (sort_Search n f < n \<longrightarrow> f (sort_Search n f))"
    unfolding sort_Search_def by (rule search_loop_spec [OF _ _ _ _ assms]) auto
  then show "sort_Search n f \<le> n" and "\<forall>x < sort_Search n f. \<not> f x"
    and "sort_Search n f < n \<longrightarrow> f (sort_Search n f)" by blast+
qed

lemma sort_Search_find:
  assumes "\<forall>x y. x \<le> y \<and> y < length xs \<and> P (xs ! x) \<longrightarrow> P (xs ! y)"
  shows "find P xs = (let r = sort_Search (length xs) (\<lambda>i. P (xs ! i))
                      in if r = length xs then None else Some (xs ! r))"
proof -
  let ?r = "sort_Search (length xs) (\<lambda>i. P (xs ! i))"
  note r = sort_Search_spec [OF assms]
  show ?thesis
  proof (cases "?r = length xs")
    case True
    have "find P xs = None"
    proof (rule ccontr)
      assume "find P xs \<noteq> None"
      then obtain x where "x \<in> set xs" "P x" by (auto simp: find_None_iff)
      with r(2) True show False by (metis in_set_conv_nth)
    qed
    with True show ?thesis by simp
  next
    case False
    with r(1) have lt: "?r < length xs" by simp
    have "find P xs = Some (xs ! ?r)"
      unfolding find_Some_iff
      by (rule exI [of _ ?r], intro conjI lt refl r(2) r(3) [rule_format, OF lt])
    with False show ?thesis by (simp add: Let_def)
  qed
qed

text \<open>
  \<open>filtered := xs[:0]; for _, x := range xs { if keep { filtered = append(filtered, x) } }\<close>.
  Both slices share one backing array \<open>arr\<close>: \<open>i\<close> is the index read, \<open>w\<close> the length of \<open>filtered\<close>,
  which is where \<open>append\<close> writes. The result is the array and the final length.
\<close>

function compact_loop :: "('a \<Rightarrow> bool) \<Rightarrow> 'a list \<Rightarrow> nat \<Rightarrow> nat \<Rightarrow> 'a list \<times> nat" where
  "compact_loop keep arr i w =
     (if i < length arr then
        if keep (arr ! i) then compact_loop keep (arr[w := arr ! i]) (i + 1) (w + 1)
        else compact_loop keep arr (i + 1) w
      else (arr, w))"
  by pat_completeness auto
termination by (relation "measure (\<lambda>(keep, arr, i, w). length arr - i)") auto

declare compact_loop.simps [simp del]

definition compact_in_place :: "('a \<Rightarrow> bool) \<Rightarrow> 'a list \<Rightarrow> 'a list" where
  "compact_in_place keep xs = (case compact_loop keep xs 0 0 of (arr, w) \<Rightarrow> take w arr)"

lemma compact_loop_filter:
  assumes "w \<le> i"
  shows "(case compact_loop keep arr i w of (arr', w') \<Rightarrow> take w' arr')
    = take w arr @ filter keep (drop i arr)"
  using assms
proof (induction keep arr i w rule: compact_loop.induct)
  case (1 keep arr i w)
  show ?case
  proof (cases "i < length arr")
    case True
    then have "drop i arr = arr ! i # drop (i + 1) arr" by (simp add: Cons_nth_drop_Suc)
    moreover have "take (w + 1) (arr[w := arr ! i]) = take w arr @ [arr ! i]"
      using "1.prems" True by (simp add: take_Suc_conv_app_nth)
    moreover have "drop (i + 1) (arr[w := arr ! i]) = drop (i + 1) arr" using "1.prems" by simp
    ultimately show ?thesis
      using 1 True by (cases "keep (arr ! i)") (simp_all add: compact_loop.simps [of keep arr i w])
  qed (simp add: compact_loop.simps [of keep arr i w])
qed

text \<open>The write index never overtakes the read index, so no element is lost.\<close>

lemma compact_in_place_filter [simp]: "compact_in_place keep xs = filter keep xs"
  using compact_loop_filter [of 0 0 keep xs] by (simp add: compact_in_place_def)

text \<open>The contract of \<open>sort.Sort\<close>: a permutation in ascending order, with no promise about ties.\<close>

definition is_sort :: "('n \<Rightarrow> 'h :: linorder) \<Rightarrow> ('n list \<Rightarrow> 'n list) \<Rightarrow> bool" where
  "is_sort key srt \<longleftrightarrow> (\<forall>xs. mset (srt xs) = mset xs \<and> sorted (map key (srt xs)))"

lemma is_sort_sort_key: "is_sort key (sort_key key)"
  by (simp add: is_sort_def)

section \<open>The ring interface\<close>

text \<open>The virtual node responsible for a position: the first at or after it, or the first of the ring.\<close>

definition ring_owner :: "('n \<Rightarrow> 'h :: linorder) \<Rightarrow> 'n list \<Rightarrow> 'h \<Rightarrow> 'n" where
  "ring_owner hsh ns t = (case find (\<lambda>n. t \<le> hsh n) ns of Some n \<Rightarrow> n | None \<Rightarrow> hd ns)"

lemma ring_owner_in: "ns \<noteq> [] \<Longrightarrow> ring_owner hsh ns t \<in> set ns"
  by (auto simp: ring_owner_def find_Some_iff split: option.splits)

text \<open>On a sorted list the owner is the node with the least hash at or after the position, and the
  node with the least hash of all when there is none.\<close>

lemma ring_owner_least:
  assumes "ns \<noteq> []" and "sorted (map hsh ns)"
  shows "(if \<exists>y \<in> set ns. t \<le> hsh y
          then t \<le> hsh (ring_owner hsh ns t) \<and> (\<forall>y \<in> set ns. t \<le> hsh y \<longrightarrow> hsh (ring_owner hsh ns t) \<le> hsh y)
          else \<forall>y \<in> set ns. hsh (ring_owner hsh ns t) \<le> hsh y)"
proof (cases "find (\<lambda>n. t \<le> hsh n) ns")
  case None
  then have "\<not> (\<exists>y \<in> set ns. t \<le> hsh y)" by (auto simp: find_None_iff)
  moreover have "\<forall>y \<in> set ns. hsh (hd ns) \<le> hsh y" using assms by (cases ns) auto
  ultimately show ?thesis using None by (simp add: ring_owner_def)
next
  case (Some n)
  then obtain i where i: "i < length ns" "t \<le> hsh (ns ! i)" "n = ns ! i" "\<forall>j < i. \<not> t \<le> hsh (ns ! j)"
    by (auto simp: find_Some_iff)
  have "hsh n \<le> hsh y" if y: "y \<in> set ns" "t \<le> hsh y" for y
  proof -
    obtain j where j: "j < length ns" "y = ns ! j" using y(1) by (auto simp: in_set_conv_nth)
    then have "i \<le> j" using i(4) y(2) by (meson linorder_not_less)
    with sorted_nth_mono [OF assms(2), of i j] i(3) j show ?thesis by simp
  qed
  moreover have "n \<in> set ns" using i by simp
  ultimately show ?thesis using Some i(2,3) by (auto simp: ring_owner_def)
qed

lemma find_filter: "find P ns = Some n \<Longrightarrow> Q n \<Longrightarrow> find P (filter Q ns) = Some n"
  by (induction ns) (auto split: if_splits)

lemma find_filter_None: "find P ns = None \<Longrightarrow> find P (filter Q ns) = None"
  by (auto simp: find_None_iff)

lemma ring_owner_filter:
  assumes "ns \<noteq> []" and "Q (ring_owner hsh ns t)"
  shows "ring_owner hsh (filter Q ns) t = ring_owner hsh ns t"
proof (cases "find (\<lambda>n. t \<le> hsh n) ns")
  case None
  then have "Q (hd ns)" using assms(2) by (simp add: ring_owner_def)
  with assms(1) have "hd (filter Q ns) = hd ns" by (cases ns) simp_all
  with None show ?thesis by (simp add: ring_owner_def find_filter_None)
next
  case (Some n)
  with assms(2) show ?thesis by (simp add: ring_owner_def find_filter)
qed

locale hash_ring =
  fixes nodes :: "'r \<Rightarrow> 'n list"
    and name :: "'n \<Rightarrow> string"
    and hsh :: "'n \<Rightarrow> 'h :: linorder"
    and target :: "'k \<Rightarrow> 'h go"
    and added :: "'r \<Rightarrow> string \<Rightarrow> 'r \<Rightarrow> bool"
    and removed :: "'r \<Rightarrow> string \<Rightarrow> 'r"
    and lookup :: "'r \<Rightarrow> 'k \<Rightarrow> (string \<times> bool) go"
  assumes lookup_empty: "nodes r = [] \<Longrightarrow> lookup r k = Inr ([], False)"
    and lookup_owner: "nodes r \<noteq> [] \<Longrightarrow> sorted (map hsh (nodes r)) \<Longrightarrow> target k = Inr t \<Longrightarrow>
      lookup r k = Inr (name (ring_owner hsh (nodes r) t), True)"
    and nodes_removed: "nodes (removed r n) = filter (\<lambda>x. name x \<noteq> n) (nodes r)"
    and added_sorted: "added r n r' \<Longrightarrow> sorted (map hsh (nodes r'))"
    and nodes_added: "added r n r' \<Longrightarrow>
      \<exists>fresh. mset (nodes r') = mset (nodes r) + mset fresh \<and> (\<forall>x \<in> set fresh. name x = n)"
begin

lemma removed_sorted: "sorted (map hsh (nodes r)) \<Longrightarrow> sorted (map hsh (nodes (removed r n)))"
  by (simp add: nodes_removed sorted_filter)

lemma lookup_total:
  assumes "sorted (map hsh (nodes r))" and "target k = Inr t"
  shows "(nodes r = [] \<and> lookup r k = Inr ([], False))
    \<or> (\<exists>m. lookup r k = Inr (m, True) \<and> m \<in> name ` set (nodes r))"
proof (cases "nodes r = []")
  case False
  then show ?thesis using lookup_owner [OF False assms] ring_owner_in [OF False] by blast
qed (simp add: lookup_empty)

text \<open>Removing a node keeps the routing of every key that was not routed to it.\<close>

lemma lookup_removed:
  assumes "sorted (map hsh (nodes r))" and "target k = Inr t"
    and "lookup r k = Inr (m, True)" and "m \<noteq> n"
  shows "lookup (removed r n) k = Inr (m, True)"
proof -
  have ne: "nodes r \<noteq> []" using assms(3) lookup_empty by fastforce
  then have m: "m = name (ring_owner hsh (nodes r) t)" using assms(1-3) lookup_owner by simp
  then have "ring_owner hsh (filter (\<lambda>x. name x \<noteq> n) (nodes r)) t = ring_owner hsh (nodes r) t"
    using ne assms(4) by (intro ring_owner_filter) auto
  moreover have "filter (\<lambda>x. name x \<noteq> n) (nodes r) \<noteq> []"
    using ring_owner_in [OF ne, of hsh t] m assms(4) by (auto simp: filter_empty_conv)
  ultimately show ?thesis
    using lookup_owner [of "removed r n" k t] removed_sorted [OF assms(1)] assms(2) m
    by (simp add: nodes_removed)
qed

text \<open>Without hash ties, taking a new node out again restores the ring.\<close>

lemma removed_added:
  assumes "sorted (map hsh (nodes r))" and "n \<notin> name ` set (nodes r)" and "added r n r'"
    and "inj_on hsh (set (nodes r))"
  shows "nodes (removed r' n) = nodes r"
proof -
  obtain fresh where f: "mset (nodes r') = mset (nodes r) + mset fresh" "\<forall>x \<in> set fresh. name x = n"
    using nodes_added [OF assms(3)] by blast
  have "mset (filter (\<lambda>x. name x \<noteq> n) (nodes r'))
      = mset (filter (\<lambda>x. name x \<noteq> n) (nodes r)) + mset (filter (\<lambda>x. name x \<noteq> n) fresh)"
    by (simp add: f(1))
  moreover have "filter (\<lambda>x. name x \<noteq> n) (nodes r) = nodes r"
    using assms(2) by (auto simp: filter_id_conv)
  moreover have "filter (\<lambda>x. name x \<noteq> n) fresh = []"
    using f(2) by (auto simp: filter_empty_conv)
  ultimately have m: "mset (nodes (removed r' n)) = mset (nodes r)" by (simp add: nodes_removed)
  have s: "sorted (map hsh (nodes (removed r' n)))"
    by (rule removed_sorted [OF added_sorted [OF assms(3)]])
  have "sort_key hsh (nodes r) = nodes (removed r' n)"
    by (rule sort_key_inj_key_eq [OF m [symmetric] assms(4) s])
  moreover have "sort_key hsh (nodes r) = nodes r"
    by (rule sort_key_inj_key_eq [OF refl assms(4,1)])
  ultimately show ?thesis by simp
qed

text \<open>Adding a node moves keys to that node only.\<close>

lemma lookup_added:
  assumes "sorted (map hsh (nodes r))" and "n \<notin> name ` set (nodes r)" and "added r n r'"
    and "inj_on hsh (set (nodes r))" and "target k = Inr t" and "nodes r \<noteq> []"
  shows "lookup r' k = Inr (n, True) \<or> lookup r' k = lookup r k"
proof -
  have s': "sorted (map hsh (nodes r'))" by (rule added_sorted [OF assms(3)])
  have "nodes r' \<noteq> []" using nodes_added [OF assms(3)] assms(6) by auto
  then have l: "lookup r' k = Inr (name (ring_owner hsh (nodes r') t), True)"
    using s' assms(5) by (rule lookup_owner)
  show ?thesis
  proof (cases "name (ring_owner hsh (nodes r') t) = n")
    case False
    then have "lookup (removed r' n) k = lookup r' k"
      using lookup_removed [OF s' assms(5) l] l by simp
    moreover have "lookup (removed r' n) k = lookup r k"
      using removed_added [OF assms(1-4)] lookup_owner [of _ k t] assms by simp
    ultimately show ?thesis by simp
  qed (use l in simp)
qed

end

end
