(* ===== verification/Ring_Model.thy ===== *)
theory Ring_Model
  imports Ring_Iface Go_Strings
begin

text \<open>
  The package \<open>consistenthash\<close>: the ring for \<open>int64\<close> keys (\<open>int64_ketama.go\<close>) and the ring for
  string keys (\<open>string_ketama.go\<close>). Each public method holds the ring's lock for its whole body.
  The hash library is a parameter: \<open>werr\<close> is the error of \<open>Write\<close> (the interface allows one),
  \<open>sum64\<close> is \<open>Sum64\<close> and \<open>hsum\<close> the byte slice of \<open>Sum(nil)\<close> after writing a text to a fresh hasher.
  \<open>sort.Sort\<close> is a parameter \<open>srt\<close>, because it does not say where equal hashes end up.
\<close>

definition DefaultVirtualSpots :: int where "DefaultVirtualSpots = 160"

section \<open>The ring for integer keys\<close>

record int64RingNode =
  i_nodeName :: string
  i_key :: int
  i_hash :: "64 word"

record int64HashRing =
  i_virtualSpots :: int
  i_nodes :: "int64RingNode list"

definition NewInt64Ring :: "int \<Rightarrow> int64HashRing" where
  "NewInt64Ring virtualSpots =
     \<lparr>i_virtualSpots = (if virtualSpots \<le> 0 then DefaultVirtualSpots else virtualSpots), i_nodes = []\<rparr>"

definition convertToInt64 :: "64 word \<Rightarrow> int" where
  "convertToInt64 val = (if uint val > max_i64 then max_i64 else uint val)"

definition spot_key :: "string \<Rightarrow> nat \<Rightarrow> string" where
  "spot_key nodeName i = nodeName @ '':'' @ itoa (int i)"

text \<open>The virtual node the loop of \<open>AddNode\<close> appends at index \<open>i\<close>.\<close>

definition i_spot :: "(string \<Rightarrow> 64 word) \<Rightarrow> string \<Rightarrow> nat \<Rightarrow> int64RingNode" where
  "i_spot sum64 nodeName i =
     (let hash64 = sum64 (spot_key nodeName i)
      in \<lparr>i_nodeName = nodeName, i_key = convertToInt64 hash64, i_hash = hash64\<rparr>)"

text \<open>The result of \<open>AddNode\<close> is the ring it leaves and the error it returns.\<close>

definition i_AddNode ::
  "(int64RingNode list \<Rightarrow> int64RingNode list) \<Rightarrow> (string \<Rightarrow> 'e option) \<Rightarrow> (string \<Rightarrow> 64 word)
     \<Rightarrow> int64HashRing \<Rightarrow> string \<Rightarrow> int64HashRing \<times> 'e option" where
  "i_AddNode srt werr sum64 h nodeName =
     (case foldR (\<lambda>nodes i.
              case werr (spot_key nodeName i) of
                Some e \<Rightarrow> Inl e
              | None \<Rightarrow> Inr (nodes @ [i_spot sum64 nodeName i]))
            [] [0..<nat (i_virtualSpots h)] of
        Inl e \<Rightarrow> (h, Some e)
      | Inr nodes \<Rightarrow> (h\<lparr>i_nodes := srt (i_nodes h @ nodes)\<rparr>, None))"

definition i_RemoveNode :: "int64HashRing \<Rightarrow> string \<Rightarrow> int64HashRing" where
  "i_RemoveNode h nodeName =
     h\<lparr>i_nodes := compact_in_place (\<lambda>n. i_nodeName n \<noteq> nodeName) (i_nodes h)\<rparr>"

text \<open>The position of a key: the negative keys go to the upper half of the ring.\<close>

definition i_targetHash :: "int \<Rightarrow> 64 word" where
  "i_targetHash key =
     (if 0 \<le> key then word_of_int key
      else NOT 0 - word_of_int (wrap64 (- key)) + 1)"

definition i_GetNode :: "int64HashRing \<Rightarrow> int \<Rightarrow> (string \<times> bool) go" where
  "i_GetNode h key =
     (if i_nodes h = [] then Inr ([], False)
      else
        let targetHash = i_targetHash key;
            idx = sort_Search (length (i_nodes h)) (\<lambda>i. targetHash \<le> i_hash (i_nodes h ! i));
            idx = (if idx = length (i_nodes h) then 0 else idx)
        in bindR (slice_get (i_nodes h) (int idx)) (\<lambda>n. Inr (i_nodeName n, True)))"

definition i_Len :: "int64HashRing \<Rightarrow> nat" where
  "i_Len h = length (i_nodes h)"

section \<open>The ring for string keys\<close>

record ringNode =
  s_nodeName :: string
  s_key :: string
  s_hash :: "32 word"

record hashRing =
  s_virtualSpots :: int
  s_nodes :: "ringNode list"

definition NewRing :: "int \<Rightarrow> hashRing" where
  "NewRing virtualSpots =
     \<lparr>s_virtualSpots = (if virtualSpots \<le> 0 then DefaultVirtualSpots else virtualSpots), s_nodes = []\<rparr>"

text \<open>\<open>binary.BigEndian.Uint32(hashBytes[len(hashBytes)-4:])\<close>.\<close>

definition last_uint32 :: "8 word list \<Rightarrow> 32 word go" where
  "last_uint32 hashBytes =
     (let n = int (length hashBytes) in
      if n < 4 then Inl IndexOutOfRange
      else bindR (slice_get hashBytes (n - 4)) (\<lambda>b0. bindR (slice_get hashBytes (n - 3)) (\<lambda>b1.
           bindR (slice_get hashBytes (n - 2)) (\<lambda>b2. bindR (slice_get hashBytes (n - 1)) (\<lambda>b3.
           Inr (ucast b3 OR push_bit 8 (ucast b2) OR push_bit 16 (ucast b1) OR push_bit 24 (ucast b0)))))))"

definition s_AddNode ::
  "(ringNode list \<Rightarrow> ringNode list) \<Rightarrow> (string \<Rightarrow> 'e option) \<Rightarrow> (string \<Rightarrow> 8 word list)
     \<Rightarrow> hashRing \<Rightarrow> string \<Rightarrow> (hashRing \<times> 'e option) go" where
  "s_AddNode srt werr hsum h nodeName =
     (case foldR (\<lambda>nodes i.
              case werr (spot_key nodeName i) of
                Some e \<Rightarrow> Inl (Inr e)
              | None \<Rightarrow>
                  (case last_uint32 (hsum (spot_key nodeName i)) of
                     Inl p \<Rightarrow> Inl (Inl p)
                   | Inr u \<Rightarrow> Inr (nodes @ [\<lparr>s_nodeName = nodeName, s_key = spot_key nodeName i, s_hash = u\<rparr>])))
            [] [0..<nat (s_virtualSpots h)] of
        Inl (Inl p) \<Rightarrow> Inl p
      | Inl (Inr e) \<Rightarrow> Inr (h, Some e)
      | Inr nodes \<Rightarrow> Inr (h\<lparr>s_nodes := srt (s_nodes h @ nodes)\<rparr>, None))"

definition s_RemoveNode :: "hashRing \<Rightarrow> string \<Rightarrow> hashRing" where
  "s_RemoveNode h nodeName =
     h\<lparr>s_nodes := compact_in_place (\<lambda>n. s_nodeName n \<noteq> nodeName) (s_nodes h)\<rparr>"

definition s_GetNode :: "(string \<Rightarrow> 8 word list) \<Rightarrow> hashRing \<Rightarrow> string \<Rightarrow> (string \<times> bool) go" where
  "s_GetNode hsum h key =
     (if s_nodes h = [] then Inr ([], False)
      else bindR (last_uint32 (hsum key)) (\<lambda>targetHash.
        let idx = sort_Search (length (s_nodes h)) (\<lambda>i. targetHash \<le> s_hash (s_nodes h ! i));
            idx = (if idx = length (s_nodes h) then 0 else idx)
        in bindR (slice_get (s_nodes h) (int idx)) (\<lambda>n. Inr (s_nodeName n, True))))"

definition s_Len :: "hashRing \<Rightarrow> nat" where
  "s_Len h = length (s_nodes h)"

section \<open>The lookup is the owner of the position\<close>

lemma owner_search:
  assumes "ns \<noteq> []" and "sorted (map hsh ns)"
  shows "(let idx = sort_Search (length ns) (\<lambda>i. t \<le> hsh (ns ! i));
              idx = (if idx = length ns then 0 else idx)
          in bindR (slice_get ns (int idx)) k) = k (ring_owner hsh ns t)"
proof -
  let ?r = "sort_Search (length ns) (\<lambda>i. t \<le> hsh (ns ! i))"
  have mono: "\<forall>x y. x \<le> y \<and> y < length ns \<and> t \<le> hsh (ns ! x) \<longrightarrow> t \<le> hsh (ns ! y)"
  proof (intro allI impI)
    fix x y assume "x \<le> y \<and> y < length ns \<and> t \<le> hsh (ns ! x)"
    moreover from this have "hsh (ns ! x) \<le> hsh (ns ! y)"
      using sorted_nth_mono [OF assms(2), of x y] by simp
    ultimately show "t \<le> hsh (ns ! y)" by (meson order_trans)
  qed
  have "find (\<lambda>n. t \<le> hsh n) ns = (if ?r = length ns then None else Some (ns ! ?r))"
    using sort_Search_find [OF mono] by (simp only: Let_def)
  moreover have "?r \<le> length ns" by (rule sort_Search_spec(1) [OF mono])
  ultimately show ?thesis using assms(1)
    by (cases "?r = length ns") (simp_all add: Let_def ring_owner_def hd_conv_nth slice_get_def)
qed

lemma i_GetNode_owner:
  assumes "i_nodes h \<noteq> []" and "sorted (map i_hash (i_nodes h))"
  shows "i_GetNode h key
    = Inr (i_nodeName (ring_owner i_hash (i_nodes h) (i_targetHash key)), True)"
  unfolding i_GetNode_def using assms(1)
  by (simp only: if_False Let_def owner_search [OF assms, unfolded Let_def])

lemma s_GetNode_owner:
  assumes "s_nodes h \<noteq> []" and "sorted (map s_hash (s_nodes h))" and "last_uint32 (hsum key) = Inr t"
  shows "s_GetNode hsum h key = Inr (s_nodeName (ring_owner s_hash (s_nodes h) t), True)"
  unfolding s_GetNode_def using assms(1)
  by (simp only: if_False Let_def assms(3) bindR_simps owner_search [OF assms(1,2), unfolded Let_def])

section \<open>What adding a node does to the list\<close>

lemma i_AddNode_loop:
  assumes "foldR (\<lambda>nodes i. case werr (spot_key nodeName i) of Some e \<Rightarrow> Inl e
       | None \<Rightarrow> Inr (nodes @ [i_spot sum64 nodeName i])) acc is = Inr nodes"
  shows "nodes = acc @ map (i_spot sum64 nodeName) is"
  using assms
proof (induction "is" arbitrary: acc)
  case (Cons i "is")
  from Cons.prems have "foldR (\<lambda>nodes i. case werr (spot_key nodeName i) of Some e \<Rightarrow> Inl e
      | None \<Rightarrow> Inr (nodes @ [i_spot sum64 nodeName i])) (acc @ [i_spot sum64 nodeName i]) is = Inr nodes"
    by (auto simp: go_simps split: option.splits)
  from Cons.IH [OF this] show ?case by simp
qed simp

lemma i_AddNode_nodes:
  assumes "i_AddNode srt werr sum64 h n = (h', None)"
  shows "i_virtualSpots h' = i_virtualSpots h"
    and "i_nodes h' = srt (i_nodes h @ map (i_spot sum64 n) [0..<nat (i_virtualSpots h)])"
  using assms by (auto simp: i_AddNode_def dest!: i_AddNode_loop split: sum.splits)

lemma s_AddNode_loop:
  assumes "foldR (\<lambda>nodes i. case werr (spot_key nodeName i) of Some e \<Rightarrow> Inl (Inr e)
       | None \<Rightarrow> (case last_uint32 (hsum (spot_key nodeName i)) of Inl p \<Rightarrow> Inl (Inl p)
         | Inr u \<Rightarrow> Inr (nodes @ [\<lparr>s_nodeName = nodeName, s_key = spot_key nodeName i, s_hash = u\<rparr>])))
       acc is = Inr nodes"
  shows "\<exists>fresh. nodes = acc @ fresh \<and> length fresh = length is \<and> (\<forall>x \<in> set fresh. s_nodeName x = nodeName)"
  using assms
proof (induction "is" arbitrary: acc)
  case (Cons i "is")
  let ?n = "\<lambda>u. \<lparr>s_nodeName = nodeName, s_key = spot_key nodeName i, s_hash = u\<rparr>"
  from Cons.prems obtain u where "foldR (\<lambda>nodes i. case werr (spot_key nodeName i) of
        Some e \<Rightarrow> Inl (Inr e)
      | None \<Rightarrow> (case last_uint32 (hsum (spot_key nodeName i)) of Inl p \<Rightarrow> Inl (Inl p)
        | Inr u \<Rightarrow> Inr (nodes @ [\<lparr>s_nodeName = nodeName, s_key = spot_key nodeName i, s_hash = u\<rparr>])))
      (acc @ [?n u]) is = Inr nodes"
    by (auto simp: go_simps split: option.splits sum.splits)
  from Cons.IH [OF this] obtain fresh where "nodes = (acc @ [?n u]) @ fresh" "length fresh = length is"
      "\<forall>x \<in> set fresh. s_nodeName x = nodeName" by blast
  then show ?case by (intro exI [of _ "?n u # fresh"]) simp
qed simp

lemma s_AddNode_nodes:
  assumes "s_AddNode srt werr hsum h n = Inr (h', None)"
  shows "s_virtualSpots h' = s_virtualSpots h \<and> (\<exists>fresh. s_nodes h' = srt (s_nodes h @ fresh)
    \<and> length fresh = nat (s_virtualSpots h) \<and> (\<forall>x \<in> set fresh. s_nodeName x = n))"
  using assms by (auto simp: s_AddNode_def dest!: s_AddNode_loop split: sum.splits)

section \<open>Both rings are hash rings\<close>

definition i_added :: "int64HashRing \<Rightarrow> string \<Rightarrow> int64HashRing \<Rightarrow> bool" where
  "i_added h n h' \<longleftrightarrow> (\<exists>srt (werr :: string \<Rightarrow> unit option) sum64. is_sort i_hash srt
     \<and> i_AddNode srt werr sum64 h n = (h', None))"

definition s_added :: "(string \<Rightarrow> 8 word list) \<Rightarrow> hashRing \<Rightarrow> string \<Rightarrow> hashRing \<Rightarrow> bool" where
  "s_added hsum h n h' \<longleftrightarrow> (\<exists>srt (werr :: string \<Rightarrow> unit option). is_sort s_hash srt
     \<and> s_AddNode srt werr hsum h n = Inr (h', None))"

interpretation ir: hash_ring i_nodes i_nodeName i_hash "\<lambda>k. Inr (i_targetHash k)" i_added i_RemoveNode i_GetNode
proof
  show "i_GetNode h k = Inr ([], False)" if "i_nodes h = []" for h k
    using that by (simp add: i_GetNode_def)
  show "i_GetNode h k = Inr (i_nodeName (ring_owner i_hash (i_nodes h) t), True)"
    if "i_nodes h \<noteq> []" "sorted (map i_hash (i_nodes h))" "Inr (i_targetHash k) = Inr t" for h k t
    using i_GetNode_owner [OF that(1,2)] that(3) by simp
  show "i_nodes (i_RemoveNode h n) = filter (\<lambda>x. i_nodeName x \<noteq> n) (i_nodes h)" for h n
    by (simp add: i_RemoveNode_def)
  show "sorted (map i_hash (i_nodes h'))" if "i_added h n h'" for h n h'
    using that by (auto simp: i_added_def is_sort_def dest!: i_AddNode_nodes(2))
  show "\<exists>fresh. mset (i_nodes h') = mset (i_nodes h) + mset fresh \<and> (\<forall>x \<in> set fresh. i_nodeName x = n)"
    if added: "i_added h n h'" for h n h'
  proof -
    obtain srt and werr :: "string \<Rightarrow> unit option" and sum64 where "is_sort i_hash srt"
      and a: "i_AddNode srt werr sum64 h n = (h', None)" using added by (auto simp: i_added_def)
    then show ?thesis using i_AddNode_nodes(2) [OF a]
      by (intro exI [of _ "map (i_spot sum64 n) [0..<nat (i_virtualSpots h)]"])
        (auto simp: is_sort_def i_spot_def Let_def)
  qed
qed

interpretation sr: hash_ring s_nodes s_nodeName s_hash "\<lambda>k. last_uint32 (hsum k)" "s_added hsum"
    s_RemoveNode "s_GetNode hsum" for hsum
proof
  show "s_GetNode hsum h k = Inr ([], False)" if "s_nodes h = []" for h k
    using that by (simp add: s_GetNode_def)
  show "s_GetNode hsum h k = Inr (s_nodeName (ring_owner s_hash (s_nodes h) t), True)"
    if "s_nodes h \<noteq> []" "sorted (map s_hash (s_nodes h))" "last_uint32 (hsum k) = Inr t" for h k t
    by (rule s_GetNode_owner) (use that in simp_all)
  show "s_nodes (s_RemoveNode h n) = filter (\<lambda>x. s_nodeName x \<noteq> n) (s_nodes h)" for h n
    by (simp add: s_RemoveNode_def)
  show "sorted (map s_hash (s_nodes h'))" if "s_added hsum h n h'" for h n h'
    using that by (auto simp: s_added_def is_sort_def dest!: s_AddNode_nodes)
  show "\<exists>fresh. mset (s_nodes h') = mset (s_nodes h) + mset fresh \<and> (\<forall>x \<in> set fresh. s_nodeName x = n)"
    if added: "s_added hsum h n h'" for h n h'
    using added by (auto simp: s_added_def is_sort_def dest!: s_AddNode_nodes)
qed

section \<open>Runs of a ring\<close>

datatype ring_op = AddOp string | RemoveOp string

fun i_run :: "(int64RingNode list \<Rightarrow> int64RingNode list) \<Rightarrow> (string \<Rightarrow> 'e option) \<Rightarrow> (string \<Rightarrow> 64 word)
    \<Rightarrow> int64HashRing \<Rightarrow> ring_op list \<Rightarrow> int64HashRing" where
  "i_run srt werr sum64 h [] = h"
| "i_run srt werr sum64 h (AddOp n # ops) = i_run srt werr sum64 (fst (i_AddNode srt werr sum64 h n)) ops"
| "i_run srt werr sum64 h (RemoveOp n # ops) = i_run srt werr sum64 (i_RemoveNode h n) ops"

text \<open>How often a name was added since it was last removed.\<close>

fun times_added :: "string \<Rightarrow> nat \<Rightarrow> ring_op list \<Rightarrow> nat" where
  "times_added n k [] = k"
| "times_added n k (AddOp m # ops) = times_added n (if m = n then k + 1 else k) ops"
| "times_added n k (RemoveOp m # ops) = times_added n (if m = n then 0 else k) ops"

definition spots_of :: "int64HashRing \<Rightarrow> string \<Rightarrow> nat" where
  "spots_of h n = length (filter (\<lambda>x. i_nodeName x = n) (i_nodes h))"

lemma i_AddNode_cases:
  "(\<exists>e. i_AddNode srt werr sum64 h n = (h, Some e)) \<or> (\<exists>h'. i_AddNode srt werr sum64 h n = (h', None))"
  by (auto simp: i_AddNode_def split: sum.splits)

lemma i_AddNode_no_error:
  assumes "\<forall>s. werr s = None"
  shows "snd (i_AddNode srt werr sum64 h n) = None"
proof -
  have "\<exists>t. foldR (\<lambda>nodes i. case werr (spot_key n i) of Some e \<Rightarrow> Inl e
      | None \<Rightarrow> Inr (nodes @ [i_spot sum64 n i])) [] [0..<nat (i_virtualSpots h)] = Inr t \<and> True"
    by (rule foldR_total) (simp_all add: assms)
  then show ?thesis by (auto simp: i_AddNode_def)
qed

lemma spots_of_added:
  assumes "is_sort i_hash srt" and "i_AddNode srt werr sum64 h m = (h', None)"
  shows "spots_of h' n = spots_of h n + (if m = n then nat (i_virtualSpots h) else 0)"
proof -
  define fresh where "fresh = map (i_spot sum64 m) [0..<nat (i_virtualSpots h)]"
  have "mset (filter (\<lambda>x. i_nodeName x = n) (i_nodes h'))
      = mset (filter (\<lambda>x. i_nodeName x = n) (i_nodes h @ fresh))"
    using assms(1) by (simp add: i_AddNode_nodes(2) [OF assms(2)] is_sort_def fresh_def)
  then have "spots_of h' n = length (filter (\<lambda>x. i_nodeName x = n) (i_nodes h @ fresh))"
    unfolding spots_of_def by (rule mset_eq_length)
  moreover have "filter (\<lambda>x. i_nodeName x = n) fresh = (if m = n then fresh else [])"
    by (auto simp: fresh_def i_spot_def Let_def filter_id_conv filter_empty_conv)
  moreover have "length fresh = nat (i_virtualSpots h)" by (simp add: fresh_def)
  ultimately show ?thesis by (simp add: spots_of_def)
qed

lemma spots_of_removed: "spots_of (i_RemoveNode h m) n = (if m = n then 0 else spots_of h n)"
  by (auto simp: spots_of_def i_RemoveNode_def filter_empty_conv intro!: arg_cong [of _ _ length] filter_cong)

lemma ring_run_invariant:
  assumes "is_sort i_hash srt" and "\<forall>s. werr s = None"
    and "sorted (map i_hash (i_nodes h))" and "spots_of h n = k * nat (i_virtualSpots h)"
  shows "sorted (map i_hash (i_nodes (i_run srt werr sum64 h ops)))
    \<and> spots_of (i_run srt werr sum64 h ops) n = times_added n k ops * nat (i_virtualSpots h)"
  using assms(3,4)
proof (induction ops arbitrary: h k)
  case (Cons op ops)
  show ?case
  proof (cases op)
    case (AddOp m)
    obtain h' where h': "i_AddNode srt werr sum64 h m = (h', None)"
      using i_AddNode_no_error [OF assms(2), of srt sum64 h m] by (cases "i_AddNode srt werr sum64 h m") auto
    have "sorted (map i_hash (i_nodes h'))"
      using assms(1) by (simp add: i_AddNode_nodes(2) [OF h'] is_sort_def)
    with Cons.IH [of h' "if m = n then k + 1 else k"] Cons.prems(2) show ?thesis
      by (simp add: AddOp h' spots_of_added [OF assms(1) h'] i_AddNode_nodes(1) [OF h'])
  next
    case (RemoveOp m)
    have "i_virtualSpots (i_RemoveNode h m) = i_virtualSpots h" by (simp add: i_RemoveNode_def)
    with Cons.IH [of "i_RemoveNode h m" "if m = n then 0 else k"] Cons.prems ir.removed_sorted [of h m]
    show ?thesis by (simp add: RemoveOp spots_of_removed)
  qed
qed simp

section \<open>Properties of the package\<close>

text \<open>The ring of the witnesses: three spots on two nodes.\<close>

abbreviation three_spots :: int64HashRing where
  "three_spots \<equiv> \<lparr>i_virtualSpots = 2, i_nodes =
     [\<lparr>i_nodeName = ''a'', i_key = 10, i_hash = 10\<rparr>, \<lparr>i_nodeName = ''b'', i_key = 20, i_hash = 20\<rparr>,
      \<lparr>i_nodeName = ''a'', i_key = 30, i_hash = 30\<rparr>]\<rparr>"

abbreviation three_texts :: hashRing where
  "three_texts \<equiv> \<lparr>s_virtualSpots = 2, s_nodes =
     [\<lparr>s_nodeName = ''a'', s_key = ''a:0'', s_hash = 10\<rparr>, \<lparr>s_nodeName = ''b'', s_key = ''b:0'', s_hash = 20\<rparr>,
      \<lparr>s_nodeName = ''a'', s_key = ''a:1'', s_hash = 30\<rparr>]\<rparr>"

text \<open>C15: Routing of the integer ring. On a sorted, non-empty ring \<open>GetNode\<close> never panics and returns
  the name of a virtual node whose hash is the least one at or after the position of the key, or,
  when the position lies behind every node, the least one of the ring.\<close>

theorem i_GetNode_routes_to_successor:
  assumes "i_nodes h \<noteq> []" and "sorted (map i_hash (i_nodes h))"
  shows "\<exists>x \<in> set (i_nodes h). i_GetNode h key = Inr (i_nodeName x, True)
    \<and> (if \<exists>y \<in> set (i_nodes h). i_targetHash key \<le> i_hash y
       then i_targetHash key \<le> i_hash x
         \<and> (\<forall>y \<in> set (i_nodes h). i_targetHash key \<le> i_hash y \<longrightarrow> i_hash x \<le> i_hash y)
       else \<forall>y \<in> set (i_nodes h). i_hash x \<le> i_hash y)"
  using i_GetNode_owner [OF assms] ring_owner_in [OF assms(1)] ring_owner_least [OF assms] by blast

theorem i_GetNode_routes_to_successor_witness:
  "\<exists>x \<in> set (i_nodes three_spots). i_GetNode three_spots 15 = Inr (i_nodeName x, True) \<and> 15 \<le> i_hash x"
  using i_GetNode_routes_to_successor [of three_spots 15] by (auto simp: i_targetHash_def)

text \<open>The position of a key. The branch for negative keys, with its subtraction from the largest
  \<open>uint64\<close>, is the two's complement reinterpretation of the key, for the least \<open>int64\<close> too, whose
  negation overflows; so distinct keys have distinct positions and the negative ones lie above
  every non-negative one.\<close>

theorem i_targetHash_twos_complement:
  assumes "is_i64 key"
  shows "i_targetHash key = word_of_int key
    \<and> uint (i_targetHash key) = (if key < 0 then 2 ^ 64 + key else key)"
proof -
  have "i_targetHash key = word_of_int key"
  proof (cases "0 \<le> key")
    case False
    have "word_of_int (wrap64 (- key)) = (word_of_int (- key) :: 64 word)"
    proof -
      have "take_bit 64 (signed_take_bit 63 (- key)) = take_bit 64 (- key)"
        by (simp add: take_bit_signed_take_bit)
      then show ?thesis by (simp only: wrap64_def word_of_int_eq_iff) simp
    qed
    then show ?thesis using False by (simp add: i_targetHash_def)
  qed (simp add: i_targetHash_def)
  moreover have "uint (word_of_int key :: 64 word) = (if key < 0 then 2 ^ 64 + key else key)"
  proof (cases "key < 0")
    case True
    have "key mod 2 ^ 64 = (key + 2 ^ 64) mod 2 ^ 64" by (rule mod_add_self2 [symmetric])
    also have "\<dots> = key + 2 ^ 64" using True assms by (intro mod_pos_pos_trivial) (simp_all add: is_i64_def)
    finally show ?thesis using True by (simp add: uint_word_of_int)
  qed (use assms in \<open>simp add: uint_word_of_int is_i64_def\<close>)
  ultimately show ?thesis by simp
qed

theorem i_targetHash_twos_complement_witness:
  "uint (i_targetHash (- (2 ^ 63))) = 2 ^ 63 \<and> uint (i_targetHash (- 1)) = 2 ^ 64 - 1"
  using i_targetHash_twos_complement [of "- (2 ^ 63)"] i_targetHash_twos_complement [of "- 1"]
  by (auto simp: is_i64_def simp del: word_of_int_minus)

text \<open>C18: Removing a node disturbs no other: in both rings every key that was routed to another node
  is routed to that node after the removal, the removed name is gone from the ring, and the ring
  stays sorted, although the removal compacts the slice in its own backing array.\<close>

theorem remove_disturbs_only_own_keys:
  "sorted (map i_hash (i_nodes h)) \<Longrightarrow> i_GetNode h key = Inr (m, True) \<Longrightarrow> m \<noteq> n \<Longrightarrow>
     sorted (map s_hash (s_nodes g)) \<Longrightarrow> last_uint32 (hsum tkey) = Inr t \<Longrightarrow>
     s_GetNode hsum g tkey = Inr (m', True) \<Longrightarrow> m' \<noteq> n \<Longrightarrow>
   i_GetNode (i_RemoveNode h n) key = Inr (m, True)
   \<and> s_GetNode hsum (s_RemoveNode g n) tkey = Inr (m', True)
   \<and> sorted (map i_hash (i_nodes (i_RemoveNode h n))) \<and> sorted (map s_hash (s_nodes (s_RemoveNode g n)))
   \<and> n \<notin> i_nodeName ` set (i_nodes (i_RemoveNode h n)) \<and> n \<notin> s_nodeName ` set (s_nodes (s_RemoveNode g n))"
  using ir.lookup_removed [of h key "i_targetHash key" m n] sr.lookup_removed [of g hsum tkey t m' n]
    ir.removed_sorted [of h n] sr.removed_sorted [of g n]
  by (auto simp: ir.nodes_removed sr.nodes_removed)

theorem remove_disturbs_only_own_keys_witness:
  "i_GetNode (i_RemoveNode three_spots ''b'') 25 = Inr (''a'', True)
   \<and> s_GetNode (\<lambda>_. [0, 0, 0, 25]) (s_RemoveNode three_texts ''b'') ''k'' = Inr (''a'', True)"
proof -
  have i: "i_GetNode three_spots 25 = Inr (''a'', True)" by code_simp
  have t: "last_uint32 [0, 0, 0, 25] = Inr 25" by code_simp
  have s: "s_GetNode (\<lambda>_. [0, 0, 0, 25]) three_texts ''k'' = Inr (''a'', True)" by code_simp
  from remove_disturbs_only_own_keys [OF _ i _ _ t s] show ?thesis by simp
qed

text \<open>C17: Adding a node moves keys to that node only. For any correct sort, when the hashes in the
  ring are distinct and the name is new, every key is routed after \<open>AddNode\<close> either to the new node
  or where it was routed before, and removing the node again restores the list of virtual nodes.\<close>

theorem add_moves_keys_to_new_node_only:
  assumes "is_sort i_hash srt" and "i_AddNode srt (\<lambda>_. None :: unit option) sum64 h n = (h', None)"
    and "i_nodes h \<noteq> []" and "sorted (map i_hash (i_nodes h))" and "distinct (map i_hash (i_nodes h))"
    and "n \<notin> i_nodeName ` set (i_nodes h)"
  shows "(i_GetNode h' key = Inr (n, True) \<or> i_GetNode h' key = i_GetNode h key)
    \<and> i_nodes (i_RemoveNode h' n) = i_nodes h"
proof -
  have a: "i_added h n h'" using assms(1,2) by (auto simp: i_added_def)
  have inj: "inj_on i_hash (set (i_nodes h))" using assms(5) by (simp add: distinct_map)
  show ?thesis
    using ir.lookup_added [OF assms(4,6) a inj refl assms(3)] ir.removed_added [OF assms(4,6) a inj] by blast
qed

theorem add_moves_keys_to_new_node_only_witness:
  "i_nodes (i_RemoveNode (fst (i_AddNode (sort_key i_hash) (\<lambda>_. None :: unit option) (\<lambda>s. of_nat (length s))
     three_spots ''c'')) ''c'') = i_nodes three_spots"
proof -
  let ?h = "fst (i_AddNode (sort_key i_hash) (\<lambda>_. None :: unit option) (\<lambda>s. of_nat (length s)) three_spots ''c'')"
  have "i_AddNode (sort_key i_hash) (\<lambda>_. None :: unit option) (\<lambda>s. of_nat (length s)) three_spots ''c'' = (?h, None)"
    using i_AddNode_no_error [of "\<lambda>_. None :: unit option"] by (simp add: prod_eq_iff)
  from add_moves_keys_to_new_node_only [OF is_sort_sort_key this, of 0] show ?thesis by simp
qed

text \<open>C16: Every ring reachable from \<open>NewInt64Ring\<close> by adding and removing nodes (with a hasher that
  does not fail and any correct sort) is sorted, and every name owns exactly as many virtual nodes as
  the configured number of spots times the number of its additions since its last removal: a name
  added twice weighs twice, and one removal takes all of it out.\<close>

theorem reachable_ring_sorted_and_weighted:
  assumes "is_sort i_hash srt" and "\<forall>s. werr s = None"
  shows "sorted (map i_hash (i_nodes (i_run srt werr sum64 (NewInt64Ring v) ops)))
    \<and> spots_of (i_run srt werr sum64 (NewInt64Ring v) ops) n
      = times_added n 0 ops * nat (if v \<le> 0 then DefaultVirtualSpots else v)"
  using ring_run_invariant [OF assms, of "NewInt64Ring v" n 0] by (simp add: NewInt64Ring_def spots_of_def)

theorem reachable_ring_sorted_and_weighted_witness:
  "spots_of (i_run (sort_key i_hash) (\<lambda>_. None :: unit option) (\<lambda>s. of_nat (length s)) (NewInt64Ring 3)
     [AddOp ''a'', AddOp ''b'', AddOp ''a'', RemoveOp ''b'']) ''a'' = 6"
  using reachable_ring_sorted_and_weighted [OF is_sort_sort_key, of "\<lambda>_. None :: unit option"]
  by (simp del: i_run.simps)

text \<open>The ring for string keys with a hasher of at least four bytes, such as the 64-bit one of the pool.\<close>

lemma last_uint32_total: "4 \<le> length bs \<Longrightarrow> \<exists>u. last_uint32 bs = Inr u"
  by (cases bs) (auto simp: last_uint32_def slice_get_def Let_def)

lemma s_AddNode_total:
  assumes "\<And>x. 4 \<le> length (hsum x)"
  shows "\<exists>h'. s_AddNode srt (\<lambda>_. None :: unit option) hsum h n = Inr (h', None)"
proof -
  have "\<exists>nodes. foldR (\<lambda>nodes i. case (None :: unit option) of Some e \<Rightarrow> Inl (Inr e)
       | None \<Rightarrow> (case last_uint32 (hsum (spot_key n i)) of Inl p \<Rightarrow> Inl (Inl p)
         | Inr u \<Rightarrow> Inr (nodes @ [\<lparr>s_nodeName = n, s_key = spot_key n i, s_hash = u\<rparr>]))) acc is = Inr nodes" for acc "is"
  proof (induction "is" arbitrary: acc)
    case (Cons i "is")
    obtain u where "last_uint32 (hsum (spot_key n i)) = Inr u" using last_uint32_total [OF assms] by blast
    with Cons show ?case by (simp add: go_simps)
  qed simp
  from this [of "[]" "[0..<nat (s_virtualSpots h)]"] show ?thesis by (auto simp: s_AddNode_def)
qed

text \<open>The string ring: with a hasher of at least four bytes \<open>AddNode\<close> never panics, adds the number of
  virtual nodes that is configured and keeps the ring sorted; when the hashes in the ring are
  distinct and the name is new, every string key is routed afterwards to the new node or where it
  was routed before, and removing the node again restores the list of virtual nodes.
\<close>

theorem string_ring_add_moves_keys_to_new_node_only:
  assumes "is_sort s_hash srt" and "\<And>x. 4 \<le> length (hsum x)"
    and "s_nodes h \<noteq> []" and "sorted (map s_hash (s_nodes h))" and "distinct (map s_hash (s_nodes h))"
    and "n \<notin> s_nodeName ` set (s_nodes h)"
  shows "\<exists>h'. s_AddNode srt (\<lambda>_. None :: unit option) hsum h n = Inr (h', None)
    \<and> length (s_nodes h') = length (s_nodes h) + nat (s_virtualSpots h) \<and> sorted (map s_hash (s_nodes h'))
    \<and> (\<forall>key. s_GetNode hsum h' key = Inr (n, True) \<or> s_GetNode hsum h' key = s_GetNode hsum h key)
    \<and> s_nodes (s_RemoveNode h' n) = s_nodes h"
proof -
  obtain h' where h': "s_AddNode srt (\<lambda>_. None :: unit option) hsum h n = Inr (h', None)"
    using s_AddNode_total [of hsum, OF assms(2)] by blast
  have a: "s_added hsum h n h'" using assms(1) h' by (auto simp: s_added_def)
  have inj: "inj_on s_hash (set (s_nodes h))" using assms(5) by (simp add: distinct_map)
  obtain fresh where f: "s_nodes h' = srt (s_nodes h @ fresh)" "length fresh = nat (s_virtualSpots h)"
    using s_AddNode_nodes [OF h'] by blast
  have "mset (s_nodes h') = mset (s_nodes h @ fresh)" using assms(1) f(1) by (simp add: is_sort_def)
  then have "length (s_nodes h') = length (s_nodes h) + nat (s_virtualSpots h)"
    using f(2) by (metis length_append size_mset)
  moreover have "s_GetNode hsum h' key = Inr (n, True) \<or> s_GetNode hsum h' key = s_GetNode hsum h key" for key
  proof -
    obtain t where "last_uint32 (hsum key) = Inr t" using last_uint32_total [OF assms(2)] by blast
    from sr.lookup_added [OF assms(4,6) a inj this assms(3)] show ?thesis .
  qed
  ultimately show ?thesis using h' sr.added_sorted [OF a] sr.removed_added [OF assms(4,6) a inj] by blast
qed

theorem string_ring_add_moves_keys_to_new_node_only_witness:
  "\<exists>h'. s_AddNode (sort_key s_hash) (\<lambda>_. None :: unit option) (\<lambda>s. [0, 0, 0, of_nat (length s)]) three_texts ''cc''
     = Inr (h', None) \<and> length (s_nodes h') = 5 \<and> s_nodes (s_RemoveNode h' ''cc'') = s_nodes three_texts"
proof -
  let ?sum = "\<lambda>s :: string. [0, 0, 0, of_nat (length s) :: 8 word]"
  have l: "4 \<le> length (?sum s)" for s by simp
  obtain h' where "s_AddNode (sort_key s_hash) (\<lambda>_. None :: unit option) ?sum three_texts ''cc'' = Inr (h', None)"
    "length (s_nodes h') = length (s_nodes three_texts) + nat (s_virtualSpots three_texts)"
    "s_nodes (s_RemoveNode h' ''cc'') = s_nodes three_texts"
    using string_ring_add_moves_keys_to_new_node_only [OF is_sort_sort_key, of ?sum three_texts "''cc''", OF l] by auto
  then show ?thesis by (intro exI [of _ h']) simp
qed

end
