(* ===== verification/Transition_Iface.thy ===== *)
theory Transition_Iface
  imports Main
begin

text \<open>
  The interface of the concurrent components: a set of initial states and a step relation whose
  runs interleave the atomic actions of the goroutines. An invariant that the initial states
  satisfy and every step keeps holds in every state of every run.
\<close>

locale guarded_system =
  fixes init :: "'s \<Rightarrow> bool"
    and step :: "'s \<Rightarrow> 's \<Rightarrow> bool"
    and inv :: "'s \<Rightarrow> bool"
  assumes inv_init: "init s \<Longrightarrow> inv s"
    and inv_step: "step s t \<Longrightarrow> inv s \<Longrightarrow> inv t"
begin

lemma inv_run: "step\<^sup>*\<^sup>* s t \<Longrightarrow> inv s \<Longrightarrow> inv t"
  by (induction rule: rtranclp_induct) (auto intro: inv_step)

lemma inv_reachable: "init s \<Longrightarrow> step\<^sup>*\<^sup>* s t \<Longrightarrow> inv t"
  using inv_run inv_init by blast

end

text \<open>A system with a rank that no step lowers: a phase once reached is never left backwards.\<close>

locale ranked_system = guarded_system +
  fixes rank :: "'s \<Rightarrow> 'r :: preorder"
  assumes rank_step: "step s t \<Longrightarrow> inv s \<Longrightarrow> rank s \<le> rank t"
begin

lemma rank_run: "step\<^sup>*\<^sup>* s t \<Longrightarrow> inv s \<Longrightarrow> rank s \<le> rank t"
proof (induction rule: rtranclp_induct)
  case (step t u)
  then have "inv t" using inv_run by blast
  with step show ?case using rank_step order_trans by blast
qed simp

end

text \<open>
  A system that simulates an abstract one: a state matches an abstract state, and a step is matched
  by any number of abstract steps, none of them for a step that the abstraction does not show.
\<close>

locale simulation = guarded_system init step inv
  for init :: "'s \<Rightarrow> bool" and step :: "'s \<Rightarrow> 's \<Rightarrow> bool" and inv :: "'s \<Rightarrow> bool" +
  fixes ainit :: "'a \<Rightarrow> bool"
    and astep :: "'a \<Rightarrow> 'a \<Rightarrow> bool"
    and matches :: "'s \<Rightarrow> 'a \<Rightarrow> bool"
  assumes match_init: "init s \<Longrightarrow> \<exists>a. ainit a \<and> matches s a"
    and match_step: "step s t \<Longrightarrow> inv s \<Longrightarrow> matches s a \<Longrightarrow> \<exists>b. astep\<^sup>*\<^sup>* a b \<and> matches t b"
begin

lemma match_run:
  assumes "step\<^sup>*\<^sup>* s t" and "inv s" and "matches s a"
  shows "\<exists>b. astep\<^sup>*\<^sup>* a b \<and> matches t b"
  using assms(1)
proof (induction rule: rtranclp_induct)
  case base
  show ?case using assms(3) by blast
next
  case (step t u)
  then obtain b where b: "astep\<^sup>*\<^sup>* a b" "matches t b" by blast
  have "inv t" using inv_run step.hyps(1) assms(2) by blast
  with match_step [OF step.hyps(2) _ b(2)] b(1) show ?case by (meson rtranclp_trans)
qed

lemma simulated: "init s \<Longrightarrow> step\<^sup>*\<^sup>* s t \<Longrightarrow> \<exists>a b. ainit a \<and> astep\<^sup>*\<^sup>* a b \<and> matches t b"
  using match_init match_run inv_init by meson

text \<open>An invariant of the abstract system holds of what a reachable state matches.\<close>

lemma transfer:
  assumes "\<And>a. ainit a \<Longrightarrow> P a" and "\<And>a b. astep a b \<Longrightarrow> P a \<Longrightarrow> P b"
    and "init s" and "step\<^sup>*\<^sup>* s t"
  shows "\<exists>b. matches t b \<and> P b"
proof -
  obtain a b where ab: "ainit a" "astep\<^sup>*\<^sup>* a b" "matches t b" using simulated [OF assms(3,4)] by blast
  from ab(2) have "P b" by (induction rule: rtranclp_induct) (use assms(1,2) ab(1) in blast)+
  with ab(3) show ?thesis by blast
qed

end

end
