(* ===== verification/Stopper_Model.thy ===== *)
theory Stopper_Model
  imports Transition_Iface
begin

text \<open>
  The stopper of \<open>xsync/stopper.go\<close>. Any number of goroutines, numbered by \<open>nat\<close>, may call
  \<open>TurnOff\<close> (or \<open>Stop\<close>, which calls it with a function that returns \<open>nil\<close>) on one stopper; a step is
  one atomic action of one of them, in any order.
\<close>

section \<open>State\<close>

abbreviation (input) stateIdle :: nat where "stateIdle \<equiv> 0"
abbreviation (input) stateTriggered :: nat where "stateTriggered \<equiv> 1"
abbreviation (input) stateStopping :: nat where "stateStopping \<equiv> 2"
abbreviation (input) stateStopped :: nat where "stateStopped \<equiv> 3"

text \<open>
  The value of \<open>err\<close>: the errors joined in it, the empty list for \<open>nil\<close>. The function given to
  \<open>TurnOff\<close> returns nil, returns an error, or panics.
\<close>

datatype goerr = FErr nat | TurnOffTimeout

datatype fout = FRet "nat option" | FPanic

text \<open>
  Where a caller of \<open>TurnOff\<close> is. The flag of the deferred actions says that the caller is
  unwinding from a panic of the function, which then leaves \<open>TurnOff\<close> (\<open>Unwound\<close>).
\<close>

datatype pc =
    NotCalled
  | CasTrigger
  | CloseTrigger
  | LockMu
  | LoadState
  | CasStopping nat
  | UnlockMu bool
  | CallF
  | InF
  | SpawnF
  | SelectDone
  | CasStopped bool
  | CloseStopped bool
  | Returned "goerr list"
  | Unwound
  | Crashed

text \<open>
  The fields \<open>runs\<close> (how often the function of a caller was started) and \<open>outs\<close> (how it
  ended) record what happened and are not read by any step.
  The goroutine that runs the function under a timeout. \<open>err = errors.Join(err, sterr)\<close> is a read and a
  write of the result variable of \<open>TurnOff\<close>: \<open>GRead\<close> is before the read, \<open>GWrite\<close> before the write of
  the joined value; \<open>GDone\<close> is after \<open>close(done)\<close>.
\<close>

datatype gpc = GNone | GReady | GRun | GRead goerr | GWrite "goerr list" | GCloseDone | GDone

record stopper =
  state :: nat
  trigger_closed :: bool
  stopped_closed :: bool
  mu :: "nat option"
  pcs :: "nat \<Rightarrow> pc"
  gpcs :: "nat \<Rightarrow> gpc"
  errs :: "nat \<Rightarrow> goerr list"
  runs :: "nat \<Rightarrow> nat"
  outs :: "nat \<Rightarrow> fout option"

definition NewStopper :: stopper where
  "NewStopper = \<lparr>state = stateIdle, trigger_closed = False, stopped_closed = False, mu = None,
     pcs = \<lambda>_. NotCalled, gpcs = \<lambda>_. GNone, errs = \<lambda>_. [], runs = \<lambda>_. 0,
     outs = \<lambda>_. None\<rparr>"

definition OnStopping :: "stopper \<Rightarrow> bool" where
  "OnStopping s \<longleftrightarrow> stateStopping \<le> state s"

definition goto :: "stopper \<Rightarrow> nat \<Rightarrow> pc \<Rightarrow> stopper" where
  "goto s t p = s\<lparr>pcs := (pcs s)(t := p)\<rparr>"

definition leave :: "stopper \<Rightarrow> nat \<Rightarrow> bool \<Rightarrow> pc" where
  "leave s t panicking = (if panicking then Unwound else Returned (errs s t))"

text \<open>
  The outcome of \<open>f\<close> as a value of \<open>err\<close>, for \<open>return f()\<close>; and where the goroutine goes on after \<open>f\<close>: to the
  join when \<open>f\<close> returned an error, to the deferred \<open>close(done)\<close> when it returned \<open>nil\<close> or panicked.
\<close>

fun ferrs :: "fout \<Rightarrow> goerr list" where
  "ferrs (FRet None) = []"
| "ferrs (FRet (Some e)) = [FErr e]"
| "ferrs FPanic = []"

fun g_next :: "fout \<Rightarrow> gpc" where
  "g_next (FRet (Some e)) = GRead (FErr e)"
| "g_next _ = GCloseDone"

section \<open>Steps\<close>

text \<open>
  \<open>end_f\<close> and \<open>g_end\<close> are the end of the function, which may come at any time or never. \<open>return\<close>
  assigns \<open>err\<close> (\<open>end_f\<close>, \<open>select_timeout\<close>), the deferred \<open>toStoppedState\<close> follows, and the value of \<open>err\<close>
  is read when \<open>TurnOff\<close> leaves.
\<close>

inductive turnoff_step :: "bool \<Rightarrow> stopper \<Rightarrow> stopper \<Rightarrow> bool" for timed where
  call: "pcs s t = NotCalled \<Longrightarrow> turnoff_step timed s (goto s t CasTrigger)"
| cas_trigger: "pcs s t = CasTrigger \<Longrightarrow> state s = stateIdle \<Longrightarrow>
    turnoff_step timed s (goto (s\<lparr>state := stateTriggered\<rparr>) t CloseTrigger)"
| cas_trigger_fails: "pcs s t = CasTrigger \<Longrightarrow> state s \<noteq> stateIdle \<Longrightarrow>
    turnoff_step timed s (goto s t LockMu)"
| close_trigger: "pcs s t = CloseTrigger \<Longrightarrow>
    turnoff_step timed s (if trigger_closed s then goto s t Crashed
                          else goto (s\<lparr>trigger_closed := True\<rparr>) t LockMu)"
| lock: "pcs s t = LockMu \<Longrightarrow> mu s = None \<Longrightarrow>
    turnoff_step timed s (goto (s\<lparr>mu := Some t\<rparr>) t LoadState)"
| load: "pcs s t = LoadState \<Longrightarrow>
    turnoff_step timed s (goto s t (if stateStopping \<le> state s then UnlockMu False
                                    else CasStopping (state s)))"
| cas_stopping: "pcs s t = CasStopping cur \<Longrightarrow>
    turnoff_step timed s (if state s = cur then goto (s\<lparr>state := stateStopping\<rparr>) t (UnlockMu True)
                          else goto s t (UnlockMu False))"
| unlock: "pcs s t = UnlockMu won \<Longrightarrow>
    turnoff_step timed s (goto (s\<lparr>mu := None\<rparr>) t
      (if \<not> won then Returned [] else if timed then SpawnF else CallF))"
| start_f: "pcs s t = CallF \<Longrightarrow>
    turnoff_step timed s (goto (s\<lparr>runs := (runs s)(t := runs s t + 1)\<rparr>) t InF)"
| end_f: "pcs s t = InF \<Longrightarrow>
    turnoff_step timed s (goto (s\<lparr>errs := (errs s)(t := ferrs out),
                                outs := (outs s)(t := Some out)\<rparr>) t (CasStopped (out = FPanic)))"
| spawn: "pcs s t = SpawnF \<Longrightarrow>
    turnoff_step timed s (goto (s\<lparr>gpcs := (gpcs s)(t := GReady)\<rparr>) t SelectDone)"
| g_start: "gpcs s t = GReady \<Longrightarrow>
    turnoff_step timed s (s\<lparr>gpcs := (gpcs s)(t := GRun), runs := (runs s)(t := runs s t + 1)\<rparr>)"
| g_end: "gpcs s t = GRun \<Longrightarrow>
    turnoff_step timed s (s\<lparr>gpcs := (gpcs s)(t := g_next out), outs := (outs s)(t := Some out)\<rparr>)"
| g_read: "gpcs s t = GRead e \<Longrightarrow>
    turnoff_step timed s (s\<lparr>gpcs := (gpcs s)(t := GWrite (errs s t @ [e]))\<rparr>)"
| g_write: "gpcs s t = GWrite es \<Longrightarrow>
    turnoff_step timed s (s\<lparr>gpcs := (gpcs s)(t := GCloseDone), errs := (errs s)(t := es)\<rparr>)"
| g_close: "gpcs s t = GCloseDone \<Longrightarrow>
    turnoff_step timed s (s\<lparr>gpcs := (gpcs s)(t := GDone)\<rparr>)"
| select_done: "pcs s t = SelectDone \<Longrightarrow> gpcs s t = GDone \<Longrightarrow>
    turnoff_step timed s (goto s t (CasStopped False))"
| select_timeout: "pcs s t = SelectDone \<Longrightarrow>
    turnoff_step timed s (goto (s\<lparr>errs := (errs s)(t := [TurnOffTimeout])\<rparr>) t (CasStopped False))"
| cas_stopped: "pcs s t = CasStopped p \<Longrightarrow>
    turnoff_step timed s (if state s = stateStopping
                          then goto (s\<lparr>state := stateStopped\<rparr>) t (CloseStopped p)
                          else goto s t (leave s t p))"
| close_stopped: "pcs s t = CloseStopped p \<Longrightarrow>
    turnoff_step timed s (if stopped_closed s then goto s t Crashed
                          else goto (s\<lparr>stopped_closed := True\<rparr>) t (leave s t p))"

section \<open>The invariant\<close>

text \<open>The callers that hold the mutex, and those that won the transition to \<open>stopping\<close>.\<close>

fun in_mutex :: "pc \<Rightarrow> bool" where
  "in_mutex LoadState = True"
| "in_mutex (CasStopping _) = True"
| "in_mutex (UnlockMu _) = True"
| "in_mutex _ = False"

fun before_trigger :: "pc \<Rightarrow> bool" where
  "before_trigger NotCalled = True"
| "before_trigger CasTrigger = True"
| "before_trigger _ = False"

text \<open>Whether a caller at this place is between the won transition and the end of \<open>TurnOff\<close>.\<close>

fun stopping_pc :: "pc \<Rightarrow> bool" where
  "stopping_pc (UnlockMu True) = True"
| "stopping_pc CallF = True"
| "stopping_pc InF = True"
| "stopping_pc SpawnF = True"
| "stopping_pc SelectDone = True"
| "stopping_pc (CasStopped _) = True"
| "stopping_pc _ = False"

fun closing_pc :: "pc \<Rightarrow> bool" where
  "closing_pc (CloseStopped _) = True"
| "closing_pc _ = False"

text \<open>The callers that have not started their function.\<close>

fun fresh_pc :: "pc \<Rightarrow> bool" where
  "fresh_pc InF = False"
| "fresh_pc SelectDone = False"
| "fresh_pc (CasStopped _) = False"
| "fresh_pc (CloseStopped _) = False"
| "fresh_pc (Returned _) = False"
| "fresh_pc Unwound = False"
| "fresh_pc _ = True"

fun ended_pc :: "pc \<Rightarrow> bool" where
  "ended_pc (Returned _) = True"
| "ended_pc Unwound = True"
| "ended_pc _ = False"

fun cas_ok :: "nat \<Rightarrow> pc \<Rightarrow> bool" where
  "cas_ok st (CasStopping cur) = (st = cur \<and> cur < stateStopping)"
| "cas_ok st _ = True"

definition started :: "stopper \<Rightarrow> nat \<Rightarrow> bool" where
  "started s t \<longleftrightarrow> runs s t > 0 \<or> gpcs s t \<noteq> GNone"

text \<open>
  The invariant names two callers, if there are such: \<open>c\<close>, the one that made the transition to
  \<open>triggered\<close>, and \<open>w\<close>, the one that made the transition to \<open>stopping\<close>. The shared state agrees
  with them, and so does the place of every caller.
\<close>

definition shared_ok :: "stopper \<Rightarrow> nat option \<Rightarrow> nat option \<Rightarrow> bool" where
  "shared_ok s c w \<longleftrightarrow>
     (stateTriggered \<le> state s \<longleftrightarrow> c \<noteq> None) \<and> (stateStopping \<le> state s \<longleftrightarrow> w \<noteq> None)
   \<and> (trigger_closed s \<longrightarrow> c \<noteq> None) \<and> (stopped_closed s \<longrightarrow> state s = stateStopped)
   \<and> state s \<le> stateStopped"

definition caller_ok :: "stopper \<Rightarrow> nat option \<Rightarrow> nat option \<Rightarrow> nat \<Rightarrow> bool" where
  "caller_ok s c w t \<longleftrightarrow>
     (in_mutex (pcs s t) \<longleftrightarrow> mu s = Some t)
   \<and> (c = Some t \<longrightarrow> pcs s t = CloseTrigger \<or> trigger_closed s)
   \<and> (c = Some t \<or> started s t \<or> w = Some t \<longrightarrow> \<not> before_trigger (pcs s t))
   \<and> (pcs s t = CloseTrigger \<longrightarrow> c = Some t \<and> \<not> trigger_closed s)
   \<and> (\<not> before_trigger (pcs s t) \<longrightarrow> stateTriggered \<le> state s)
   \<and> cas_ok (state s) (pcs s t)
   \<and> (w = Some t \<longrightarrow> stopping_pc (pcs s t) \<or> closing_pc (pcs s t)
        \<or> ended_pc (pcs s t) \<and> state s = stateStopped \<and> stopped_closed s)
   \<and> (stopping_pc (pcs s t) \<longrightarrow> w = Some t \<and> state s = stateStopping)
   \<and> (closing_pc (pcs s t) \<longrightarrow> w = Some t \<and> state s = stateStopped \<and> \<not> stopped_closed s)
   \<and> (started s t \<longleftrightarrow> w = Some t \<and> \<not> fresh_pc (pcs s t))
   \<and> runs s t \<le> 1 \<and> (gpcs s t = GReady \<longrightarrow> runs s t = 0) \<and> (pcs s t = InF \<longrightarrow> gpcs s t = GNone)
   \<and> pcs s t \<noteq> Crashed"

definition stopper_inv :: "stopper \<Rightarrow> bool" where
  "stopper_inv s \<longleftrightarrow> (\<exists>c w. shared_ok s c w \<and> (\<forall>t. caller_ok s c w t))"

lemma g_next_later [simp]: "g_next out \<noteq> GNone" "g_next out \<noteq> GReady"
  by (cases out rule: g_next.cases; simp)+

lemma stopper_invI: "shared_ok s c w \<Longrightarrow> (\<And>t. caller_ok s c w t) \<Longrightarrow> stopper_inv s"
  by (auto simp: stopper_inv_def)

lemmas stopper_defs = shared_ok_def caller_ok_def goto_def started_def leave_def

lemma stopper_invI2:
  assumes "\<And>u. caller_ok s c w u" and "shared_ok s' c' w'" and "caller_ok s' c' w' t"
    and "\<And>u. u \<noteq> t \<Longrightarrow> caller_ok s c w u \<Longrightarrow> caller_ok s' c' w' u"
  shows "stopper_inv s'"
  using assms by (metis stopper_invI)

lemma before_trigger_cas_ok [simp]: "before_trigger p \<Longrightarrow> cas_ok n p"
  by (cases p) simp_all

lemma not_in_mutex_cas_ok [simp]: "\<not> in_mutex p \<Longrightarrow> cas_ok n p"
  by (cases p) simp_all

lemma stopper_step:
  assumes step: "turnoff_step b s s'" and "stopper_inv s"
  shows "stopper_inv s'"
proof -
  obtain c w where sh: "shared_ok s c w" and cl: "\<And>t. caller_ok s c w t"
    using assms(2) by (auto simp: stopper_inv_def)
  note fact = sh [unfolded stopper_defs]
  note me = cl [unfolded stopper_defs]
  from step show ?thesis
  proof cases
    case (call t)
    show ?thesis by (rule stopper_invI2 [OF cl, where c' = c and w' = w and t = t]) (use call fact me[of t] in \<open>simp_all add: stopper_defs\<close>)
  next case (cas_trigger t)
    show ?thesis by (rule stopper_invI2 [OF cl, where c' = "Some t" and w' = w and t = t]) (use cas_trigger fact me[of t] in \<open>auto simp: stopper_defs\<close>)
  next case (cas_trigger_fails t)
    show ?thesis by (rule stopper_invI2 [OF cl, where c' = c and w' = w and t = t]) (use cas_trigger_fails fact me[of t] in \<open>auto simp: stopper_defs\<close>)
  next case (close_trigger t)
    show ?thesis by (rule stopper_invI2 [OF cl, where c' = c and w' = w and t = t]) (use close_trigger fact me[of t] in \<open>auto simp: stopper_defs\<close>)
  next case (lock t)
    show ?thesis by (rule stopper_invI2 [OF cl, where c' = c and w' = w and t = t]) (use lock fact me[of t] in \<open>auto simp: stopper_defs\<close>)
  next case (load t)
    show ?thesis by (rule stopper_invI2 [OF cl, where c' = c and w' = w and t = t]) (use load fact me[of t] in \<open>auto simp: stopper_defs\<close>)
  next case (cas_stopping t cur)
    have lt: "state s = cur" "cur < stateStopping" "w = None" "mu s = Some t"
      using me [of t] cas_stopping fact by auto
    have s': "s' = goto (s\<lparr>state := stateStopping\<rparr>) t (UnlockMu True)"
      using cas_stopping lt by simp
    show ?thesis unfolding s'
    proof (rule stopper_invI2 [OF cl, where c' = c and w' = "Some t" and t = t])
      show "shared_ok (goto (s\<lparr>state := stateStopping\<rparr>) t (UnlockMu True)) c (Some t)"
        using lt fact cas_stopping me [of t] by (auto simp: stopper_defs)
      show "caller_ok (goto (s\<lparr>state := stateStopping\<rparr>) t (UnlockMu True)) c (Some t) t"
        using lt fact cas_stopping me [of t] by (auto simp: stopper_defs)
      show "caller_ok (goto (s\<lparr>state := stateStopping\<rparr>) t (UnlockMu True)) c (Some t) u"
        if "u \<noteq> t" "caller_ok s c w u" for u
        using that lt fact by (simp add: stopper_defs) 
    qed
next case (unlock t won)
    show ?thesis
    proof (rule stopper_invI2 [OF cl, where c' = c and w' = w and t = t])
      show "shared_ok s' c w" using sh unlock by (simp add: shared_ok_def goto_def)
      show "caller_ok s' c w t"
        using me [of t] fact unlock by (cases won) (simp_all add: stopper_defs)
      show "caller_ok s' c w u" if "u \<noteq> t" "caller_ok s c w u" for u
        using that unlock me [of t] by (simp add: stopper_defs) 
    qed
next case (start_f t)
    show ?thesis by (rule stopper_invI2 [OF cl, where c' = c and w' = w and t = t]) (use start_f fact me[of t] in \<open>auto simp: stopper_defs\<close>)
  next case (end_f t)
    show ?thesis by (rule stopper_invI2 [OF cl, where c' = c and w' = w and t = t]) (use end_f fact me[of t] in \<open>auto simp: stopper_defs\<close>)
  next case (spawn t)
    show ?thesis by (rule stopper_invI2 [OF cl, where c' = c and w' = w and t = t]) (use spawn fact me[of t] in \<open>auto simp: stopper_defs\<close>)
  next case (g_start t)
    show ?thesis by (rule stopper_invI2 [OF cl, where c' = c and w' = w and t = t]) (use g_start fact me[of t] in \<open>auto simp: stopper_defs\<close>)
  next case (g_end t)
    show ?thesis by (rule stopper_invI2 [OF cl, where c' = c and w' = w and t = t]) (use g_end fact me[of t] in \<open>auto simp: stopper_defs\<close>)
  next case (g_read t e)
    show ?thesis by (rule stopper_invI2 [OF cl, where c' = c and w' = w and t = t]) (use g_read fact me[of t] in \<open>auto simp: stopper_defs\<close>)
  next case (g_write t es)
    show ?thesis by (rule stopper_invI2 [OF cl, where c' = c and w' = w and t = t]) (use g_write fact me[of t] in \<open>auto simp: stopper_defs\<close>)
  next case (g_close t)
    show ?thesis by (rule stopper_invI2 [OF cl, where c' = c and w' = w and t = t]) (use g_close fact me[of t] in \<open>auto simp: stopper_defs\<close>)
  next case (select_done t)
    show ?thesis by (rule stopper_invI2 [OF cl, where c' = c and w' = w and t = t]) (use select_done fact me[of t] in \<open>auto simp: stopper_defs\<close>)
  next case (select_timeout t)
    show ?thesis by (rule stopper_invI2 [OF cl, where c' = c and w' = w and t = t]) (use select_timeout fact me[of t] in \<open>auto simp: stopper_defs\<close>)
  next case (cas_stopped t p)
    have wt: "w = Some t" "state s = stateStopping" "\<not> stopped_closed s"
      using me [of t] fact cas_stopped by auto
    have s': "s' = goto (s\<lparr>state := stateStopped\<rparr>) t (CloseStopped p)"
      using cas_stopped wt by simp
    show ?thesis unfolding s'
    proof (rule stopper_invI2 [OF cl, where c' = c and w' = w and t = t])
      show "shared_ok (goto (s\<lparr>state := stateStopped\<rparr>) t (CloseStopped p)) c w"
        using sh wt by (simp add: shared_ok_def goto_def)
      show "caller_ok (goto (s\<lparr>state := stateStopped\<rparr>) t (CloseStopped p)) c w t"
        using me [of t] wt cas_stopped by (simp add: stopper_defs)
      show "caller_ok (goto (s\<lparr>state := stateStopped\<rparr>) t (CloseStopped p)) c w u"
        if "u \<noteq> t" "caller_ok s c w u" for u
        using that wt by (cases "pcs s u") (simp_all add: stopper_defs)
    qed
  next case (close_stopped t p)
    have wt: "w = Some t" "state s = stateStopped" "\<not> stopped_closed s"
      using me [of t] close_stopped by auto
    have s': "s' = goto (s\<lparr>stopped_closed := True\<rparr>) t (leave s t p)"
      using close_stopped wt by simp
    show ?thesis unfolding s'
    proof (rule stopper_invI2 [OF cl, where c' = c and w' = w and t = t])
      show "shared_ok (goto (s\<lparr>stopped_closed := True\<rparr>) t (leave s t p)) c w"
        using sh wt by (simp add: shared_ok_def goto_def)
      show "caller_ok (goto (s\<lparr>stopped_closed := True\<rparr>) t (leave s t p)) c w t"
        using me [of t] wt close_stopped by (cases p) (simp_all add: stopper_defs)
      show "caller_ok (goto (s\<lparr>stopped_closed := True\<rparr>) t (leave s t p)) c w u"
        if "u \<noteq> t" "caller_ok s c w u" for u
        using that wt by (cases "pcs s u") (simp_all add: stopper_defs)
    qed
  qed
qed
end
