(* ===== verification/Stopper_Runs.thy ===== *)
theory Stopper_Runs
  imports Stopper_Model
begin

text \<open>
  What the invariant of the stopper gives: the rank that bounds the number of steps of a run, the
  results of the callers of \<open>TurnOff\<close>, the properties, and the runs that witness them.
\<close>

section \<open>The system\<close>

lemma goto_fields [simp]:
  "pcs (goto s t p) = (pcs s)(t := p)" "state (goto s t p) = state s"
  "gpcs (goto s t p) = gpcs s" "errs (goto s t p) = errs s" "runs (goto s t p) = runs s"
  "outs (goto s t p) = outs s" "trigger_closed (goto s t p) = trigger_closed s"
  "stopped_closed (goto s t p) = stopped_closed s" "mu (goto s t p) = mu s"
  by (simp_all add: goto_def)

lemma stopper_init: "stopper_inv NewStopper"
  by (rule stopper_invI [of _ None None])
    (simp_all add: stopper_defs NewStopper_def)

lemma state_mono:
  assumes "turnoff_step timed s s'" and "stopper_inv s"
  shows "state s \<le> state s'"
  using assms(1)
proof cases
  case (cas_stopping t cur)
  moreover obtain c w where "caller_ok s c w t" using assms(2) by (auto simp: stopper_inv_def)
  ultimately show ?thesis by (auto simp: caller_ok_def)
qed auto

interpretation turnoff: ranked_system "\<lambda>s. s = NewStopper" "turnoff_step timed" stopper_inv state for timed
  by unfold_locales (use stopper_init stopper_step state_mono in blast)+

definition stopper_reach :: "bool \<Rightarrow> stopper \<Rightarrow> bool" where
  "stopper_reach timed s \<longleftrightarrow> (turnoff_step timed)\<^sup>*\<^sup>* NewStopper s"

lemma reach_inv: "stopper_reach timed s \<Longrightarrow> stopper_inv s"
  unfolding stopper_reach_def using turnoff.inv_reachable by blast

fun noted :: "fout option \<Rightarrow> goerr list \<Rightarrow> bool" where
  "noted None es = False"
| "noted (Some out) es = (es = ferrs out)"

text \<open>
  What a caller has to show for its function, without a timeout and with one, as conditions on
  its place, its goroutine, its \<open>err\<close>, the number of runs of its function and their outcome.
\<close>

fun untimed_result :: "pc \<Rightarrow> goerr list \<Rightarrow> nat \<Rightarrow> fout option \<Rightarrow> bool" where
  "untimed_result SpawnF es n out = False"
| "untimed_result SelectDone es n out = False"
| "untimed_result InF es n out = (n > 0 \<and> out = None)"
| "untimed_result (CasStopped p) es n out = (n > 0 \<and> noted out es \<and> (p \<longleftrightarrow> out = Some FPanic))"
| "untimed_result (CloseStopped p) es n out = (n > 0 \<and> noted out es \<and> (p \<longleftrightarrow> out = Some FPanic))"
| "untimed_result (Returned r) es n out =
     (if n > 0 then noted out r \<and> out \<noteq> Some FPanic else r = [] \<and> out = None)"
| "untimed_result Unwound es n out = (n > 0 \<and> out = Some FPanic)"
| "untimed_result Crashed es n out = True"
| "untimed_result _ es n out = (n = 0 \<and> out = None)"

text \<open>A value of \<open>err\<close> that reports what the function did, or the timeout.\<close>

definition reported :: "fout option \<Rightarrow> goerr list \<Rightarrow> bool" where
  "reported out es \<longleftrightarrow> noted out es \<or> TurnOffTimeout \<in> set es"

definition fresh_err :: "goerr list \<Rightarrow> bool" where
  "fresh_err es \<longleftrightarrow> es = [] \<or> es = [TurnOffTimeout]"

fun timed_goroutine :: "gpc \<Rightarrow> goerr list \<Rightarrow> nat \<Rightarrow> fout option \<Rightarrow> bool" where
  "timed_goroutine GNone es n out = (n = 0 \<and> out = None \<and> es = [])"
| "timed_goroutine GReady es n out = (n = 0 \<and> out = None \<and> fresh_err es)"
| "timed_goroutine GRun es n out = (n > 0 \<and> out = None \<and> fresh_err es)"
| "timed_goroutine (GRead e) es n out = (n > 0 \<and> fresh_err es \<and> (\<exists>k. e = FErr k \<and> out = Some (FRet (Some k))))"
| "timed_goroutine (GWrite es') es n out = (n > 0 \<and> fresh_err es \<and> out \<noteq> None \<and> reported out es')"
| "timed_goroutine _ es n out = (n > 0 \<and> out \<noteq> None \<and> reported out es)"

fun timed_result :: "pc \<Rightarrow> gpc \<Rightarrow> goerr list \<Rightarrow> fout option \<Rightarrow> bool" where
  "timed_result CallF g es out = False"
| "timed_result InF g es out = False"
| "timed_result Unwound g es out = False"
| "timed_result SelectDone g es out = (g \<noteq> GNone)"
| "timed_result (CasStopped p) g es out = (\<not> p \<and> g \<noteq> GNone \<and> reported out es)"
| "timed_result (CloseStopped p) g es out = (\<not> p \<and> g \<noteq> GNone \<and> reported out es)"
| "timed_result (Returned r) g es out = (if g = GNone then r = [] else reported out r)"
| "timed_result Crashed g es out = True"
| "timed_result _ g es out = (g = GNone)"

lemma ferrs_no_timeout [simp]: "TurnOffTimeout \<notin> set (ferrs out)"
  by (cases out rule: ferrs.cases) simp_all

definition untimed_ok :: "stopper \<Rightarrow> nat \<Rightarrow> bool" where
  "untimed_ok s t \<longleftrightarrow> gpcs s t = GNone \<and> untimed_result (pcs s t) (errs s t) (runs s t) (outs s t)"

definition timed_ok :: "stopper \<Rightarrow> nat \<Rightarrow> bool" where
  "timed_ok s t \<longleftrightarrow> timed_goroutine (gpcs s t) (errs s t) (runs s t) (outs s t)
                   \<and> timed_result (pcs s t) (gpcs s t) (errs s t) (outs s t)"

lemma reported_simps [simp]:
  "reported None es \<longleftrightarrow> TurnOffTimeout \<in> set es" "reported (Some fo) (ferrs fo)"
  "reported (Some (FRet (Some k))) [FErr k]" "reported out [TurnOffTimeout]" "fresh_err []" "fresh_err [TurnOffTimeout]"
  by (auto simp: reported_def fresh_err_def)

lemma reported_timeout: "TurnOffTimeout \<in> set es \<Longrightarrow> reported out es"
  by (simp add: reported_def)

lemma g_end_ok:
  "timed_goroutine GRun es n None \<Longrightarrow> timed_goroutine (g_next out) es n (Some out)"
  by (cases out rule: g_next.cases) (auto simp: fresh_err_def reported_def)

lemma untimed_step:
  assumes "turnoff_step False s s'" "\<forall>t. untimed_ok s t"
  shows "\<forall>t. untimed_ok s' t"
proof
  fix u
  have u: "untimed_ok s u" using assms by simp
  show "untimed_ok s' u"
    using assms(1)
  proof cases
  qed (use u in \<open>auto simp: untimed_ok_def leave_def split: if_splits\<close>)
qed

lemma timed_step:
  assumes "turnoff_step True s s'" "\<forall>t. timed_ok s t"
  shows "\<forall>t. timed_ok s' t"
proof
  fix u
  have u: "timed_ok s u" using assms by simp
  show "timed_ok s' u"
    using assms(1)
  proof cases
    case (g_start t)
    then show ?thesis using u by (cases "u = t"; cases "pcs s u") (auto simp: timed_ok_def)
  next
    case (g_end t out)
    then have "outs s t = None" if "u = t" using u that by (simp add: timed_ok_def)
    with g_end u show ?thesis
      by (cases "u = t"; cases "pcs s u") (auto simp: timed_ok_def g_end_ok reported_timeout split: if_splits)
  next
    case (g_read t e)
    then show ?thesis using u
      by (cases "u = t"; cases "pcs s u") (auto simp: timed_ok_def fresh_err_def reported_timeout)
  next
    case (g_write t es)
    then show ?thesis using u by (cases "u = t"; cases "pcs s u") (auto simp: timed_ok_def)
  next
    case (g_close t)
    then show ?thesis using u by (cases "u = t"; cases "pcs s u") (auto simp: timed_ok_def)
  next
    case (select_timeout t)
    then show ?thesis using u by (cases "u = t"; cases "gpcs s u") (auto simp: timed_ok_def)
  qed (use u in \<open>auto simp: timed_ok_def leave_def split: if_splits\<close>)
qed

lemma reach_untimed: "stopper_reach False s \<Longrightarrow> untimed_ok s t"
proof -
  have "\<forall>t. untimed_ok s t" if "(turnoff_step False)\<^sup>*\<^sup>* NewStopper s"
    using that
  proof (induction rule: rtranclp_induct)
    case base
    show ?case by (simp add: NewStopper_def untimed_ok_def)
  qed (rule untimed_step)
  then show "stopper_reach False s \<Longrightarrow> untimed_ok s t" by (simp add: stopper_reach_def)
qed

lemma reach_timed: "stopper_reach True s \<Longrightarrow> timed_ok s t"
proof -
  have "\<forall>t. timed_ok s t" if "(turnoff_step True)\<^sup>*\<^sup>* NewStopper s"
    using that
  proof (induction rule: rtranclp_induct)
    case base
    show ?case by (simp add: NewStopper_def timed_ok_def)
  qed (rule timed_step)
  then show "stopper_reach True s \<Longrightarrow> timed_ok s t" by (simp add: stopper_reach_def)
qed

fun pc_rank :: "pc \<Rightarrow> nat" where
  "pc_rank NotCalled = 0"
| "pc_rank CasTrigger = 1"
| "pc_rank CloseTrigger = 2"
| "pc_rank LockMu = 3"
| "pc_rank LoadState = 4"
| "pc_rank (CasStopping _) = 5"
| "pc_rank (UnlockMu _) = 6"
| "pc_rank CallF = 7"
| "pc_rank InF = 8"
| "pc_rank SpawnF = 7"
| "pc_rank SelectDone = 8"
| "pc_rank (CasStopped _) = 9"
| "pc_rank (CloseStopped _) = 10"
| "pc_rank _ = 11"

fun gpc_rank :: "gpc \<Rightarrow> nat" where
  "gpc_rank GNone = 0"
| "gpc_rank GReady = 1"
| "gpc_rank GRun = 2"
| "gpc_rank (GRead _) = 3"
| "gpc_rank (GWrite _) = 4"
| "gpc_rank GCloseDone = 5"
| "gpc_rank GDone = 6"

lemma gpc_rank_next: "2 < gpc_rank (g_next out)"
  by (cases out rule: g_next.cases) simp_all

definition caller_rank :: "stopper \<Rightarrow> nat \<Rightarrow> nat" where
  "caller_rank s t = pc_rank (pcs s t) + gpc_rank (gpcs s t)"

lemma caller_rank_le: "caller_rank s t \<le> 17"
  by (cases "pcs s t"; cases "gpcs s t") (simp_all add: caller_rank_def)

lemma step_ranks:
  assumes "turnoff_step timed s s'" and "stopper_inv s"
  shows "\<exists>t. caller_rank s t < caller_rank s' t \<and> (\<forall>u. u \<noteq> t \<longrightarrow> caller_rank s' u = caller_rank s u)"
  using assms(1)
proof cases
  case (spawn t)
  obtain c w where "caller_ok s c w t" using assms(2) by (auto simp: stopper_inv_def)
  with spawn have "gpcs s t = GNone" by (auto simp: caller_ok_def started_def)
  with spawn show ?thesis by (intro exI [of _ t]) (auto simp: caller_rank_def leave_def)
next
  case (g_end t out)
  then show ?thesis using gpc_rank_next [of out] by (intro exI [of _ t]) (auto simp: caller_rank_def)
qed (rule exI, force simp: caller_rank_def leave_def)+


lemma called_rank: "stopper_inv s \<Longrightarrow> pcs s t = NotCalled \<Longrightarrow> caller_rank s t = 0"
  by (auto simp: stopper_inv_def caller_ok_def started_def caller_rank_def)
    (metis before_trigger.simps(1) gpc_rank.simps(1))

lemma not_called_back:
  assumes "turnoff_step timed r s" and "pcs s u = NotCalled"
  shows "pcs r u = NotCalled"
  using assms by cases (auto simp: leave_def split: if_splits)

lemma steps_bound:
  assumes "(turnoff_step timed ^^ n) NewStopper s"
  shows "stopper_reach timed s \<and> (\<forall>k. (\<forall>t\<ge>k. pcs s t = NotCalled) \<longrightarrow> n \<le> (\<Sum>t<k. caller_rank s t))"
  using assms
proof (induction n arbitrary: s)
  case 0
  then show ?case by (simp add: stopper_reach_def)
next
  case (Suc n)
  then obtain r where r: "(turnoff_step timed ^^ n) NewStopper r" and st: "turnoff_step timed r s" by auto
  note IH = Suc.IH [OF r]
  have inv: "stopper_inv r" using IH reach_inv by blast
  have rs: "stopper_reach timed s"
    using IH st by (auto simp: stopper_reach_def)
  obtain t where t: "caller_rank r t < caller_rank s t"
    and eq: "\<And>u. u \<noteq> t \<Longrightarrow> caller_rank s u = caller_rank r u"
    using step_ranks [OF st inv] by blast
  have "Suc n \<le> (\<Sum>t<k. caller_rank s t)" if k: "\<forall>t\<ge>k. pcs s t = NotCalled" for k
  proof -
    have "t < k" using k t called_rank [OF reach_inv [OF rs], of t] by (metis gr_zeroI not_le not_less_zero)
    have "pcs r u = NotCalled" if "u \<ge> k" for u
      using k that not_called_back [OF st] by blast
    then have "n \<le> (\<Sum>t<k. caller_rank r t)" using IH by blast
    also have "\<dots> < (\<Sum>t<k. caller_rank s t)"
    proof (rule sum_strict_mono_ex1)
      show "\<forall>u\<in>{..<k}. caller_rank r u \<le> caller_rank s u"
        using eq t by (metis le_refl less_imp_le)
    qed (use t \<open>t < k\<close> in auto)
    finally show ?thesis by simp
  qed
  with rs show ?case by blast
qed

text \<open>
  An action of the callers and their goroutines, other than a new call, that is not the end of one of the
  functions that never return.
\<close>

definition can_move :: "bool \<Rightarrow> nat set \<Rightarrow> stopper \<Rightarrow> bool" where
  "can_move timed hangs s \<longleftrightarrow>
     (\<exists>s'. turnoff_step timed s s' \<and> (\<forall>u. pcs s' u = NotCalled \<longleftrightarrow> pcs s u = NotCalled)
        \<and> (\<forall>t\<in>hangs. outs s' t = outs s t))"

lemma can_moveI:
  "turnoff_step timed s s' \<Longrightarrow> (\<And>u. pcs s' u = NotCalled \<longleftrightarrow> pcs s u = NotCalled) \<Longrightarrow>
    (\<And>t. t \<in> hangs \<Longrightarrow> outs s' t = outs s t) \<Longrightarrow> can_move timed hangs s"
  by (auto simp: can_move_def)

lemma in_mutex_moves:
  assumes "in_mutex (pcs s t)"
  shows "can_move timed hangs s"
proof (cases "pcs s t")
  case LoadState
  show ?thesis by (rule can_moveI [OF load [OF LoadState]]) (simp_all add: LoadState)
next
  case (CasStopping cur)
  show ?thesis by (rule can_moveI [OF cas_stopping [OF CasStopping]]) (simp_all add: CasStopping)
next
  case (UnlockMu won)
  show ?thesis by (rule can_moveI [OF unlock [OF UnlockMu]]) (simp_all add: UnlockMu)
qed (use assms in simp_all)

text \<open>The one place where a call of \<open>TurnOff\<close> may stay for ever: in its own function, without a timeout.\<close>

definition stuck_in_f :: "bool \<Rightarrow> nat set \<Rightarrow> stopper \<Rightarrow> nat \<Rightarrow> bool" where
  "stuck_in_f timed hangs s t \<longleftrightarrow> \<not> timed \<and> t \<in> hangs \<and> pcs s t = InF"

lemma in_f_untimed:
  assumes "stopper_reach timed s" and "pcs s t = InF"
  shows "\<not> timed"
proof
  assume timed
  then have "timed_ok s t" using assms(1) reach_timed by simp
  then show False using assms(2) by (simp add: timed_ok_def)
qed

lemma caller_moves:
  assumes "stopper_reach timed s" and "pcs s t \<noteq> NotCalled" and "\<not> ended_pc (pcs s t)"
    and "\<not> stuck_in_f timed hangs s t"
  shows "can_move timed hangs s"
proof -
  obtain c w where ok: "\<And>t. caller_ok s c w t"
    using reach_inv [OF assms(1)] by (auto simp: stopper_inv_def)
  show ?thesis
  proof (cases "pcs s t")
    case LockMu
    show ?thesis
    proof (cases "mu s")
      case None
      show ?thesis by (rule can_moveI [OF lock [OF LockMu None]]) (simp_all add: LockMu)
    next
      case (Some u)
      then have "in_mutex (pcs s u)" using ok [of u] by (simp add: caller_ok_def)
      then show ?thesis by (rule in_mutex_moves)
    qed
  next
    case CasTrigger
    show ?thesis
    proof (cases "state s = stateIdle")
      case True
      show ?thesis by (rule can_moveI [OF cas_trigger [OF CasTrigger True]]) (simp_all add: CasTrigger)
    next
      case False
      show ?thesis by (rule can_moveI [OF cas_trigger_fails [OF CasTrigger False]]) (simp_all add: CasTrigger)
    qed
  next
    case CloseTrigger
    show ?thesis by (rule can_moveI [OF close_trigger [OF CloseTrigger]]) (simp_all add: CloseTrigger)
  next
    case CallF
    show ?thesis by (rule can_moveI [OF start_f [OF CallF]]) (simp_all add: CallF)
  next
    case InF
    then have "t \<notin> hangs" using assms(4) in_f_untimed [OF assms(1)] by (auto simp: stuck_in_f_def)
    then show ?thesis by (intro can_moveI [OF end_f [OF InF]]) (auto simp: InF)
  next
    case SpawnF
    show ?thesis by (rule can_moveI [OF spawn [OF SpawnF]]) (simp_all add: SpawnF)
  next
    case SelectDone
    show ?thesis by (rule can_moveI [OF select_timeout [OF SelectDone]]) (simp_all add: SelectDone)
  next
    case (CasStopped p)
    show ?thesis by (rule can_moveI [OF cas_stopped [OF CasStopped]]) (simp_all add: CasStopped leave_def)
  next
    case (CloseStopped p)
    show ?thesis by (rule can_moveI [OF close_stopped [OF CloseStopped]]) (simp_all add: CloseStopped leave_def)
  qed (use assms ok [of t] in_mutex_moves [of s t timed hangs] in \<open>auto simp: caller_ok_def\<close>)
qed

section \<open>Properties\<close>

text \<open>C3: In every interleaving of any number of \<open>TurnOff\<close> calls, with or without a timeout, the shutdown
  function is started at most once over all callers, no channel is closed twice (no caller
  panics for that), and the state only moves forward.
\<close>

theorem shutdown_runs_once:
  assumes "stopper_reach timed s" and "turnoff_step timed s s'"
  shows "state s \<le> state s' \<and> state s' \<le> stateStopped
       \<and> (\<forall>t. pcs s' t \<noteq> Crashed \<and> runs s' t \<le> 1)
       \<and> (\<forall>t u. 0 < runs s' t \<longrightarrow> 0 < runs s' u \<longrightarrow> t = u)"
proof -
  have "stopper_inv s" "stopper_inv s'"
    using assms reach_inv stopper_step by blast+
  then obtain c w where "shared_ok s' c w" "\<And>t. caller_ok s' c w t"
    by (auto simp: stopper_inv_def)
  moreover have "state s \<le> state s'" using assms(2) \<open>stopper_inv s\<close> by (rule state_mono)
  moreover have "w = Some t" if "0 < runs s' t" for t
    using \<open>caller_ok s' c w t\<close> that by (simp add: caller_ok_def started_def)
  ultimately show ?thesis by (simp add: shared_ok_def caller_ok_def) (metis option.inject)
qed

text \<open>When \<open>WaitStopped\<close> is released, the state is \<open>stopped\<close> and there is a caller whose function has
  ended or, only under a timeout, has been given up on.
\<close>

theorem stopped_after_shutdown:
  assumes "stopper_reach timed s" and "stopped_closed s"
  shows "state s = stateStopped \<and> OnStopping s
       \<and> (\<exists>t. ended_pc (pcs s t) \<and> (outs s t \<noteq> None \<or> timed \<and> (\<exists>r. pcs s t = Returned r \<and> TurnOffTimeout \<in> set r)))"
proof -
  obtain c w where inv: "shared_ok s c w" "\<And>t. caller_ok s c w t"
    using reach_inv [OF assms(1)] by (auto simp: stopper_inv_def)
  then have st: "state s = stateStopped" using assms(2) by (simp add: shared_ok_def)
  then obtain t where t: "w = Some t" using inv(1) by (cases w) (auto simp: shared_ok_def)
  have e: "ended_pc (pcs s t)"
    using inv(2) [of t] st t assms(2) by (auto simp: caller_ok_def)
  moreover have "\<not> fresh_pc (pcs s t)" using e by (cases "pcs s t") simp_all
  ultimately have start: "started s t" using inv(2) [of t] t by (simp add: caller_ok_def)
  have "outs s t \<noteq> None \<or> timed \<and> (\<exists>r. pcs s t = Returned r \<and> TurnOffTimeout \<in> set r)"
  proof (cases timed)
    case True
    with assms(1) have "timed_ok s t" using reach_timed by simp
    with start e True show ?thesis
      by (cases "pcs s t"; cases "outs s t") (auto simp: timed_ok_def started_def split: if_splits)
  next
    case False
    with assms(1) have "untimed_ok s t" using reach_untimed by simp
    with start e show ?thesis
      by (cases "pcs s t"; cases "outs s t") (auto simp: untimed_ok_def started_def)
  qed
  with st e show ?thesis by (auto simp: OnStopping_def)
qed

text \<open>C7: What \<open>TurnOff\<close> returns. A caller whose function was not started returns \<open>nil\<close>. Without a
  timeout the others return exactly what the function returned, and a panic of the function
  leaves \<open>TurnOff\<close>; with a timeout they return what it returned (\<open>nil\<close> also when it panicked, since \<open>Go\<close>
  recovers the panic), or an error that contains the timeout, and never panic.
\<close>

theorem TurnOff_result:
  assumes "stopper_reach timed s"
  shows "(\<forall>t. pcs s t = Unwound \<longrightarrow> \<not> timed \<and> outs s t = Some FPanic)
       \<and> (\<forall>t r. pcs s t = Returned r \<longrightarrow> \<not> started s t \<longrightarrow> r = [])
       \<and> (\<forall>t r. pcs s t = Returned r \<longrightarrow> started s t \<longrightarrow>
            noted (outs s t) r \<and> (\<not> timed \<longrightarrow> outs s t \<noteq> Some FPanic)
            \<or> timed \<and> TurnOffTimeout \<in> set r)"
proof (cases timed)
  case True
  then have ok: "timed_ok s t" for t using assms reach_timed by simp
  have "noted (outs s t) r \<or> TurnOffTimeout \<in> set r" if "pcs s t = Returned r" "started s t" for t r
    using ok [of t] that by (cases "gpcs s t") (auto simp: timed_ok_def started_def reported_def)
  moreover have "r = []" if "pcs s t = Returned r" "\<not> started s t" for t r
    using ok [of t] that by (auto simp: timed_ok_def started_def)
  moreover have "pcs s t \<noteq> Unwound" for t using ok [of t] by (auto simp: timed_ok_def)
  ultimately show ?thesis using True by blast
next
  case False
  then have ok: "untimed_ok s t" for t using assms reach_untimed by simp
  have "noted (outs s t) r \<and> outs s t \<noteq> Some FPanic" if "pcs s t = Returned r" "started s t" for t r
    using ok [of t] that by (auto simp: untimed_ok_def started_def)
  moreover have "r = []" if "pcs s t = Returned r" "\<not> started s t" for t r
    using ok [of t] that by (auto simp: untimed_ok_def started_def)
  moreover have "outs s t = Some FPanic" if "pcs s t = Unwound" for t
    using ok [of t] that by (auto simp: untimed_ok_def)
  ultimately show ?thesis using False by blast
qed

text \<open>C8: \<open>TurnOff\<close> returns, and under a timeout even when the shutdown function never does. A run in
  which only the callers below \<open>k\<close> have called takes at most \<open>17 * k\<close> atomic actions. Let any functions
  be among those that never end (\<open>hangs\<close>): with a timeout, as long as some caller has not left \<open>TurnOff\<close>, an
  action other than the end of such a function is possible, so that no caller waits for it; without a
  timeout the same holds but for the one caller that is itself inside a function that never ends.
\<close>

theorem TurnOff_terminates:
  assumes "(turnoff_step timed ^^ n) NewStopper s" and "\<forall>t\<ge>k. pcs s t = NotCalled"
  shows "n \<le> 17 * k
       \<and> (can_move timed hangs s
          \<or> (\<forall>t. pcs s t = NotCalled \<or> ended_pc (pcs s t) \<or> stuck_in_f timed hangs s t))"
proof -
  have r: "stopper_reach timed s" using steps_bound [OF assms(1)] by blast
  have "n \<le> (\<Sum>t<k. caller_rank s t)" using steps_bound [OF assms(1)] assms(2) by blast
  also have "(\<Sum>t<k. caller_rank s t) \<le> 17 * k"
    using sum_bounded_above [of "{..<k}" "caller_rank s" 17] caller_rank_le by simp
  finally show ?thesis using caller_moves [OF r] by blast
qed

section \<open>Runs\<close>

text \<open>
  A caller that reaches the mutex first is led to the call of its function, and after the end of
  the function to its return, when the others do not move.
\<close>

definition stopping_by :: "bool \<Rightarrow> nat \<Rightarrow> stopper \<Rightarrow> stopper" where
  "stopping_by timed t s =
     goto (s\<lparr>state := stateStopping, mu := None\<rparr>) t (if timed then SpawnF else CallF)"

definition stopped_by :: "bool \<Rightarrow> nat \<Rightarrow> stopper \<Rightarrow> stopper" where
  "stopped_by p t s = goto (s\<lparr>state := stateStopped, stopped_closed := True\<rparr>) t (leave s t p)"

lemma step_eq: "turnoff_step timed s s' \<Longrightarrow> s' = s'' \<Longrightarrow> turnoff_step timed s s''"
  by simp

lemma run_to_stopping:
  assumes "pcs s t = LockMu" "mu s = None" "state s < stateStopping"
  shows "(turnoff_step timed)\<^sup>*\<^sup>* s (stopping_by timed t s)"
proof -
  let ?s1 = "goto (s\<lparr>mu := Some t\<rparr>) t LoadState"
  let ?s2 = "goto ?s1 t (CasStopping (state s))"
  let ?s3 = "goto (?s2\<lparr>state := stateStopping\<rparr>) t (UnlockMu True)"
  have "turnoff_step timed s ?s1" using assms by (intro lock) auto
  moreover have "turnoff_step timed ?s1 ?s2" using load [of ?s1 t] assms by simp
  moreover have "turnoff_step timed ?s2 ?s3" using cas_stopping [of ?s2 t] assms by simp
  moreover have "turnoff_step timed ?s3 (stopping_by timed t s)"
    using unlock [of ?s3 t _ timed] by (simp add: stopping_by_def goto_def)
  ultimately show ?thesis by (meson converse_rtranclp_into_rtranclp rtranclp.rtrancl_refl)
qed

lemma run_to_stopped:
  assumes "pcs s t = CasStopped p" "state s = stateStopping" "\<not> stopped_closed s"
  shows "(turnoff_step timed)\<^sup>*\<^sup>* s (stopped_by p t s)"
proof -
  let ?s1 = "goto (s\<lparr>state := stateStopped\<rparr>) t (CloseStopped p)"
  have "turnoff_step timed s ?s1" using cas_stopped [of s t p timed] assms by simp
  moreover have "turnoff_step timed ?s1 (stopped_by p t s)"
    by (rule step_eq [OF close_stopped [of _ _ p]])
      (use assms in \<open>auto simp: stopped_by_def leave_def goto_def\<close>)
  ultimately show ?thesis by (meson converse_rtranclp_into_rtranclp rtranclp.rtrancl_refl)
qed

definition ran_f :: "bool \<Rightarrow> nat \<Rightarrow> fout \<Rightarrow> stopper \<Rightarrow> stopper" where
  "ran_f timed t out s = goto (s\<lparr>gpcs := (gpcs s)(t := if timed then GDone else GNone),
     runs := (runs s)(t := 1), errs := (errs s)(t := ferrs out), outs := (outs s)(t := Some out)\<rparr>)
     t (CasStopped (\<not> timed \<and> out = FPanic))"

text \<open>The goroutine from the end of the function to \<open>close(done)\<close>, when nobody else writes \<open>err\<close>.\<close>

definition g_finished :: "nat \<Rightarrow> fout \<Rightarrow> stopper \<Rightarrow> stopper" where
  "g_finished t out s = s\<lparr>gpcs := (gpcs s)(t := GCloseDone), errs := (errs s)(t := errs s t @ ferrs out),
     outs := (outs s)(t := Some out)\<rparr>"

lemma run_g:
  assumes "gpcs s t = GRun"
  shows "(turnoff_step timed)\<^sup>*\<^sup>* s (g_finished t out s)"
proof -
  let ?s1 = "s\<lparr>gpcs := (gpcs s)(t := g_next out), outs := (outs s)(t := Some out)\<rparr>"
  have 1: "turnoff_step timed s ?s1" using assms by (rule g_end)
  show ?thesis
  proof (cases "\<exists>e. out = FRet (Some e)")
    case True
    then obtain e where e: "out = FRet (Some e)" by blast
    let ?s2 = "?s1\<lparr>gpcs := (gpcs s)(t := GWrite (errs s t @ [FErr e]))\<rparr>"
    have "turnoff_step timed ?s1 ?s2" using g_read [of ?s1 t "FErr e" timed] e by simp
    moreover have "turnoff_step timed ?s2 (g_finished t out s)"
      by (rule step_eq [OF g_write]) (use e in \<open>auto simp: g_finished_def\<close>)
    ultimately show ?thesis using 1 by (meson converse_rtranclp_into_rtranclp rtranclp.rtrancl_refl)
  next
    case False
    then have "g_next out = GCloseDone" "ferrs out = []" by (cases out rule: ferrs.cases; simp)+
    then have "?s1 = g_finished t out s" by (simp add: g_finished_def fun_upd_idem)
    with 1 show ?thesis by (metis r_into_rtranclp)
  qed
qed

lemma run_f:
  assumes "pcs s t = (if timed then SpawnF else CallF)" "gpcs s t = GNone" "runs s t = 0" "errs s t = []"
  shows "(turnoff_step timed)\<^sup>*\<^sup>* s (ran_f timed t out s)"
proof (cases timed)
  case True
  let ?s1 = "goto (s\<lparr>gpcs := (gpcs s)(t := GReady)\<rparr>) t SelectDone"
  let ?s2 = "?s1\<lparr>gpcs := (gpcs s)(t := GRun), runs := (runs s)(t := 1)\<rparr>"
  let ?s3 = "?s2\<lparr>gpcs := (gpcs s)(t := GCloseDone), errs := (errs s)(t := ferrs out),
    outs := (outs s)(t := Some out)\<rparr>"
  let ?s4 = "?s3\<lparr>gpcs := (gpcs s)(t := GDone)\<rparr>"
  have "turnoff_step timed s ?s1" using spawn [of s t timed] True assms by simp
  moreover have "turnoff_step timed ?s1 ?s2" using g_start [of ?s1 t timed] assms by simp
  moreover have "(turnoff_step timed)\<^sup>*\<^sup>* ?s2 ?s3"
    using run_g [of ?s2 t timed out] assms by (simp add: g_finished_def)
  moreover have "turnoff_step timed ?s3 ?s4" using g_close [of ?s3 t timed] by simp
  moreover have "turnoff_step timed ?s4 (ran_f timed t out s)"
    by (rule step_eq [OF select_done]) (use True in \<open>auto simp: ran_f_def goto_def\<close>)
  ultimately show ?thesis
    by (meson converse_rtranclp_into_rtranclp rtranclp.rtrancl_into_rtrancl)
next
  case False
  let ?s1 = "goto (s\<lparr>runs := (runs s)(t := 1)\<rparr>) t InF"
  have "turnoff_step timed s ?s1" using start_f [of s t timed] False assms by simp
  moreover have "turnoff_step timed ?s1 (ran_f timed t out s)"
    by (rule step_eq [OF end_f [of _ _ _ out]])
      (use False assms in \<open>auto simp: ran_f_def goto_def fun_upd_idem [of "gpcs s" t GNone]\<close>)
  ultimately show ?thesis by (meson converse_rtranclp_into_rtranclp rtranclp.rtrancl_refl)
qed

definition whole_run :: "bool \<Rightarrow> nat \<Rightarrow> fout \<Rightarrow> stopper \<Rightarrow> stopper" where
  "whole_run timed t out s =
     stopped_by (\<not> timed \<and> out = FPanic) t (ran_f timed t out (stopping_by timed t s))"

lemma whole_run:
  assumes "stopper_reach timed s" "pcs s t = LockMu" "mu s = None" "state s < stateStopping"
    "\<not> stopped_closed s" "gpcs s t = GNone" "runs s t = 0" "errs s t = []"
  shows "stopper_reach timed (whole_run timed t out s)"
proof -
  have "(turnoff_step timed)\<^sup>*\<^sup>* s (stopping_by timed t s)"
    using assms by (intro run_to_stopping)
  moreover have "(turnoff_step timed)\<^sup>*\<^sup>* (stopping_by timed t s) (ran_f timed t out (stopping_by timed t s))"
    by (rule run_f) (simp_all add: stopping_by_def assms)
  moreover have "(turnoff_step timed)\<^sup>*\<^sup>* (ran_f timed t out (stopping_by timed t s)) (whole_run timed t out s)"
    unfolding whole_run_def by (rule run_to_stopped) (simp_all add: ran_f_def stopping_by_def assms)
  ultimately show ?thesis
    using assms(1) unfolding stopper_reach_def by (meson rtranclp_trans)
qed

lemmas whole_run_defs = whole_run_def stopped_by_def ran_f_def stopping_by_def leave_def

text \<open>One caller at the mutex, whose trigger is closed.\<close>

definition at_mutex :: "stopper" where
  "at_mutex = goto (NewStopper\<lparr>state := stateTriggered, trigger_closed := True\<rparr>) 0 LockMu"

lemma at_mutex_reach: "stopper_reach timed at_mutex"
proof -
  let ?s1 = "goto NewStopper 0 CasTrigger"
  let ?s2 = "goto (?s1\<lparr>state := stateTriggered\<rparr>) 0 CloseTrigger"
  have "turnoff_step timed NewStopper ?s1" by (rule call) (simp add: NewStopper_def)
  moreover have "turnoff_step timed ?s1 ?s2" by (rule cas_trigger) (simp_all add: NewStopper_def)
  moreover have "turnoff_step timed ?s2 at_mutex"
    using close_trigger [of ?s2 0 timed] by (simp add: NewStopper_def at_mutex_def goto_def)
  ultimately show ?thesis unfolding stopper_reach_def
    by (meson converse_rtranclp_into_rtranclp rtranclp.rtrancl_refl)
qed

definition demo_run :: "bool \<Rightarrow> fout \<Rightarrow> stopper" where
  "demo_run timed out = whole_run timed 0 out at_mutex"

lemma demo_reach: "stopper_reach timed (demo_run timed out)"
  unfolding demo_run_def
  by (rule whole_run [OF at_mutex_reach]) (simp_all add: at_mutex_def NewStopper_def)

lemmas demo_defs = demo_run_def whole_run_defs at_mutex_def NewStopper_def

lemma demo_fields:
  "stopped_closed (demo_run timed out)" "outs (demo_run timed out) 0 = Some out"
  "pcs (demo_run timed out) 0 = (if \<not> timed \<and> out = FPanic then Unwound else Returned (ferrs out))"
  "started (demo_run timed out) 0"
  by (simp_all add: demo_defs started_def)

text \<open>
  A caller that made the transition to \<open>triggered\<close> and has not closed the channel yet, while
  another caller, for which the transition fails, is at the mutex.
\<close>

definition overtaken :: "stopper" where
  "overtaken = goto (goto (NewStopper\<lparr>state := stateTriggered\<rparr>) 1 CloseTrigger) 0 LockMu"

lemma overtaken_reach: "stopper_reach timed overtaken"
proof -
  let ?s1 = "goto NewStopper 1 CasTrigger"
  let ?s2 = "goto (?s1\<lparr>state := stateTriggered\<rparr>) 1 CloseTrigger"
  let ?s3 = "goto ?s2 0 CasTrigger"
  have "turnoff_step timed NewStopper ?s1" by (rule call) (simp add: NewStopper_def)
  moreover have "turnoff_step timed ?s1 ?s2" by (rule cas_trigger) (simp_all add: NewStopper_def)
  moreover have "turnoff_step timed ?s2 ?s3" by (rule call) (simp add: NewStopper_def)
  moreover have "turnoff_step timed ?s3 overtaken"
    by (rule step_eq [OF cas_trigger_fails [of _ 0]])
      (simp_all add: NewStopper_def overtaken_def goto_def)
  ultimately show ?thesis unfolding stopper_reach_def
    by (meson converse_rtranclp_into_rtranclp rtranclp.rtrancl_refl)
qed

theorem shutdown_runs_once_witness:
  "state (goto (demo_run True (FRet None)) 1 CasTrigger) \<le> stateStopped
   \<and> runs (goto (demo_run True (FRet None)) 1 CasTrigger) 0 \<le> 1"
proof -
  have "turnoff_step True (demo_run True (FRet None)) (goto (demo_run True (FRet None)) 1 CasTrigger)"
    by (rule call) (simp add: demo_defs)
  from shutdown_runs_once [OF demo_reach this] show ?thesis by blast
qed

theorem stopped_after_shutdown_witness:
  "state (demo_run False FPanic) = stateStopped \<and> OnStopping (demo_run False FPanic)"
  using stopped_after_shutdown [OF demo_reach [of False FPanic] demo_fields(1)] by blast

theorem TurnOff_result_witness:
  "pcs (demo_run False (FRet (Some 7))) 0 = Returned [FErr 7]
   \<and> noted (outs (demo_run False (FRet (Some 7))) 0) [FErr 7]"
  using TurnOff_result [OF demo_reach [of False "FRet (Some 7)"]] demo_fields(3,4) [of False "FRet (Some 7)"]
  by simp

text \<open>A caller whose function is running: in a goroutine under a timeout, or in the call itself.\<close>

definition running :: "bool \<Rightarrow> stopper" where
  "running timed = (let s = (stopping_by timed 0 at_mutex)\<lparr>runs := (\<lambda>_. 0)(0 := 1)\<rparr> in
     if timed then goto (s\<lparr>gpcs := (gpcs s)(0 := GRun)\<rparr>) 0 SelectDone else goto s 0 InF)"

lemma running_reach: "stopper_reach timed (running timed)"
proof -
  let ?s = "stopping_by timed 0 at_mutex"
  have "(turnoff_step timed)\<^sup>*\<^sup>* at_mutex ?s"
    by (rule run_to_stopping) (simp_all add: at_mutex_def NewStopper_def)
  moreover have "(turnoff_step timed)\<^sup>*\<^sup>* ?s (running timed)"
  proof (cases timed)
    case True
    let ?s1 = "goto (?s\<lparr>gpcs := (gpcs ?s)(0 := GReady)\<rparr>) 0 SelectDone"
    have "turnoff_step timed ?s ?s1" by (rule spawn) (simp add: stopping_by_def True)
    moreover have "turnoff_step timed ?s1 (running timed)"
      by (rule step_eq [OF g_start [of ?s1 0]])
        (use True in \<open>simp_all add: running_def goto_def stopping_by_def at_mutex_def NewStopper_def\<close>)
    ultimately show ?thesis by (meson converse_rtranclp_into_rtranclp rtranclp.rtrancl_refl)
  next
    case False
    have "turnoff_step timed ?s (running timed)"
      by (rule step_eq [OF start_f [of ?s 0]])
        (use False in \<open>simp_all add: running_def goto_def stopping_by_def at_mutex_def NewStopper_def\<close>)
    then show ?thesis by blast
  qed
  ultimately show ?thesis using at_mutex_reach [of timed]
    unfolding stopper_reach_def by (meson rtranclp_trans)
qed

lemmas running_defs = running_def stopping_by_def at_mutex_def NewStopper_def Let_def

lemma running_pcs:
  "pcs (running timed) = (\<lambda>_. NotCalled)(0 := if timed then SelectDone else InF)"
  by (simp add: running_defs)

theorem TurnOff_terminates_witness: "can_move True {0} (running True)"
proof -
  obtain n where n: "(turnoff_step True ^^ n) NewStopper (running True)"
    using running_reach [of True] unfolding stopper_reach_def by (auto dest: rtranclp_imp_relpowp)
  have "\<forall>t\<ge>1. pcs (running True) t = NotCalled" by (simp add: running_pcs)
  from TurnOff_terminates [OF n this, of "{0}"] show ?thesis
    by (auto simp: running_pcs stuck_in_f_def dest: spec [of _ 0])
qed

text \<open>Without a timeout a function that never returns does keep its caller for ever.\<close>

lemma untimed_hang_blocks: "\<not> can_move False {0} (running False)"
proof -
  have "\<not> turnoff_step False (running False) s'"
    if "\<forall>u. pcs s' u = NotCalled \<longleftrightarrow> pcs (running False) u = NotCalled" "outs s' 0 = outs (running False) 0" for s'
  proof
    assume "turnoff_step False (running False) s'"
    then show False using that
    proof cases
    qed (auto simp: running_defs split: if_splits)
  qed
  then show ?thesis by (auto simp: can_move_def)
qed

text \<open>
  The goroutine of the function and \<open>TurnOff\<close> write the result variable without a lock: there is a run in
  which the timeout fires between the two halves of \<open>errors.Join\<close>, and \<open>TurnOff\<close> returns the error of the
  function alone, the timeout lost, while \<open>done\<close> is not closed.
\<close>

theorem timeout_error_may_be_lost:
  "\<exists>s. stopper_reach True s \<and> pcs s 0 = Returned [FErr 7] \<and> gpcs s 0 \<noteq> GDone"
proof -
  let ?s0 = "running True"
  let ?s1 = "?s0\<lparr>gpcs := (gpcs ?s0)(0 := GRead (FErr 7)), outs := (outs ?s0)(0 := Some (FRet (Some 7)))\<rparr>"
  let ?s2 = "?s1\<lparr>gpcs := (gpcs ?s1)(0 := GWrite (errs ?s1 0 @ [FErr 7]))\<rparr>"
  let ?s3 = "goto (?s2\<lparr>errs := (errs ?s2)(0 := [TurnOffTimeout])\<rparr>) 0 (CasStopped False)"
  let ?s4 = "?s3\<lparr>gpcs := (gpcs ?s3)(0 := GCloseDone), errs := (errs ?s3)(0 := [FErr 7])\<rparr>"
  have f: "errs ?s0 0 = []" "state ?s0 = stateStopping" "\<not> stopped_closed ?s0"
    by (simp_all add: running_defs)
  have "turnoff_step True ?s0 ?s1"
    using g_end [of ?s0 0 True "FRet (Some 7)"] by (simp add: running_defs)
  moreover have "turnoff_step True ?s1 ?s2" by (rule g_read) simp
  moreover have "turnoff_step True ?s2 ?s3" by (rule select_timeout) (simp add: running_pcs)
  moreover have "turnoff_step True ?s3 ?s4" by (rule g_write) (simp add: f)
  moreover have "(turnoff_step True)\<^sup>*\<^sup>* ?s4 (stopped_by False 0 ?s4)"
    by (rule run_to_stopped) (simp_all add: f)
  ultimately have "(turnoff_step True)\<^sup>*\<^sup>* ?s0 (stopped_by False 0 ?s4)"
    by (meson converse_rtranclp_into_rtranclp)
  then have "stopper_reach True (stopped_by False 0 ?s4)"
    using running_reach [of True] unfolding stopper_reach_def by (meson rtranclp_trans)
  then show ?thesis by (intro exI conjI) (auto simp: stopped_by_def leave_def)
qed

text \<open>Under a timeout the function runs in a goroutine that recovers its panic: there is a run in
  which the shutdown function panics and \<open>TurnOff\<close> returns \<open>nil\<close>, with the stopper stopped.
\<close>

theorem timed_TurnOff_hides_panic:
  "\<exists>s. stopper_reach True s \<and> outs s 0 = Some FPanic \<and> pcs s 0 = Returned [] \<and> stopped_closed s"
  using demo_reach [of True FPanic] demo_fields [of True FPanic] by auto

text \<open>
  The two channels of the stopper may be closed in the other order: there is a run, with or
  without a timeout, in which \<open>WaitStopped\<close> is released, the function having run and its caller
  having returned, while \<open>StopTriggered\<close> is not released yet.
\<close>

theorem stopped_before_triggered:
  "\<exists>s. stopper_reach timed s \<and> stopped_closed s \<and> \<not> trigger_closed s \<and> pcs s 0 = Returned []"
proof -
  have "stopper_reach timed (whole_run timed 0 (FRet None) overtaken)"
    by (rule whole_run [OF overtaken_reach]) (simp_all add: overtaken_def NewStopper_def)
  then show ?thesis
    by (intro exI conjI) (auto simp: whole_run_defs overtaken_def NewStopper_def)
qed
end
