(* ===== verification/Stopper_Spec.thy ===== *)
theory Stopper_Spec
  imports Stopper_Runs
begin

text \<open>
  What the stopper of \<open>xsync/stopper.go\<close> promises its callers, as a small abstract system, and the proof
  that \<open>TurnOff\<close> with its atomics, channels, mutex and goroutine is an implementation of it.
\<close>

section \<open>The one-shot shutdown\<close>

text \<open>
  One caller becomes the owner of the shutdown; its function has an outcome; \<open>WaitStopped\<close> is
  released; and callers get answers, a value of \<open>err\<close> or the panic of the function.
\<close>

datatype answer = Answer "goerr list" | Panicked

record oneshot =
  owner :: "nat option"
  outcome :: "fout option"
  released :: bool
  answers :: "nat \<Rightarrow> answer option"

definition oneshot_init :: oneshot where
  "oneshot_init = \<lparr>owner = None, outcome = None, released = False, answers = \<lambda>_. None\<rparr>"

inductive oneshot_step :: "bool \<Rightarrow> oneshot \<Rightarrow> oneshot \<Rightarrow> bool" for timed where
  claim: "owner a = None \<Longrightarrow> oneshot_step timed a (a\<lparr>owner := Some t\<rparr>)"
| run: "owner a \<noteq> None \<Longrightarrow> outcome a = None \<Longrightarrow> oneshot_step timed a (a\<lparr>outcome := Some out\<rparr>)"
| release: "owner a \<noteq> None \<Longrightarrow> outcome a \<noteq> None \<or> timed \<Longrightarrow> oneshot_step timed a (a\<lparr>released := True\<rparr>)"
| refuse: "owner a = Some u \<Longrightarrow> u \<noteq> t \<Longrightarrow> answers a t = None \<Longrightarrow>
    oneshot_step timed a (a\<lparr>answers := (answers a)(t := Some (Answer []))\<rparr>)"
| reply: "owner a = Some t \<Longrightarrow> released a \<Longrightarrow> answers a t = None \<Longrightarrow> outcome a = Some out \<Longrightarrow> timed \<or> out \<noteq> FPanic \<Longrightarrow>
    oneshot_step timed a (a\<lparr>answers := (answers a)(t := Some (Answer (ferrs out)))\<rparr>)"
| panic: "owner a = Some t \<Longrightarrow> released a \<Longrightarrow> answers a t = None \<Longrightarrow> outcome a = Some FPanic \<Longrightarrow> \<not> timed \<Longrightarrow>
    oneshot_step timed a (a\<lparr>answers := (answers a)(t := Some Panicked)\<rparr>)"
| give_up: "owner a = Some t \<Longrightarrow> released a \<Longrightarrow> answers a t = None \<Longrightarrow> timed \<Longrightarrow> TurnOffTimeout \<in> set r \<Longrightarrow>
    oneshot_step timed a (a\<lparr>answers := (answers a)(t := Some (Answer r))\<rparr>)"

section \<open>Matching\<close>

text \<open>The caller that made the transition to \<open>stopping\<close>, told from its place.\<close>

definition winning :: "stopper \<Rightarrow> nat \<Rightarrow> bool" where
  "winning s t \<longleftrightarrow> stopping_pc (pcs s t) \<or> closing_pc (pcs s t) \<or> started s t"

fun answer_of :: "pc \<Rightarrow> answer option" where
  "answer_of (Returned r) = Some (Answer r)"
| "answer_of Unwound = Some Panicked"
| "answer_of _ = None"

definition matches_oneshot :: "stopper \<Rightarrow> oneshot \<Rightarrow> bool" where
  "matches_oneshot s a \<longleftrightarrow>
     (\<forall>t. owner a = Some t \<longleftrightarrow> winning s t)
   \<and> (\<forall>t. owner a = Some t \<longrightarrow> outcome a = outs s t) \<and> (owner a = None \<longrightarrow> outcome a = None)
   \<and> released a = stopped_closed s \<and> (\<forall>t. answers a t = answer_of (pcs s t))"

text \<open>A caller that lost the transition has seen that another made it.\<close>

definition mode_ok :: "bool \<Rightarrow> stopper \<Rightarrow> bool" where
  "mode_ok timed s \<longleftrightarrow> (\<forall>t. if timed then timed_ok s t else untimed_ok s t)
     \<and> (\<forall>t. pcs s t = UnlockMu False \<longrightarrow> stateStopping \<le> state s)"

lemma mode_init: "mode_ok timed NewStopper"
  by (simp add: mode_ok_def timed_ok_def untimed_ok_def NewStopper_def)

lemma mode_step:
  assumes "turnoff_step timed s s'" and "stopper_inv s" and "mode_ok timed s"
  shows "mode_ok timed s'"
proof -
  have "\<forall>t. if timed then timed_ok s' t else untimed_ok s' t"
  proof (cases timed)
    case True
    then show ?thesis using timed_step [of s s'] assms(1,3) by (simp add: mode_ok_def)
  next
    case False
    then show ?thesis using untimed_step [of s s'] assms(1,3) by (simp add: mode_ok_def)
  qed
  moreover have "stateStopping \<le> state s'" if u: "pcs s' u = UnlockMu False" for u
  proof -
    obtain c w where ok: "\<And>t. caller_ok s c w t" using assms(2) by (auto simp: stopper_inv_def)
    have mono: "state s \<le> state s'" using state_mono [OF assms(1,2)] .
    from assms(1) show ?thesis
    proof cases
      case (load t)
      then show ?thesis using u assms(3) mono by (cases "u = t") (auto simp: mode_ok_def split: if_splits)
    next
      case (cas_stopping t cur)
      then have "state s = cur" using ok [of t] by (auto simp: caller_ok_def)
      then show ?thesis using cas_stopping u by simp
    qed (use u assms(3) mono in \<open>auto simp: mode_ok_def leave_def split: if_splits\<close>)
  qed
  ultimately show ?thesis by (simp add: mode_ok_def)
qed

text \<open>The winner of the invariant is the caller that its place shows.\<close>

lemma winner:
  assumes "shared_ok s c w" and "\<And>t. caller_ok s c w t"
  shows "winning s t \<longleftrightarrow> w = Some t"
proof -
  have "fresh_pc p \<Longrightarrow> \<not> ended_pc p" for p by (cases p) simp_all
  then show ?thesis using assms(2) [of t] by (auto simp: winning_def caller_ok_def)
qed

section \<open>The simulation\<close>

text \<open>What a step may change that the specification sees: nothing, one caller's place, or more.\<close>

lemma matches_sameI:
  assumes "matches_oneshot s a" and "\<And>t. winning s' t = winning s t" and "\<And>t. winning s t \<Longrightarrow> outs s' t = outs s t"
    and "stopped_closed s' = stopped_closed s" and "\<And>t. answer_of (pcs s' t) = answer_of (pcs s t)"
  shows "\<exists>b. (oneshot_step timed)\<^sup>*\<^sup>* a b \<and> matches_oneshot s' b"
  using assms unfolding matches_oneshot_def by (intro exI [of _ a]) simp

lemma mode_at:
  assumes "mode_ok timed s"
  shows "timed \<Longrightarrow> timed_ok s t" and "\<not> timed \<Longrightarrow> untimed_ok s t"
    and "pcs s t = UnlockMu False \<Longrightarrow> stateStopping \<le> state s"
  using assms by (auto simp: mode_ok_def split: if_splits)

lemma no_outcome_yet:
  assumes "mode_ok timed s" and "pcs s t \<in> {CasStopping cur, InF} \<or> gpcs s t = GRun"
  shows "outs s t = None"
proof (cases timed)
  case True
  then show ?thesis using mode_at(1) [OF assms(1) True, of t] assms(2) by (auto simp: timed_ok_def)
next
  case False
  then show ?thesis using mode_at(2) [OF assms(1) False, of t] assms(2) by (auto simp: untimed_ok_def)
qed

text \<open>The end of the owner's call, with what its answer is.\<close>

lemma close_stopped_answer:
  assumes "mode_ok timed s" and "pcs s t = CloseStopped p"
  shows "(\<exists>out. outs s t = Some out \<and> errs s t = ferrs out \<and> (p \<longleftrightarrow> \<not> timed \<and> out = FPanic) \<and> (timed \<or> p \<or> out \<noteq> FPanic))
    \<or> timed \<and> \<not> p \<and> TurnOffTimeout \<in> set (errs s t)"
proof (cases timed)
  case True
  then show ?thesis using mode_at(1) [OF assms(1) True, of t] assms(2)
    by (cases "outs s t") (auto simp: timed_ok_def reported_def)
next
  case False
  then show ?thesis using mode_at(2) [OF assms(1) False, of t] assms(2)
    by (cases "outs s t") (auto simp: untimed_ok_def)
qed

lemma oneshot_simulates:
  assumes step: "turnoff_step timed s s'" and inv: "stopper_inv s" and mode: "mode_ok timed s"
    and m: "matches_oneshot s a"
  shows "\<exists>b. (oneshot_step timed)\<^sup>*\<^sup>* a b \<and> matches_oneshot s' b"
proof -
  obtain c w where sh: "shared_ok s c w" and ok: "\<And>t. caller_ok s c w t" using inv by (auto simp: stopper_inv_def)
  note win = winner [OF sh ok]
  have own: "owner a = w" using m win by (cases w; cases "owner a") (auto simp: matches_oneshot_def)
  have out: "outcome a = (case w of None \<Rightarrow> None | Some t \<Rightarrow> outs s t)"
    using m own by (cases w) (simp_all add: matches_oneshot_def)
  have rel: "released a = stopped_closed s" and ans: "\<And>t. answers a t = answer_of (pcs s t)"
    using m by (simp_all add: matches_oneshot_def)
  note same = matches_sameI [OF m]
  note me = ok [unfolded caller_ok_def]
  from step show ?thesis
  proof cases
    case (call t)
    show ?thesis by (rule same) (use call in \<open>auto simp: winning_def started_def\<close>)
  next
    case (cas_trigger t)
    show ?thesis by (rule same) (use cas_trigger in \<open>auto simp: winning_def started_def\<close>)
  next
    case (cas_trigger_fails t)
    show ?thesis by (rule same) (use cas_trigger_fails in \<open>auto simp: winning_def started_def\<close>)
  next
    case (close_trigger t)
    then have "\<not> trigger_closed s" using me [of t] by simp
    show ?thesis by (rule same) (use close_trigger \<open>\<not> trigger_closed s\<close> in \<open>auto simp: winning_def started_def\<close>)
  next
    case (lock t)
    show ?thesis by (rule same) (use lock in \<open>auto simp: winning_def started_def\<close>)
  next
    case (load t)
    show ?thesis by (rule same) (use load in \<open>auto simp: winning_def started_def\<close>)
  next
    case (cas_stopping t cur)
    then have cur: "state s = cur" "w = None" using me [of t] sh by (auto simp: shared_ok_def)
    have "oneshot_step timed a (a\<lparr>owner := Some t\<rparr>)" using own cur by (simp add: claim)
    moreover have "matches_oneshot s' (a\<lparr>owner := Some t\<rparr>)"
      using win cur cas_stopping no_outcome_yet [OF mode, of t cur] out rel ans
      by (auto simp: matches_oneshot_def winning_def started_def)
    ultimately show ?thesis by blast
  next
    case (unlock t won)
    show ?thesis
    proof (cases won)
      case True
      show ?thesis by (rule same) (use unlock True in \<open>auto simp: winning_def started_def\<close>)
    next
      case False
      then have "stateStopping \<le> state s" "w \<noteq> Some t"
        using mode_at(3) [OF mode] unlock me [of t] by auto
      then obtain u where u: "w = Some u" "u \<noteq> t" using sh by (auto simp: shared_ok_def)
      have "oneshot_step timed a (a\<lparr>answers := (answers a)(t := Some (Answer []))\<rparr>)"
        using own u ans unlock by (intro refuse [of _ u]) simp_all
      moreover have "matches_oneshot s' (a\<lparr>answers := (answers a)(t := Some (Answer []))\<rparr>)"
        using m unlock False by (auto simp: matches_oneshot_def winning_def started_def)
      ultimately show ?thesis by blast
    qed
  next
    case (start_f t)
    then have "winning s t" using me [of t] win by simp
    show ?thesis by (rule same) (use start_f \<open>winning s t\<close> in \<open>auto simp: winning_def started_def\<close>)
  next
    case (end_f t out)
    then have w: "w = Some t" using me [of t] by simp
    have "oneshot_step timed a (a\<lparr>outcome := Some out\<rparr>)"
      using own w out no_outcome_yet [OF mode, of t] end_f by (intro run) simp_all
    moreover have "matches_oneshot s' (a\<lparr>outcome := Some out\<rparr>)"
      using m own w end_f by (auto simp: matches_oneshot_def winning_def started_def)
    ultimately show ?thesis by blast
  next
    case (spawn t)
    then have "winning s t" using me [of t] win by simp
    show ?thesis by (rule same) (use spawn \<open>winning s t\<close> in \<open>auto simp: winning_def started_def\<close>)
  next
    case (g_start t)
    show ?thesis by (rule same) (use g_start in \<open>auto simp: winning_def started_def\<close>)
  next
    case (g_end t out)
    then have w: "w = Some t" using me [of t] by (simp add: started_def)
    have "oneshot_step timed a (a\<lparr>outcome := Some out\<rparr>)"
      using own w no_outcome_yet [OF mode, of t] g_end out by (intro run) simp_all
    moreover have "matches_oneshot s' (a\<lparr>outcome := Some out\<rparr>)"
      using m own w g_end by (auto simp: matches_oneshot_def winning_def started_def)
    ultimately show ?thesis by blast
  next
    case (g_read t e)
    show ?thesis by (rule same) (use g_read in \<open>auto simp: winning_def started_def\<close>)
  next
    case (g_write t es)
    show ?thesis by (rule same) (use g_write in \<open>auto simp: winning_def started_def\<close>)
  next
    case (g_close t)
    show ?thesis by (rule same) (use g_close in \<open>auto simp: winning_def started_def\<close>)
  next
    case (select_done t)
    show ?thesis by (rule same) (use select_done in \<open>auto simp: winning_def started_def\<close>)
  next
    case (select_timeout t)
    show ?thesis by (rule same) (use select_timeout in \<open>auto simp: winning_def started_def\<close>)
  next
    case (cas_stopped t p)
    then have "state s = stateStopping" using me [of t] by simp
    show ?thesis by (rule same) (use cas_stopped \<open>state s = stateStopping\<close> in \<open>auto simp: winning_def started_def\<close>)
  next
    case (close_stopped t p)
    then have w: "w = Some t" "\<not> stopped_closed s" using me [of t] by simp_all
    let ?b = "a\<lparr>released := True\<rparr>" and ?an = "if p then Panicked else Answer (errs s t)"
    note an = close_stopped_answer [OF mode close_stopped(2)]
    have "oneshot_step timed a ?b" using own w an out by (intro release) auto
    moreover have "oneshot_step timed ?b (?b\<lparr>answers := (answers ?b)(t := Some ?an)\<rparr>)"
      using an
    proof
      assume "\<exists>out. outs s t = Some out \<and> errs s t = ferrs out \<and> (p \<longleftrightarrow> \<not> timed \<and> out = FPanic) \<and> (timed \<or> p \<or> out \<noteq> FPanic)"
      then obtain o' where o': "outs s t = Some o'" "errs s t = ferrs o'" "p \<longleftrightarrow> \<not> timed \<and> o' = FPanic" "timed \<or> p \<or> o' \<noteq> FPanic"
        by blast
      show ?thesis
      proof (cases p)
        case True
        then have "\<not> timed" "o' = FPanic" using o'(3) by simp_all
          then show ?thesis using True own w o'(1) out ans close_stopped panic [of ?b t timed] by simp
      next
        case False
        then have "timed \<or> o' \<noteq> FPanic" using o'(3) by simp
          then show ?thesis using False own w o'(1,2) out ans close_stopped(2) reply [of ?b t o' timed] by simp
      qed
    next
      assume "timed \<and> \<not> p \<and> TurnOffTimeout \<in> set (errs s t)"
      then show ?thesis using own w ans close_stopped give_up [of ?b t timed "errs s t"] by simp
    qed
    moreover have "matches_oneshot s' (?b\<lparr>answers := (answers ?b)(t := Some ?an)\<rparr>)"
      using m w close_stopped own me [of t] by (auto simp: matches_oneshot_def winning_def started_def leave_def)
    ultimately show ?thesis by (meson converse_rtranclp_into_rtranclp rtranclp.rtrancl_refl)
  qed
qed

interpretation shutdown: simulation "\<lambda>s. s = NewStopper" "turnoff_step timed"
    "\<lambda>s. stopper_inv s \<and> mode_ok timed s" "\<lambda>a. a = oneshot_init" "oneshot_step timed" matches_oneshot
  for timed
proof
  show "\<exists>a. a = oneshot_init \<and> matches_oneshot s a" if "s = NewStopper" for s
    using that by (simp add: matches_oneshot_def oneshot_init_def winning_def started_def NewStopper_def)
qed (use stopper_init stopper_step mode_init mode_step oneshot_simulates in blast)+

section \<open>What the specification shows\<close>

text \<open>An answer is given for a shutdown that somebody owns, and one that is not \<open>nil\<close> only once it is released.\<close>

definition answers_ok :: "bool \<Rightarrow> oneshot \<Rightarrow> bool" where
  "answers_ok timed a \<longleftrightarrow>
     (outcome a \<noteq> None \<or> released a \<longrightarrow> owner a \<noteq> None)
   \<and> (released a \<and> \<not> timed \<longrightarrow> outcome a \<noteq> None)
   \<and> (\<forall>t r. answers a t = Some r \<longrightarrow> owner a \<noteq> None
        \<and> (if owner a = Some t then released a \<and> (r = Panicked \<longrightarrow> \<not> timed) else r = Answer []))"

lemma answers_ok_init: "answers_ok timed oneshot_init"
  by (simp add: answers_ok_def oneshot_init_def)

lemma answers_ok_step: "oneshot_step timed a b \<Longrightarrow> answers_ok timed a \<Longrightarrow> answers_ok timed b"
  by (induction rule: oneshot_step.induct) (auto simp: answers_ok_def split: if_splits)

lemma stopper_matches:
  assumes "stopper_reach timed s"
  shows "\<exists>a. (oneshot_step timed)\<^sup>*\<^sup>* oneshot_init a \<and> matches_oneshot s a \<and> answers_ok timed a"
proof -
  obtain a where a: "(oneshot_step timed)\<^sup>*\<^sup>* oneshot_init a" "matches_oneshot s a"
    using shutdown.simulated [of NewStopper timed s] assms by (auto simp: stopper_reach_def)
  from a(1) have "answers_ok timed a"
    by (induction rule: rtranclp_induct) (use answers_ok_init answers_ok_step in blast)+
  with a show ?thesis by blast
qed

section \<open>Property\<close>

text \<open>C6: \<open>TurnOff\<close>, with its atomic state, mutex, channels and goroutines, implements a one-shot
  shutdown: every state that an interleaving of any number of callers reaches is matched by a state
  that the specification reaches, with the same owner, outcome, release and answers. There, an
  answer other than \<open>nil\<close> or a panic goes only to the owner and only after the release, a caller
  that is not the owner gets \<open>nil\<close>, and without a timeout the release waits for the outcome.
\<close>

theorem TurnOff_refines_oneshot:
  assumes "stopper_reach timed s"
  shows "\<exists>a. (oneshot_step timed)\<^sup>*\<^sup>* oneshot_init a \<and> matches_oneshot s a \<and> answers_ok timed a"
  by (rule stopper_matches [OF assms])

theorem TurnOff_refines_oneshot_witness:
  "\<exists>a. (oneshot_step False)\<^sup>*\<^sup>* oneshot_init a \<and> released a \<and> outcome a = Some FPanic
     \<and> owner a = Some 0 \<and> answers a 0 = Some Panicked \<and> answers a 1 = None"
proof -
  let ?s = "demo_run False FPanic"
  obtain a where a: "(oneshot_step False)\<^sup>*\<^sup>* oneshot_init a" "matches_oneshot ?s a"
    using TurnOff_refines_oneshot [OF demo_reach [of False FPanic]] by blast
  have "owner a = Some 0" using a(2) demo_fields(4) [of False FPanic] by (simp add: matches_oneshot_def winning_def)
  moreover have "pcs ?s 1 = NotCalled" by (simp add: demo_defs)
  ultimately show ?thesis using a demo_fields [of False FPanic] by (auto simp: matches_oneshot_def)
qed

end
