(* ===== verification/Stopper_Go_Model.thy ===== *)
theory Stopper_Go_Model
  imports Transition_Iface
begin

text \<open>
  The goroutines of a stopper (\<open>Go\<close>, \<open>GoWaitStop\<close> and \<open>GoAndStop\<close> of \<open>xsync/stopper.go\<close>). The first
  worker that ends triggers the inner stop; a waiter runs its stop function after that and, when
  the stopper is final, after the wait group of the workers is empty. Workers and waiters are
  numbered; a step is one atomic action of one of them, in any order.
\<close>

section \<open>State\<close>

datatype stopType = stopTypeQuick | stopTypeFinal

text \<open>
  A worker: not there, spawned (\<open>go\<close> was executed, the goroutine has not run), running its
  function, before the deferred \<open>Done\<close>, before the deferred \<open>Once.Do\<close>, ended. The function ends
  by a return or a panic, after which the deferred actions run alike. A call of \<open>WaitGroup.Add\<close> that brings
  the counter to 0 while there are waiters has more to do: \<open>WCheck\<close> is before it looks at the state of the
  group again, \<open>WStore\<close> before it clears the state and releases the waiters; the flag says that it was
  \<open>Add(1)\<close> and not \<open>Done\<close>.
\<close>

datatype wpc = WNone | WSpawned | WRun | WDone | WCheck bool nat | WStore bool nat | WTrigger | WEnd

text \<open>
  A waiter: not there, waiting for the trigger, calling \<open>Wait\<close>, counted and blocked in it, past the semaphore,
  in its stop function, ended; or ended by a panic of \<open>Wait\<close>, which the recover of \<open>Go\<close> catches, so
  that the stop function is not called.
\<close>

datatype waitpc = VNone | VTrigger | VGroup | VBlocked | VWoken | VStop | VEnd | VLost

text \<open>
  The wait group is its counter (the goroutines are fewer than \<open>2^31\<close>), its number of waiters and its
  semaphore. The last three fields are not read by any step: \<open>twice_closed\<close> is set when a closed channel is
  closed, \<open>below_zero\<close> and \<open>misused\<close> when a call of \<open>Add\<close> panics, for a negative counter or with
  \<open>WaitGroup misuse: Add called concurrently with Wait\<close>.
\<close>

record inner =
  stop_type :: stopType
  inner_closed :: bool
  inner_once :: bool
  inner_wg :: int
  wg_waiters :: nat
  wg_sema :: nat
  workers :: "nat \<Rightarrow> wpc"
  waiters :: "nat \<Rightarrow> waitpc"
  twice_closed :: bool
  below_zero :: bool
  misused :: bool

definition inner_init :: "stopType \<Rightarrow> inner" where
  "inner_init ty = \<lparr>stop_type = ty, inner_closed = False, inner_once = False, inner_wg = 0,
     wg_waiters = 0, wg_sema = 0, workers = \<lambda>_. WNone, waiters = \<lambda>_. VNone,
     twice_closed = False, below_zero = False, misused = False\<rparr>"

definition set_worker :: "nat \<Rightarrow> wpc \<Rightarrow> inner \<Rightarrow> inner" where
  "set_worker i p s = s\<lparr>workers := (workers s)(i := p)\<rparr>"

definition set_waiter :: "nat \<Rightarrow> waitpc \<Rightarrow> inner \<Rightarrow> inner" where
  "set_waiter i p s = s\<lparr>waiters := (waiters s)(i := p)\<rparr>"

lemma inner_fields [simp]:
  "workers (set_worker i p s) = (workers s)(i := p)" "waiters (set_worker i p s) = waiters s"
  "inner_wg (set_worker i p s) = inner_wg s" "inner_once (set_worker i p s) = inner_once s"
  "wg_waiters (set_worker i p s) = wg_waiters s" "wg_sema (set_worker i p s) = wg_sema s"
  "inner_closed (set_worker i p s) = inner_closed s" "stop_type (set_worker i p s) = stop_type s"
  "twice_closed (set_worker i p s) = twice_closed s" "below_zero (set_worker i p s) = below_zero s"
  "misused (set_worker i p s) = misused s"
  "waiters (set_waiter i q s) = (waiters s)(i := q)" "workers (set_waiter i q s) = workers s"
  "inner_wg (set_waiter i q s) = inner_wg s" "inner_once (set_waiter i q s) = inner_once s"
  "wg_waiters (set_waiter i q s) = wg_waiters s" "wg_sema (set_waiter i q s) = wg_sema s"
  "inner_closed (set_waiter i q s) = inner_closed s" "stop_type (set_waiter i q s) = stop_type s"
  "twice_closed (set_waiter i q s) = twice_closed s" "below_zero (set_waiter i q s) = below_zero s"
  "misused (set_waiter i q s) = misused s"
  by (simp_all add: set_worker_def set_waiter_def)

text \<open>
  \<open>WaitGroup.Add\<close> up to its end or to the second look at the state: the new counter, and whether the call
  panics, returns, or has to release the waiters. \<open>Done\<close> is \<open>Add(-1)\<close>.
\<close>

datatype add_result = AddReturns | AddNegative | AddMisuse | AddReleases nat

definition wg_add :: "int \<Rightarrow> inner \<Rightarrow> inner \<times> add_result" where
  "wg_add delta s = (let v = inner_wg s + delta; w = wg_waiters s in
     (s\<lparr>inner_wg := v\<rparr>,
      if v < 0 then AddNegative
      else if w \<noteq> 0 \<and> 0 < delta \<and> v = delta then AddMisuse
      else if 0 < v \<or> w = 0 then AddReturns
      else AddReleases w))"

text \<open>
  Where a worker goes on after its call of \<open>Add(1)\<close> (to its function) or \<open>Done\<close> (to \<open>Once.Do\<close>). A panic of
  \<open>Add(1)\<close> comes before \<open>Done\<close> is deferred; it and a panic of \<open>Done\<close> leave \<open>Once.Do\<close>, deferred first.
\<close>

definition after_add :: "bool \<Rightarrow> wpc" where
  "after_add adding = (if adding then WRun else WTrigger)"

definition call_add :: "bool \<Rightarrow> nat \<Rightarrow> inner \<Rightarrow> inner" where
  "call_add adding i s = (case wg_add (if adding then 1 else - 1) s of (s', r) \<Rightarrow>
     (case r of
        AddReturns \<Rightarrow> set_worker i (after_add adding) s'
      | AddReleases w \<Rightarrow> set_worker i (WCheck adding w) s'
      | AddNegative \<Rightarrow> set_worker i WTrigger (s'\<lparr>below_zero := True\<rparr>)
      | AddMisuse \<Rightarrow> set_worker i WTrigger (s'\<lparr>misused := True\<rparr>)))"

text \<open>\<open>innerStopTriggerOnce.Do(close(innerStopTrigger))\<close>; closing a closed channel panics.\<close>

definition once_trigger :: "inner \<Rightarrow> inner" where
  "once_trigger s = (if inner_once s then s
     else s\<lparr>inner_once := True, inner_closed := True, twice_closed := twice_closed s \<or> inner_closed s\<rparr>)"

section \<open>Steps\<close>

text \<open>
  The second half of \<open>Add\<close> panics when the state of the group is not the one it left; else it clears the
  state (\<open>wg.state.Store(0)\<close>, whatever has come in since) and releases as many waiters as it saw. \<open>Wait\<close>
  returns at once when the counter is 0, and else counts itself and blocks on the semaphore. A waiter that
  passed the semaphore panics (\<open>WaitGroup is reused before previous Wait has returned\<close>) when the
  state is not 0 by the time it runs again.
\<close>

inductive inner_step :: "inner \<Rightarrow> inner \<Rightarrow> bool" where
  go: "workers s i = WNone \<Longrightarrow> inner_step s (set_worker i WSpawned s)"
| start: "workers s i = WSpawned \<Longrightarrow>
    inner_step s (if stop_type s = stopTypeFinal then call_add True i s else set_worker i WRun s)"
| finish: "workers s i = WRun \<Longrightarrow>
    inner_step s (set_worker i (if stop_type s = stopTypeFinal then WDone else WTrigger) s)"
| wg_done: "workers s i = WDone \<Longrightarrow> inner_step s (call_add False i s)"
| add_check: "workers s i = WCheck adding w \<Longrightarrow>
    inner_step s (if inner_wg s = 0 \<and> wg_waiters s = w then set_worker i (WStore adding w) s
                  else set_worker i WTrigger (s\<lparr>misused := True\<rparr>))"
| add_release: "workers s i = WStore adding w \<Longrightarrow>
    inner_step s (set_worker i (after_add adding) (s\<lparr>inner_wg := 0, wg_waiters := 0, wg_sema := wg_sema s + w\<rparr>))"
| trigger: "workers s i = WTrigger \<Longrightarrow> inner_step s (set_worker i WEnd (once_trigger s))"
| go_wait: "waiters s j = VNone \<Longrightarrow> inner_step s (set_waiter j VTrigger s)"
| triggered: "waiters s j = VTrigger \<Longrightarrow> inner_closed s \<Longrightarrow>
    inner_step s (set_waiter j (if stop_type s = stopTypeFinal then VGroup else VStop) s)"
| wait: "waiters s j = VGroup \<Longrightarrow>
    inner_step s (if inner_wg s = 0 then set_waiter j VStop s
                  else set_waiter j VBlocked (s\<lparr>wg_waiters := wg_waiters s + 1\<rparr>))"
| acquire: "waiters s j = VBlocked \<Longrightarrow> 0 < wg_sema s \<Longrightarrow>
    inner_step s (set_waiter j VWoken (s\<lparr>wg_sema := wg_sema s - 1\<rparr>))"
| woken: "waiters s j = VWoken \<Longrightarrow>
    inner_step s (set_waiter j (if inner_wg s = 0 \<and> wg_waiters s = 0 then VStop else VLost) s)"
| stopped: "waiters s j = VStop \<Longrightarrow> inner_step s (set_waiter j VEnd s)"

text \<open>\<open>GoAndStop\<close> spawns the waiter, then the worker.\<close>

definition GoAndStop :: "nat \<Rightarrow> nat \<Rightarrow> inner \<Rightarrow> inner" where
  "GoAndStop i j s = set_worker i WSpawned (set_waiter j VTrigger s)"

lemma GoAndStop_steps:
  assumes "workers s i = WNone" and "waiters s j = VNone"
  shows "inner_step\<^sup>*\<^sup>* s (GoAndStop i j s)"
proof -
  have "inner_step s (set_waiter j VTrigger s)" using assms(2) by (rule go_wait)
  moreover have "inner_step (set_waiter j VTrigger s) (GoAndStop i j s)"
    using go [of "set_waiter j VTrigger s" i] assms(1) by (simp add: GoAndStop_def)
  ultimately show ?thesis by (meson converse_rtranclp_into_rtranclp rtranclp.rtrancl_refl)
qed

section \<open>The invariant\<close>

definition busy :: "inner \<Rightarrow> nat set" where
  "busy s = {i. workers s i = WRun \<or> workers s i = WDone}"

definition blocked :: "inner \<Rightarrow> nat set" where
  "blocked s = {j. waiters s j = VBlocked}"

fun releasing :: "wpc \<Rightarrow> bool" where
  "releasing (WCheck _ _) = True"
| "releasing (WStore _ _) = True"
| "releasing _ = False"

definition some_ended :: "inner \<Rightarrow> bool" where
  "some_ended s \<longleftrightarrow> (\<exists>i. workers s i = WEnd)"

definition past_trigger :: "inner \<Rightarrow> nat \<Rightarrow> bool" where
  "past_trigger s j \<longleftrightarrow> waiters s j \<notin> {VNone, VTrigger}"

text \<open>The trigger: closed once, by the first worker that ends, and nobody is past it before.\<close>

definition trigger_inv :: "inner \<Rightarrow> bool" where
  "trigger_inv s \<longleftrightarrow> inner_closed s = inner_once s \<and> inner_closed s = some_ended s
     \<and> (\<forall>j. past_trigger s j \<longrightarrow> inner_closed s) \<and> \<not> twice_closed s"

text \<open>
  The wait group, while it has not been misused: the counter counts the workers between \<open>Add\<close> and
  \<open>Done\<close>, at most one worker is releasing, and it has seen all there is; a blocked waiter is counted or has
  its turn at the semaphore.
\<close>

definition one_releasing :: "inner \<Rightarrow> bool" where
  "one_releasing s \<longleftrightarrow>
     (\<forall>i. releasing (workers s i) \<longrightarrow> inner_wg s = 0 \<and> 0 < wg_waiters s
        \<and> workers s i \<in> {WCheck False (wg_waiters s), WStore False (wg_waiters s)})
   \<and> (\<forall>i k. releasing (workers s i) \<longrightarrow> releasing (workers s k) \<longrightarrow> i = k)
   \<and> (0 < wg_waiters s \<longrightarrow> inner_wg s \<noteq> 0 \<or> (\<exists>i. releasing (workers s i)))"

definition group_inv :: "inner \<Rightarrow> bool" where
  "group_inv s \<longleftrightarrow> finite (busy s)
     \<and> inner_wg s = (if stop_type s = stopTypeFinal then int (card (busy s)) else 0)
     \<and> (stop_type s = stopTypeQuick \<longrightarrow> (\<forall>i. workers s i \<noteq> WDone) \<and> (\<forall>j. waiters s j \<notin> {VGroup, VBlocked}))
     \<and> one_releasing s
     \<and> finite (blocked s) \<and> card (blocked s) = wg_waiters s + wg_sema s
     \<and> \<not> below_zero s"

definition inner_inv :: "inner \<Rightarrow> bool" where
  "inner_inv s \<longleftrightarrow> trigger_inv s \<and> (misused s \<or> group_inv s)"

lemma inner_inv_init: "inner_inv (inner_init ty)"
  by (simp add: inner_inv_def trigger_inv_def group_inv_def one_releasing_def inner_init_def
      busy_def blocked_def past_trigger_def some_ended_def)

text \<open>What the actions do to the fields.\<close>

lemma once_trigger_fields [simp]:
  "workers (once_trigger s) = workers s" "waiters (once_trigger s) = waiters s"
  "inner_wg (once_trigger s) = inner_wg s" "wg_waiters (once_trigger s) = wg_waiters s"
  "wg_sema (once_trigger s) = wg_sema s" "inner_once (once_trigger s)"
  "inner_closed (once_trigger s) \<longleftrightarrow> inner_closed s \<or> \<not> inner_once s"
  "stop_type (once_trigger s) = stop_type s" "below_zero (once_trigger s) = below_zero s"
  "misused (once_trigger s) = misused s"
  "twice_closed (once_trigger s) \<longleftrightarrow> twice_closed s \<or> \<not> inner_once s \<and> inner_closed s"
  by (auto simp: once_trigger_def)

definition added :: "bool \<Rightarrow> bool \<Rightarrow> bool \<Rightarrow> inner \<Rightarrow> inner" where
  "added adding bz mu s = s\<lparr>inner_wg := inner_wg s + (if adding then 1 else - 1), below_zero := bz, misused := mu\<rparr>"

lemma added_fields [simp]:
  "workers (added a b c s) = workers s" "waiters (added a b c s) = waiters s"
  "inner_wg (added a b c s) = inner_wg s + (if a then 1 else - 1)" "wg_waiters (added a b c s) = wg_waiters s"
  "wg_sema (added a b c s) = wg_sema s" "inner_once (added a b c s) = inner_once s"
  "inner_closed (added a b c s) = inner_closed s" "stop_type (added a b c s) = stop_type s"
  "twice_closed (added a b c s) = twice_closed s" "below_zero (added a b c s) = b"
  "misused (added a b c s) = c"
  by (simp_all add: added_def)

definition add_goes :: "bool \<Rightarrow> inner \<Rightarrow> wpc" where
  "add_goes adding s = (let v = inner_wg s + (if adding then 1 else - 1); w = wg_waiters s in
     if v < 0 \<or> w \<noteq> 0 \<and> adding \<and> v = 1 then WTrigger
     else if 0 < v \<or> w = 0 then after_add adding else WCheck adding w)"

lemma call_add_eq:
  "call_add adding i s = set_worker i (add_goes adding s)
     (added adding (below_zero s \<or> inner_wg s + (if adding then 1 else - 1) < 0)
        (misused s \<or> wg_waiters s \<noteq> 0 \<and> adding \<and> inner_wg s = 0) s)"
  by (cases s; cases adding) (simp_all add: call_add_def wg_add_def added_def add_goes_def Let_def set_worker_def)

lemma add_goes_not_end [simp]: "add_goes adding s \<noteq> WEnd"
  by (simp add: add_goes_def Let_def after_add_def)

lemma trigger_call_add:
  assumes "trigger_inv s" and "workers s i \<noteq> WEnd"
  shows "trigger_inv (call_add adding i s)"
  using assms by (auto simp: call_add_eq trigger_inv_def some_ended_def past_trigger_def)

lemma trigger_worker:
  "trigger_inv s \<Longrightarrow> workers s i \<noteq> WEnd \<Longrightarrow> p \<noteq> WEnd \<Longrightarrow> trigger_inv (set_worker i p s)"
  by (auto simp: trigger_inv_def some_ended_def past_trigger_def)

lemma trigger_waiter:
  "trigger_inv s \<Longrightarrow> q \<in> {VNone, VTrigger} \<or> inner_closed s \<Longrightarrow> trigger_inv (set_waiter j q s)"
  by (auto simp: trigger_inv_def some_ended_def past_trigger_def)

lemma trigger_other [simp]:
  "trigger_inv (s\<lparr>inner_wg := v\<rparr>) = trigger_inv s" "trigger_inv (s\<lparr>wg_waiters := w\<rparr>) = trigger_inv s"
  "trigger_inv (s\<lparr>wg_sema := m\<rparr>) = trigger_inv s" "trigger_inv (s\<lparr>misused := b\<rparr>) = trigger_inv s"
  by (simp_all add: trigger_inv_def some_ended_def past_trigger_def)

lemma trigger_once:
  "trigger_inv s \<Longrightarrow> workers s i \<noteq> WEnd \<Longrightarrow> trigger_inv (set_worker i WEnd (once_trigger s))"
  by (auto simp: trigger_inv_def some_ended_def past_trigger_def)

lemma past_closed: "trigger_inv s \<Longrightarrow> waiters s j = q \<Longrightarrow> q \<notin> {VNone, VTrigger} \<Longrightarrow> inner_closed s"
  unfolding trigger_inv_def past_trigger_def by blast

lemma trigger_inv_step:
  assumes "inner_step s s'" and "trigger_inv s"
  shows "trigger_inv s'"
  using assms(1)
proof cases
  case (acquire j)
  from past_closed [OF assms(2) this(2)] have "inner_closed s" by simp
  then show ?thesis unfolding acquire(1) using assms(2) by (intro trigger_waiter) simp_all
next
  case (wait j)
  from past_closed [OF assms(2) this(2)] have "inner_closed s" by simp
  then show ?thesis unfolding wait(1) using assms(2) by (auto intro!: trigger_waiter)
next
  case (woken j)
  from past_closed [OF assms(2) this(2)] have "inner_closed s" by simp
  then show ?thesis unfolding woken(1) by (intro trigger_waiter [OF assms(2)]) auto
next
  case (stopped j)
  from past_closed [OF assms(2) this(2)] have "inner_closed s" by simp
  then show ?thesis unfolding stopped(1) by (intro trigger_waiter [OF assms(2)]) auto
qed (use assms(2) in \<open>auto simp: after_add_def intro!: trigger_worker trigger_waiter trigger_call_add trigger_once\<close>)

lemma busy_update:
  "busy (set_worker i p s) = (if p = WRun \<or> p = WDone then insert i (busy s) else busy s - {i})"
  by (auto simp: busy_def)

lemma blocked_update:
  "blocked (set_waiter j q s) = (if q = VBlocked then insert j (blocked s) else blocked s - {j})"
  by (auto simp: blocked_def)

lemma sets_other [simp]:
  "busy (added a b c s) = busy s" "busy (once_trigger s) = busy s" "busy (set_waiter j q s) = busy s"
  "busy (s\<lparr>inner_wg := v\<rparr>) = busy s" "busy (s\<lparr>wg_waiters := w\<rparr>) = busy s" "busy (s\<lparr>wg_sema := m\<rparr>) = busy s"
  "blocked (added a b c s) = blocked s" "blocked (once_trigger s) = blocked s" "blocked (set_worker i p s) = blocked s"
  "blocked (s\<lparr>inner_wg := v\<rparr>) = blocked s" "blocked (s\<lparr>wg_waiters := w\<rparr>) = blocked s"
  "blocked (s\<lparr>wg_sema := m\<rparr>) = blocked s"
  by (simp_all add: busy_def blocked_def)

lemma busyI: "workers s i = WRun \<or> workers s i = WDone \<Longrightarrow> i \<in> busy s"
  by (simp add: busy_def)

lemma busyD: "workers s i = q \<Longrightarrow> q \<noteq> WRun \<Longrightarrow> q \<noteq> WDone \<Longrightarrow> i \<notin> busy s"
  by (auto simp: busy_def)

lemma blockedD: "waiters s j = q \<Longrightarrow> q \<noteq> VBlocked \<Longrightarrow> j \<notin> blocked s"
  by (auto simp: blocked_def)

lemma group_wg:
  assumes "group_inv s"
  shows "0 \<le> inner_wg s" and "workers s i = WDone \<Longrightarrow> stop_type s = stopTypeFinal"
    and "stop_type s = stopTypeFinal \<Longrightarrow> i \<in> busy s \<Longrightarrow> 0 < inner_wg s"
    and "0 < wg_waiters s \<Longrightarrow> inner_wg s \<noteq> 0 \<or> (\<exists>i. releasing (workers s i))"
    and "releasing (workers s i) \<Longrightarrow> inner_wg s = 0"
proof -
  show "0 < inner_wg s" if "stop_type s = stopTypeFinal" "i \<in> busy s"
    using assms that by (auto simp: group_inv_def card_gt_0_iff)
  show "workers s i = WDone \<Longrightarrow> stop_type s = stopTypeFinal"
    using assms by (cases "stop_type s") (auto simp: group_inv_def)
qed (use assms in \<open>auto simp: group_inv_def one_releasing_def\<close>)

lemma one_releasing_update:
  assumes "\<not> releasing (workers s i)" and "\<not> releasing p"
  shows "one_releasing (set_worker i p s) = one_releasing s"
proof -
  have "releasing (((workers s)(i := p)) k) \<longleftrightarrow> releasing (workers s k)" for k using assms by simp
  moreover have "((workers s)(i := p)) k = workers s k" if "releasing (workers s k)" for k using assms that by auto
  ultimately show ?thesis unfolding one_releasing_def inner_fields by metis
qed

lemma one_releasing_none:
  "(\<And>i. \<not> releasing (workers s i)) \<Longrightarrow> one_releasing s \<longleftrightarrow> (0 < wg_waiters s \<longrightarrow> inner_wg s \<noteq> 0)"
  by (simp add: one_releasing_def)

lemma one_releasing_other [simp]:
  "one_releasing (once_trigger s) = one_releasing s" "one_releasing (set_waiter j q s) = one_releasing s"
  "one_releasing (s\<lparr>wg_sema := m\<rparr>) = one_releasing s"
  by (simp_all add: one_releasing_def)

lemma one_releasing_at:
  assumes "\<And>k. k \<noteq> i \<Longrightarrow> \<not> releasing (workers s k)" and "inner_wg s = 0" and "0 < wg_waiters s"
    and "p \<in> {WCheck False (wg_waiters s), WStore False (wg_waiters s)}"
  shows "one_releasing (set_worker i p s)"
  using assms by (auto simp: one_releasing_def)

lemma releasing_here:
  assumes "group_inv s" and "releasing (workers s i)"
  shows "inner_wg s = 0" and "0 < wg_waiters s" and "k \<noteq> i \<Longrightarrow> \<not> releasing (workers s k)"
    and "workers s i \<in> {WCheck False (wg_waiters s), WStore False (wg_waiters s)}"
  using assms by (auto simp: group_inv_def one_releasing_def)

lemma group_waiter:
  assumes "group_inv s" and "waiters s j \<noteq> VBlocked" and "q \<noteq> VBlocked"
    and "stop_type s = stopTypeQuick \<Longrightarrow> q \<noteq> VGroup"
  shows "group_inv (set_waiter j q s)"
proof -
  have "blocked (set_waiter j q s) = blocked s"
    using assms(2,3) by (simp add: blocked_update) (simp add: blocked_def)
  with assms show ?thesis by (auto simp: group_inv_def)
qed

lemma group_inv_step:
  assumes "inner_step s s'" and "group_inv s" and "\<not> misused s'"
  shows "group_inv s'"
  using assms(1)
proof cases
  case (go i)
  then show ?thesis using assms(2) busyD [of s i WNone]
    by (auto simp: group_inv_def one_releasing_update busy_update)
next
  case (start i)
  note i = busyD [OF start(2)]
  show ?thesis
  proof (cases "stop_type s = stopTypeFinal")
    case True
    then have eq: "s' = call_add True i s" using start(1) by simp
    have nz: "\<not> (wg_waiters s \<noteq> 0 \<and> inner_wg s = 0)" using assms(3) by (simp add: eq call_add_eq)
    have "add_goes True s = WRun"
      using nz group_wg(1) [OF assms(2)] by (auto simp: add_goes_def Let_def after_add_def)
    moreover have "\<not> releasing (workers s k)" for k
      using nz assms(2) by (auto simp: group_inv_def one_releasing_def)
    ultimately show ?thesis using assms(2) i True nz
      by (auto simp: eq call_add_eq group_inv_def one_releasing_none busy_update)
  next
    case False
    then show ?thesis using start assms(2) i
      by (auto simp: group_inv_def one_releasing_update busy_update split: if_splits)
  qed
next
  case (finish i)
  have i: "i \<in> busy s" using finish(2) by (simp add: busy_def)
  show ?thesis
  proof (cases "stop_type s = stopTypeFinal")
    case True
    then show ?thesis using finish assms(2) i
      by (auto simp: group_inv_def one_releasing_update busy_update insert_absorb)
  next
    case False
    then show ?thesis using finish assms(2) i
      by (auto simp: group_inv_def one_releasing_update busy_update)
  qed
next
  case (wg_done i)
  have i: "i \<in> busy s" using wg_done(2) by (simp add: busy_def)
  have ty: "stop_type s = stopTypeFinal" by (rule group_wg(2) [OF assms(2) wg_done(2)])
  have pos: "0 < inner_wg s" by (rule group_wg(3) [OF assms(2) ty i])
  have nr: "\<not> releasing (workers s k)" for k using group_wg(5) [OF assms(2), of k] pos by auto
  have "int (card (busy s - {i})) = inner_wg s - 1"
    using i assms(2) ty pos by (simp add: group_inv_def card_Diff_singleton of_nat_diff)
  moreover have "add_goes False s = (if 1 < inner_wg s \<or> wg_waiters s = 0 then WTrigger else WCheck False (wg_waiters s))"
    using pos by (simp add: add_goes_def Let_def after_add_def)
  ultimately show ?thesis using assms(2) ty pos nr
    by (auto simp: wg_done(1) call_add_eq group_inv_def one_releasing_def busy_update)
next
  case (add_check i adding w)
  then have eq: "s' = set_worker i (WStore adding w) s" using assms(3) by (auto split: if_splits)
  have "releasing (workers s i)" using add_check(2) by simp
  note here = releasing_here [OF assms(2) this]
  have "adding = False" "w = wg_waiters s" using here(4) add_check(2) by auto
  then have "one_releasing s'" unfolding eq using here by (intro one_releasing_at) simp_all
  then show ?thesis using assms(2) busyD [OF add_check(2)] by (auto simp: eq group_inv_def busy_update)
next
  case (add_release i adding w)
  have "releasing (workers s i)" using add_release(2) by simp
  note here = releasing_here [OF assms(2) this]
  have w: "adding = False" "w = wg_waiters s" using here(4) add_release(2) by auto
  let ?t = "s\<lparr>inner_wg := 0, wg_waiters := 0, wg_sema := wg_sema s + w\<rparr>"
  have "one_releasing (set_worker i WTrigger ?t)" using here(3) by (intro one_releasing_none [THEN iffD2]) auto
  then show ?thesis using assms(2) busyD [OF add_release(2)] w here(1)
    by (auto simp: add_release(1) after_add_def group_inv_def busy_update)
next
  case (trigger i)
  then show ?thesis using assms(2) busyD [OF trigger(2)]
    by (auto simp: group_inv_def one_releasing_update busy_update)
next
  case (go_wait j)
  then show ?thesis using group_waiter [OF assms(2)] by simp
next
  case (triggered j)
  then show ?thesis using group_waiter [OF assms(2)] by (cases "stop_type s") simp_all
next
  case (wait j)
  show ?thesis
  proof (cases "inner_wg s = 0")
    case True
    then show ?thesis using group_waiter [OF assms(2), of j VStop] wait by simp
  next
    case False
    then have "\<not> releasing (workers s k)" for k using group_wg(5) [OF assms(2)] by blast
    then show ?thesis using wait False assms(2) blockedD [OF wait(2)]
      by (auto simp: group_inv_def one_releasing_def blocked_update)
  qed
next
  case (acquire j)
  have j: "j \<in> blocked s" using acquire(2) by (simp add: blocked_def)
  show ?thesis using acquire assms(2) j
    by (auto simp: group_inv_def one_releasing_def blocked_update card_Diff_singleton)
next
  case (woken j)
  then show ?thesis using group_waiter [OF assms(2)] by simp
next
  case (stopped j)
  then show ?thesis using group_waiter [OF assms(2)] by simp
qed

lemma misused_stays: "inner_step s s' \<Longrightarrow> misused s \<Longrightarrow> misused s'"
  by (induction rule: inner_step.induct) (auto simp: call_add_eq)

lemma inner_inv_step: "inner_step s s' \<Longrightarrow> inner_inv s \<Longrightarrow> inner_inv s'"
  unfolding inner_inv_def using trigger_inv_step group_inv_step misused_stays by blast

interpretation inner_stop: guarded_system "\<lambda>s. s = inner_init ty" inner_step inner_inv for ty
  by unfold_locales (use inner_inv_init inner_inv_step in blast)+

definition inner_reach :: "stopType \<Rightarrow> inner \<Rightarrow> bool" where
  "inner_reach ty s \<longleftrightarrow> inner_step\<^sup>*\<^sup>* (inner_init ty) s"

lemma inner_reach_inv: "inner_reach ty s \<Longrightarrow> inner_inv s"
  unfolding inner_reach_def using inner_stop.inv_reachable by blast

lemma inner_reach_step: "inner_reach ty s \<Longrightarrow> inner_step s t \<Longrightarrow> inner_reach ty t"
  unfolding inner_reach_def by (rule rtranclp.rtrancl_into_rtrancl)

lemma inner_reach_type: "inner_reach ty s \<Longrightarrow> stop_type s = ty"
proof -
  have "stop_type s = ty" if "inner_step\<^sup>*\<^sup>* (inner_init ty) s"
    using that
  proof (induction rule: rtranclp_induct)
    case base
    show ?case by (simp add: inner_init_def)
  next
    case (step s t)
    from step(2) show ?case using step(3) by cases (auto simp: call_add_eq)
  qed
  then show "inner_reach ty s \<Longrightarrow> stop_type s = ty" by (simp add: inner_reach_def)
qed

section \<open>Properties\<close>

text \<open>A waiter goes on to its stop function from \<open>Wait\<close> only when the counter is 0.\<close>

lemma goes_on_empty:
  assumes "inner_step s s'" and "waiters s j \<in> {VGroup, VBlocked, VWoken}" and "waiters s' j = VStop"
  shows "inner_wg s = 0"
  using assms by cases (auto simp: call_add_eq split: if_splits)

text \<open>The first misuse is an \<open>Add(1)\<close> while another worker is releasing the waiters.\<close>

lemma first_misuse:
  assumes "inner_step s s'" and "group_inv s" and "\<not> misused s" and "misused s'"
  shows "\<exists>i k. workers s i = WSpawned \<and> releasing (workers s k)"
  using assms(1)
proof cases
  case (start i)
  then have "wg_waiters s \<noteq> 0" "inner_wg s = 0"
    using assms(3,4) by (auto simp: call_add_eq split: if_splits)
  then show ?thesis using group_wg(4) [OF assms(2)] start(2) by blast
next
  case (wg_done i)
  then show ?thesis using assms(3,4) by (simp add: call_add_eq)
next
  case (add_check i adding w)
  have "releasing (workers s i)" using add_check(2) by simp
  from releasing_here(1,4) [OF assms(2) this] show ?thesis
    using add_check assms(3,4) by (auto split: if_splits)
qed (use assms(3,4) in \<open>auto split: if_splits\<close>)

text \<open>C33: In every interleaving of the workers and waiters of a stopper, the inner trigger is closed once,
  and a waiter gets past it only when some worker has ended. As long as no call of the wait group
  has panicked for a misuse, its counter never goes below zero; in a final stopper, at the moment a waiter
  goes on from \<open>Wait\<close> to its stop function no worker is between its \<open>Add\<close> and its \<open>Done\<close>; and a waiter
  is blocked only while there is such a worker, or one that is about to release it, or its turn at the
  semaphore has come. The first misuse can only be the \<open>Add\<close> of a worker that was spawned before and
  comes while the last \<open>Done\<close> has not released the waiters yet.
\<close>

theorem stop_runs_after_a_worker_ended:
  assumes "inner_reach ty s"
  shows "\<not> twice_closed s
       \<and> (\<forall>j. past_trigger s j \<longrightarrow> inner_closed s \<and> (\<exists>i. workers s i = WEnd))
       \<and> (\<not> misused s \<longrightarrow> \<not> below_zero s \<and> 0 \<le> inner_wg s
          \<and> (ty = stopTypeFinal \<longrightarrow> (\<forall>j s'. waiters s j \<in> {VGroup, VBlocked, VWoken} \<longrightarrow> inner_step s s' \<longrightarrow>
               waiters s' j = VStop \<longrightarrow> (\<forall>i. workers s i \<noteq> WRun \<and> workers s i \<noteq> WDone)))
          \<and> (\<forall>j. waiters s j = VBlocked \<longrightarrow>
               (\<exists>i. workers s i = WRun \<or> workers s i = WDone \<or> releasing (workers s i)) \<or> 0 < wg_sema s)
          \<and> (\<forall>s'. inner_step s s' \<longrightarrow> misused s' \<longrightarrow>
               (\<exists>i k. workers s i = WSpawned \<and> releasing (workers s k))))"
proof -
  have inv: "inner_inv s" and ty: "stop_type s = ty"
    using assms inner_reach_inv inner_reach_type by blast+
  have "trigger_inv s" using inv by (simp add: inner_inv_def)
  moreover have "workers s i \<noteq> WRun \<and> workers s i \<noteq> WDone"
    if "ty = stopTypeFinal" "inner_step s s'" "waiters s j \<in> {VGroup, VBlocked, VWoken}" "waiters s' j = VStop"
      "group_inv s" for i j s'
    using goes_on_empty [OF that(2-4)] that(1,5) ty by (auto simp: group_inv_def busy_def)
  moreover have "(\<exists>i. workers s i = WRun \<or> workers s i = WDone \<or> releasing (workers s i)) \<or> 0 < wg_sema s"
    if "waiters s j = VBlocked" "group_inv s" for j
  proof -
    have "blocked s \<noteq> {}" "finite (blocked s)" using that by (auto simp: blocked_def group_inv_def)
    then have "0 < card (blocked s)" by (simp add: card_gt_0_iff)
    then have "0 < wg_sema s \<or> busy s \<noteq> {} \<or> (\<exists>i. releasing (workers s i))"
      using that(2) group_wg(4) [OF that(2)] by (auto simp: group_inv_def split: if_splits)
    then show ?thesis by (auto simp: busy_def)
  qed
  moreover have "group_inv s" if "\<not> misused s" using inv that by (simp add: inner_inv_def)
  moreover have "\<not> below_zero s" if "group_inv s" using that by (simp add: group_inv_def)
  ultimately show ?thesis
    using group_wg(1) [of s] first_misuse [of s] unfolding trigger_inv_def some_ended_def
    by (intro conjI impI allI) (simp | blast | metis)+
qed

section \<open>Runs\<close>

lemma reach_start: "inner_reach ty s \<Longrightarrow> workers s i = WSpawned \<Longrightarrow> stop_type s = stopTypeFinal \<Longrightarrow>
    inner_reach ty (call_add True i s)"
  using inner_reach_step [of ty s] start [of s i] by simp

lemma reach_finish: "inner_reach ty s \<Longrightarrow> workers s i = WRun \<Longrightarrow> stop_type s = stopTypeFinal \<Longrightarrow>
    inner_reach ty (set_worker i WDone s)"
  using inner_reach_step [of ty s] finish [of s i] by simp

lemma reach_done: "inner_reach ty s \<Longrightarrow> workers s i = WDone \<Longrightarrow> inner_reach ty (call_add False i s)"
  using inner_reach_step [of ty s] wg_done [of s i] by simp

lemmas run_simps = call_add_eq added_def add_goes_def after_add_def set_worker_def set_waiter_def
  once_trigger_def GoAndStop_def inner_init_def

text \<open>
  Worker 0 is spawned by \<open>GoAndStop\<close> and worker 1 by \<open>Go\<close>; worker 0 runs to its end before the
  goroutine of worker 1 has executed its first statement.
\<close>

definition late_worker :: "stopType \<Rightarrow> inner" where
  "late_worker ty = (inner_init ty)\<lparr>inner_once := True, inner_closed := True,
     workers := (\<lambda>_. WNone)(0 := WEnd, 1 := WSpawned), waiters := (\<lambda>_. VNone)(0 := VTrigger)\<rparr>"

lemma late_worker_reach: "inner_reach stopTypeFinal (late_worker stopTypeFinal)"
proof -
  let ?s0 = "GoAndStop 0 0 (inner_init stopTypeFinal)"
  let ?s1 = "set_worker 1 WSpawned ?s0"
  let ?s2 = "call_add True 0 ?s1"
  let ?s3 = "set_worker 0 WDone ?s2"
  let ?s4 = "call_add False 0 ?s3"
  let ?s5 = "set_worker 0 WEnd (once_trigger ?s4)"
  have "inner_reach stopTypeFinal ?s0"
    unfolding inner_reach_def by (rule GoAndStop_steps) (simp_all add: inner_init_def)
  then have "inner_reach stopTypeFinal ?s1" by (rule inner_reach_step) (rule go, simp add: run_simps)
  then have "inner_reach stopTypeFinal ?s2" by (rule reach_start) (simp_all add: run_simps)
  then have "inner_reach stopTypeFinal ?s3" by (rule reach_finish) (simp_all add: run_simps)
  then have "inner_reach stopTypeFinal ?s4" by (rule reach_done) simp
  then have "inner_reach stopTypeFinal ?s5" by (rule inner_reach_step) (rule trigger, simp add: run_simps)
  moreover have "?s5 = late_worker stopTypeFinal"
    by (auto simp: late_worker_def run_simps fun_eq_iff)
  ultimately show ?thesis by simp
qed

text \<open>
  Worker 0 has ended; worker 1 is in its function with the waiter blocked on it; worker 2 is spawned.
\<close>

definition blocked_waiter :: inner where
  "blocked_waiter = (inner_init stopTypeFinal)\<lparr>inner_once := True, inner_closed := True, inner_wg := 1, wg_waiters := 1,
     workers := (\<lambda>_. WNone)(0 := WEnd, 1 := WRun, 2 := WSpawned), waiters := (\<lambda>_. VNone)(0 := VBlocked)\<rparr>"

lemma blocked_waiter_reach: "inner_reach stopTypeFinal blocked_waiter"
proof -
  let ?s0 = "late_worker stopTypeFinal"
  let ?s1 = "set_worker 2 WSpawned ?s0"
  let ?s2 = "call_add True 1 ?s1"
  let ?s3 = "set_waiter 0 VGroup ?s2"
  let ?s4 = "set_waiter 0 VBlocked (?s3\<lparr>wg_waiters := 1\<rparr>)"
  note defs = late_worker_def run_simps
  have "inner_reach stopTypeFinal ?s1"
    by (rule inner_reach_step [OF late_worker_reach]) (rule go, simp add: defs)
  then have "inner_reach stopTypeFinal ?s2" by (rule reach_start) (simp_all add: defs)
  then have "inner_reach stopTypeFinal ?s3"
    by (rule inner_reach_step) (use triggered [of ?s2 0] in \<open>simp add: defs\<close>)
  then have "inner_reach stopTypeFinal ?s4"
    by (rule inner_reach_step) (use wait [of ?s3 0] in \<open>simp add: defs\<close>)
  moreover have "?s4 = blocked_waiter"
    by (auto simp: blocked_waiter_def defs fun_eq_iff)
  ultimately show ?thesis by simp
qed

theorem stop_runs_after_a_worker_ended_witness:
  "\<not> twice_closed blocked_waiter \<and> inner_closed blocked_waiter \<and> \<not> below_zero blocked_waiter"
  using stop_runs_after_a_worker_ended [OF blocked_waiter_reach]
  by (simp add: blocked_waiter_def inner_init_def)

text \<open>A final stopper does not wait for a worker whose goroutine has not started: \<open>Go\<close> calls \<open>Add\<close> in
  the new goroutine, so there is a run in which the stop function runs while a worker that
  was spawned before it is running its own function.
\<close>

theorem final_stop_overtakes_spawned_worker:
  "\<exists>s s'. inner_reach stopTypeFinal s \<and> workers s 1 = WSpawned \<and> waiters s 0 = VTrigger
     \<and> inner_step\<^sup>*\<^sup>* s s' \<and> workers s' 1 = WRun \<and> waiters s' 0 = VStop"
proof -
  let ?s0 = "late_worker stopTypeFinal"
  let ?s1 = "set_waiter 0 VGroup ?s0"
  let ?s2 = "set_waiter 0 VStop ?s1"
  let ?s3 = "call_add True 1 ?s2"
  note defs = late_worker_def run_simps
  have "inner_step ?s0 ?s1" using triggered [of ?s0 0] by (simp add: defs)
  moreover have "inner_step ?s1 ?s2" using wait [of ?s1 0] by (simp add: defs)
  moreover have "inner_step ?s2 ?s3" using start [of ?s2 1] by (simp add: defs)
  ultimately have "inner_step\<^sup>*\<^sup>* ?s0 ?s3"
    by (meson converse_rtranclp_into_rtranclp rtranclp.rtrancl_refl)
  moreover have "workers ?s3 1 = WRun \<and> waiters ?s3 0 = VStop" by (simp add: defs)
  moreover have "workers ?s0 1 = WSpawned" "waiters ?s0 0 = VTrigger" by (simp_all add: defs)
  ultimately show ?thesis using late_worker_reach by blast
qed

text \<open>The last running worker has brought the counter to 0 and has not released the waiter yet.\<close>

definition last_done :: inner where
  "last_done = call_add False 1 (set_worker 1 WDone blocked_waiter)"

lemma last_done_reach: "inner_reach stopTypeFinal last_done"
  unfolding last_done_def
  by (intro reach_done reach_finish blocked_waiter_reach) (simp_all add: blocked_waiter_def inner_init_def)

lemmas last_done_defs = last_done_def blocked_waiter_def run_simps

text \<open>A waiter may lose its stop function: when a worker that was spawned earlier executes its \<open>Add\<close> between
  the release of a waiter and the moment it runs again, \<open>Wait\<close> panics for the reuse of the wait group, the
  panic is caught by \<open>Go\<close>, and in no continuation is the stop function run.
\<close>

lemma lost_stays: "inner_step\<^sup>*\<^sup>* s s' \<Longrightarrow> waiters s j = VLost \<Longrightarrow> waiters s' j = VLost"
proof (induction rule: rtranclp_induct)
  case (step t u)
  then have "waiters t j = VLost" by blast
  with step.hyps(2) show ?case by cases (auto simp: call_add_eq split: if_splits)
qed

theorem waiter_may_lose_stop:
  "\<exists>s. inner_reach stopTypeFinal s \<and> \<not> misused s
     \<and> (\<forall>s'. inner_step\<^sup>*\<^sup>* s s' \<longrightarrow> waiters s' 0 \<noteq> VStop \<and> waiters s' 0 \<noteq> VEnd)"
proof -
  let ?s0 = "last_done"
  let ?s1 = "set_worker 1 (WStore False 1) ?s0"
  let ?s2 = "set_worker 1 WTrigger (?s1\<lparr>inner_wg := 0, wg_waiters := 0, wg_sema := 1\<rparr>)"
  let ?s3 = "set_waiter 0 VWoken (?s2\<lparr>wg_sema := 0\<rparr>)"
  let ?s4 = "call_add True 2 ?s3"
  let ?s5 = "set_waiter 0 VLost ?s4"
  have "inner_reach stopTypeFinal ?s1"
    by (rule inner_reach_step [OF last_done_reach])
      (use add_check [of ?s0 1 False 1] in \<open>simp add: last_done_defs\<close>)
  then have "inner_reach stopTypeFinal ?s2"
    by (rule inner_reach_step) (use add_release [of ?s1 1 False 1] in \<open>simp add: last_done_defs\<close>)
  then have "inner_reach stopTypeFinal ?s3"
    by (rule inner_reach_step) (use acquire [of ?s2 0] in \<open>simp add: last_done_defs\<close>)
  then have "inner_reach stopTypeFinal ?s4" by (rule reach_start) (simp_all add: last_done_defs)
  then have r: "inner_reach stopTypeFinal ?s5"
    by (rule inner_reach_step) (use woken [of ?s4 0] in \<open>simp add: last_done_defs\<close>)
  have "waiters s' 0 = VLost" if "inner_step\<^sup>*\<^sup>* ?s5 s'" for s'
    using lost_stays [OF that, of 0] by simp
  moreover have "\<not> misused ?s5" by (simp add: last_done_defs)
  ultimately show ?thesis using r by (intro exI [of _ ?s5]) auto
qed

theorem waiter_may_lose_stop_witness:
  "\<exists>s. inner_reach stopTypeFinal s \<and> waiters s 0 \<noteq> VEnd"
  using waiter_may_lose_stop by blast

text \<open>
  A misuse may leave a waiter blocked for ever: the \<open>Add\<close> of the late worker panics before its \<open>Done\<close> is
  deferred, so its increment stays; the \<open>Done\<close> that was to release the waiter panics for the changed
  state; and from then on the counter does not come back to 0.
\<close>

definition leaked_inv :: "inner \<Rightarrow> bool" where
  "leaked_inv s \<longleftrightarrow> waiters s 0 = VBlocked \<and> wg_sema s = 0 \<and> finite (busy s)
     \<and> inner_wg s = int (card (busy s)) + 1 \<and> stop_type s = stopTypeFinal \<and> (\<forall>i. \<not> releasing (workers s i))"

lemma leaked_step:
  assumes "inner_step s s'" and "leaked_inv s"
  shows "leaked_inv s'"
  using assms(1)
proof cases
  case (start i)
  then show ?thesis using assms(2) busyD [OF start(2)]
    by (auto simp: leaked_inv_def call_add_eq add_goes_def after_add_def Let_def busy_update)
next
  case (finish i)
  moreover have "i \<in> busy s" using finish(2) by (simp add: busy_def)
  ultimately show ?thesis using assms(2) by (auto simp: leaked_inv_def busy_update insert_absorb)
next
  case (wg_done i)
  have i: "i \<in> busy s" using wg_done(2) by (simp add: busy_def)
  then have pos: "0 < card (busy s)" using assms(2) by (auto simp: leaked_inv_def card_gt_0_iff)
  then have "int (card (busy s - {i})) = int (card (busy s)) - 1" using i by simp
  with pos show ?thesis using assms(2) wg_done
    by (auto simp: leaked_inv_def call_add_eq add_goes_def after_add_def Let_def busy_update)
next
  case (add_check i adding w)
  then have "releasing (workers s i)" by simp
  then show ?thesis using assms(2) by (simp add: leaked_inv_def)
next
  case (add_release i adding w)
  then have "releasing (workers s i)" by simp
  then show ?thesis using assms(2) by (simp add: leaked_inv_def)
qed (use assms(2) busyD [of s] in \<open>auto simp: leaked_inv_def busy_update intro!: gr0I split: if_splits\<close>)

theorem misuse_may_block_waiter:
  "\<exists>s. inner_reach stopTypeFinal s \<and> (\<forall>s'. inner_step\<^sup>*\<^sup>* s s' \<longrightarrow> waiters s' 0 = VBlocked)"
proof -
  let ?s1 = "call_add True 2 last_done"
  let ?s2 = "set_worker 1 WTrigger (?s1\<lparr>misused := True\<rparr>)"
  have "inner_reach stopTypeFinal ?s1"
    by (rule reach_start [OF last_done_reach]) (simp_all add: last_done_defs)
  then have r: "inner_reach stopTypeFinal ?s2"
    by (rule inner_reach_step) (use add_check [of ?s1 1 False 1] in \<open>simp add: last_done_defs\<close>)
  have "leaked_inv ?s2" by (simp add: leaked_inv_def busy_def last_done_defs)
  then have "leaked_inv s'" if "inner_step\<^sup>*\<^sup>* ?s2 s'" for s'
    using that(1) by - (erule rtranclp_induct, auto intro: leaked_step)
  with r show ?thesis by (intro exI [of _ ?s2]) (simp add: leaked_inv_def)
qed

theorem misuse_may_block_waiter_witness: "\<exists>s. inner_reach stopTypeFinal s \<and> waiters s 0 = VBlocked"
  using misuse_may_block_waiter by blast

end
