(* ===== verification/Future_Model.thy ===== *)
theory Future_Model
  imports Prelude Transition_Iface
begin

text \<open>
  Futures (\<open>xsync/future.go\<close>): the operations on one future, each a critical section of its mutex,
  and the system of all futures of a program with the goroutines that \<open>Then\<close> starts, in any
  interleaving. The values of all futures are of one type \<open>'v\<close>.
\<close>

section \<open>One future\<close>

datatype ferror = ErrFutureCancelled | CtxErr | UserErr nat

record 'v future =
  fvalue :: 'v
  ferr :: "ferror option"
  complete :: bool
  done_closed :: bool

definition NewFuture :: "'v \<Rightarrow> 'v future" where
  "NewFuture zero = \<lparr>fvalue = zero, ferr = None, complete = False, done_closed = False\<rparr>"

definition Complete :: "'v \<Rightarrow> ferror option \<Rightarrow> 'v future \<Rightarrow> 'v future go" where
  "Complete v e f =
     (if complete f then Inr f
      else if done_closed f then Inl CloseOfClosed
      else Inr (f\<lparr>fvalue := v, ferr := e, complete := True, done_closed := True\<rparr>))"

text \<open>What \<open>Get\<close> returns, \<open>None\<close> while it blocks.\<close>

definition Get :: "'v future \<Rightarrow> ('v \<times> ferror option) option" where
  "Get f = (if done_closed f then Some (fvalue f, ferr f) else None)"

text \<open>
  The values that \<open>GetWithContext\<close> may return: \<open>select\<close> takes any of the cases that are ready, and
  blocks when there is none. \<open>ctx\<close> is the error of the context when it is done.
\<close>

definition GetWithContext :: "'v \<Rightarrow> ferror option \<Rightarrow> 'v future \<Rightarrow> ('v \<times> ferror option) list" where
  "GetWithContext zero ctx f =
     (if done_closed f then [(fvalue f, ferr f)] else [])
     @ (case ctx of None \<Rightarrow> [] | Some e \<Rightarrow> [(zero, Some e)])"

definition GetWithTimeout :: "'v \<Rightarrow> bool \<Rightarrow> 'v future \<Rightarrow> ('v \<times> ferror option) list" where
  "GetWithTimeout zero expired f = GetWithContext zero (if expired then Some CtxErr else None) f"

definition IsComplete :: "'v future \<Rightarrow> bool" where
  "IsComplete f = complete f"

section \<open>The system\<close>

text \<open>A function given to \<open>Then\<close> returns a value and an error, or panics.\<close>

datatype 'v fnout = FnRet 'v "ferror option" | FnPanic

text \<open>
  The goroutines that act on futures: that of \<open>Then f fn\<close> with its result future \<open>r\<close>, at each of
  its statements, and a caller of \<open>Cancel\<close>, which reads the value before it takes the lock.
\<close>

datatype 'v thread =
    Unborn
  | ThenGet nat "'v \<Rightarrow> 'v fnout" nat
  | ThenErr ferror nat
  | ThenCall "'v \<Rightarrow> 'v fnout" 'v nat
  | ThenSet 'v "ferror option" nat
  | CancelSet 'v nat
  | Ended

text \<open>
  \<open>by_user i\<close> records whether a future was completed by a call of its user rather than by the
  goroutine of \<open>Then\<close>, and \<open>spec i\<close> for a future made by \<open>Then\<close> its source and function; no step
  reads them.
\<close>

record 'v fsys =
  futs :: "nat \<Rightarrow> 'v future"
  live :: "nat \<Rightarrow> bool"
  threads :: "nat \<Rightarrow> 'v thread"
  crashed :: bool
  by_user :: "nat \<Rightarrow> bool"
  spec :: "nat \<Rightarrow> (nat \<times> ('v \<Rightarrow> 'v fnout)) option"

definition fsys_init :: "'v \<Rightarrow> 'v fsys" where
  "fsys_init zero = \<lparr>futs = \<lambda>_. NewFuture zero, live = \<lambda>_. False, threads = \<lambda>_. Unborn,
     crashed = False, by_user = \<lambda>_. False, spec = \<lambda>_. None\<rparr>"

definition do_complete :: "bool \<Rightarrow> nat \<Rightarrow> 'v \<Rightarrow> ferror option \<Rightarrow> 'v fsys \<Rightarrow> 'v fsys" where
  "do_complete user i v e s = (case Complete v e (futs s i) of
     Inl _ \<Rightarrow> s\<lparr>crashed := True\<rparr>
   | Inr f \<Rightarrow> s\<lparr>futs := (futs s)(i := f),
       by_user := (by_user s)(i := by_user s i \<or> user \<and> \<not> complete (futs s i))\<rparr>)"

definition set_thread :: "nat \<Rightarrow> 'v thread \<Rightarrow> 'v fsys \<Rightarrow> 'v fsys" where
  "set_thread t p s = s\<lparr>threads := (threads s)(t := p)\<rparr>"

definition new_future :: "'v \<Rightarrow> nat \<Rightarrow> 'v fsys \<Rightarrow> 'v fsys" where
  "new_future zero i s = s\<lparr>futs := (futs s)(i := NewFuture zero), live := (live s)(i := True)\<rparr>"

inductive fut_step :: "'v \<Rightarrow> 'v fsys \<Rightarrow> 'v fsys \<Rightarrow> bool" for zero where
  make: "\<not> live s i \<Longrightarrow> fut_step zero s (new_future zero i s)"
| user_complete: "live s i \<Longrightarrow> fut_step zero s (do_complete True i v e s)"
| cancel: "live s i \<Longrightarrow> threads s t = Unborn \<Longrightarrow>
    fut_step zero s (set_thread t (CancelSet (fvalue (futs s i)) i) s)"
| cancel_set: "threads s t = CancelSet v i \<Longrightarrow>
    fut_step zero s (set_thread t Ended (do_complete True i v (Some ErrFutureCancelled) s))"
| then_go: "live s i \<Longrightarrow> \<not> live s r \<Longrightarrow> threads s t = Unborn \<Longrightarrow>
    fut_step zero s (set_thread t (ThenGet i fn r)
      ((new_future zero r s)\<lparr>spec := (spec s)(r := Some (i, fn))\<rparr>))"
| then_get: "threads s t = ThenGet i fn r \<Longrightarrow> Get (futs s i) = Some (v, e) \<Longrightarrow>
    fut_step zero s (set_thread t (case e of None \<Rightarrow> ThenCall fn v r | Some x \<Rightarrow> ThenErr x r) s)"
| then_err: "threads s t = ThenErr x r \<Longrightarrow>
    fut_step zero s (set_thread t (ThenSet (fvalue (futs s r)) (Some x) r) s)"
| then_call: "threads s t = ThenCall fn v r \<Longrightarrow>
    fut_step zero s (set_thread t (case fn v of FnRet u e \<Rightarrow> ThenSet u e r | FnPanic \<Rightarrow> Ended) s)"
| then_set: "threads s t = ThenSet v e r \<Longrightarrow>
    fut_step zero s (set_thread t Ended (do_complete False r v e s))"

section \<open>The invariant\<close>

definition future_ok :: "'v \<Rightarrow> 'v future \<Rightarrow> bool" where
  "future_ok zero f \<longleftrightarrow> done_closed f = complete f \<and> (\<not> complete f \<longrightarrow> fvalue f = zero \<and> ferr f = None)"

text \<open>What \<open>Then f fn\<close> is meant to give, \<open>None\<close> when its function panics or \<open>f\<close> is not complete.\<close>

definition then_result :: "'v \<Rightarrow> 'v future \<Rightarrow> ('v \<Rightarrow> 'v fnout) \<Rightarrow> ('v \<times> ferror option) option" where
  "then_result zero f fn =
     (if \<not> complete f then None
      else case ferr f of
          Some x \<Rightarrow> Some (zero, Some x)
        | None \<Rightarrow> (case fn (fvalue f) of FnRet u e \<Rightarrow> Some (u, e) | FnPanic \<Rightarrow> None))"

fun thread_ok :: "'v \<Rightarrow> 'v fsys \<Rightarrow> 'v thread \<Rightarrow> bool" where
  "thread_ok zero s (ThenGet i fn r) = (live s i \<and> live s r \<and> spec s r = Some (i, fn))"
| "thread_ok zero s (ThenErr x r) = (live s r \<and> (\<exists>i fn. live s i \<and> spec s r = Some (i, fn)
     \<and> complete (futs s i) \<and> ferr (futs s i) = Some x))"
| "thread_ok zero s (ThenCall fn v r) = (live s r \<and> (\<exists>i. live s i \<and> spec s r = Some (i, fn)
     \<and> complete (futs s i) \<and> ferr (futs s i) = None \<and> fvalue (futs s i) = v))"
| "thread_ok zero s (ThenSet v e r) = (live s r \<and> (complete (futs s r) \<or>
     (\<exists>i fn. live s i \<and> spec s r = Some (i, fn) \<and> then_result zero (futs s i) fn = Some (v, e))))"
| "thread_ok zero s (CancelSet v i) = live s i"
| "thread_ok zero s _ = True"

definition result_ok :: "'v \<Rightarrow> 'v fsys \<Rightarrow> nat \<Rightarrow> bool" where
  "result_ok zero s r \<longleftrightarrow> (\<forall>i fn. spec s r = Some (i, fn) \<longrightarrow> live s i \<and> live s r \<and>
     (complete (futs s r) \<longrightarrow> \<not> by_user s r \<longrightarrow>
        then_result zero (futs s i) fn = Some (fvalue (futs s r), ferr (futs s r))))"

definition fut_inv :: "'v \<Rightarrow> 'v fsys \<Rightarrow> bool" where
  "fut_inv zero s \<longleftrightarrow> (\<forall>i. future_ok zero (futs s i)) \<and> (\<forall>t. thread_ok zero s (threads s t))
     \<and> (\<forall>r. result_ok zero s r) \<and> \<not> crashed s"

text \<open>How a step changes the futures: a complete future stays as it is.\<close>

definition extends :: "'v fsys \<Rightarrow> 'v fsys \<Rightarrow> bool" where
  "extends s s' \<longleftrightarrow> (\<forall>i. live s i \<longrightarrow> live s' i)
     \<and> (\<forall>i. live s i \<longrightarrow> spec s' i = spec s i)
     \<and> (\<forall>i. live s i \<longrightarrow> complete (futs s i) \<longrightarrow> futs s' i = futs s i \<and> by_user s' i = by_user s i)"

lemma extends_refl [simp]: "extends s s"
  by (simp add: extends_def)

lemma then_result_extends:
  "extends s s' \<Longrightarrow> live s i \<Longrightarrow> then_result zero (futs s i) fn = Some x \<Longrightarrow>
   then_result zero (futs s' i) fn = Some x"
  by (cases "complete (futs s i)") (simp_all add: extends_def then_result_def)

lemma thread_ok_extends:
  assumes "extends s s'" and "thread_ok zero s p"
  shows "thread_ok zero s' p"
proof (cases p)
  case (ThenSet v e r)
  then show ?thesis using assms then_result_extends [OF assms(1)]
    by (auto simp: extends_def)
qed (use assms in \<open>auto simp: extends_def\<close>)

lemma result_ok_extends:
  assumes "extends s s'" and "result_ok zero s r"
    and "live s r \<Longrightarrow> futs s' r = futs s r \<and> by_user s' r = by_user s r" and "spec s' r = spec s r"
  shows "result_ok zero s' r"
  using assms then_result_extends [OF assms(1)] unfolding result_ok_def extends_def by metis

lemma fut_invI:
  assumes "fut_inv zero s" and ext: "extends s s'"
    and "\<And>i. futs s' i \<noteq> futs s i \<Longrightarrow> future_ok zero (futs s' i)"
    and "threads s' = (threads s)(t := p)" and "thread_ok zero s' p"
    and "\<And>r. result_ok zero s r \<Longrightarrow> result_ok zero s' r" and "\<not> crashed s'"
  shows "fut_inv zero s'"
  unfolding fut_inv_def
proof (intro conjI allI)
  show "future_ok zero (futs s' i)" for i using assms(1,3) by (metis fut_inv_def)
  show "thread_ok zero s' (threads s' u)" for u
    using assms(1,4,5) thread_ok_extends [OF ext] by (simp add: fut_inv_def)
qed (use assms in \<open>auto simp: fut_inv_def\<close>)

lemma set_thread_fields [simp]:
  "futs (set_thread t p s) = futs s" "live (set_thread t p s) = live s"
  "threads (set_thread t p s) = (threads s)(t := p)" "crashed (set_thread t p s) = crashed s"
  "by_user (set_thread t p s) = by_user s" "spec (set_thread t p s) = spec s"
  by (simp_all add: set_thread_def)

text \<open>The three kinds of steps: of one goroutine only, completing a future, making one.\<close>

lemma inv_thread_only:
  assumes "fut_inv zero s" and "thread_ok zero s p"
  shows "fut_inv zero (set_thread t p s)"
proof -
  have ext: "extends s (set_thread t p s)" by (simp add: extends_def)
  show ?thesis
    by (rule fut_invI [OF assms(1) ext, where t = t and p = p])
      (use assms thread_ok_extends [OF ext] result_ok_extends [OF ext] in \<open>auto simp: fut_inv_def\<close>)
qed

lemma do_complete_cases:
  assumes "fut_inv zero s"
  obtains "complete (futs s i)" "do_complete user i v e s = s"
    | "\<not> complete (futs s i)" "do_complete user i v e s =
         s\<lparr>futs := (futs s)(i := \<lparr>fvalue = v, ferr = e, complete = True, done_closed = True\<rparr>),
           by_user := (by_user s)(i := by_user s i \<or> user)\<rparr>"
proof (cases "complete (futs s i)")
  case True
  moreover have "do_complete user i v e s = s"
    using True by (simp add: do_complete_def Complete_def)
  ultimately show ?thesis using that(1) by blast
next
  case False
  moreover have "\<not> done_closed (futs s i)" using assms False by (auto simp: fut_inv_def future_ok_def)
  ultimately show ?thesis using that(2)
    by (cases "futs s i") (simp add: do_complete_def Complete_def)
qed

lemma inv_complete:
  assumes inv: "fut_inv zero s" and "live s i"
    and "\<not> user \<Longrightarrow> thread_ok zero s (ThenSet v e i)"
  shows "fut_inv zero (do_complete user i v e s)"
proof (cases rule: do_complete_cases [OF inv, of i user v e])
  case 1
  with inv show ?thesis by simp
next
  case 2
  obtain S where S: "S = do_complete user i v e s" by simp
  with 2 have f: "futs S = (futs s)(i := \<lparr>fvalue = v, ferr = e, complete = True, done_closed = True\<rparr>)"
    "by_user S = (by_user s)(i := by_user s i \<or> user)" "spec S = spec s" "live S = live s"
    "threads S = threads s" "crashed S = crashed s"
    by simp_all
  have ext: "extends s S" using 2(1) by (simp add: extends_def f)
  have res: "result_ok zero S r" if r: "result_ok zero s r" for r
  proof (cases "r = i")
    case False
    then show ?thesis by (intro result_ok_extends [OF ext r]) (simp_all add: f)
  next
    case True
    have "then_result zero (futs S k) fn = Some (v, e)"
      if "spec s i = Some (k, fn)" "\<not> user" for k fn
      using assms(3) [OF that(2)] 2(1) that(1) then_result_extends [OF ext] by auto
    then show ?thesis using r True by (auto simp: result_ok_def f)
  qed
  show ?thesis unfolding S [symmetric]
    by (rule fut_invI [OF inv ext, where t = 0 and p = "threads s 0"])
      (use inv thread_ok_extends [OF ext] res in \<open>auto simp: f future_ok_def fut_inv_def\<close>)
qed

lemma inv_make:
  assumes inv: "fut_inv zero s" and "\<not> live s r"
  shows "fut_inv zero (new_future zero r s)"
proof -
  let ?s = "new_future zero r s"
  have ext: "extends s ?s" using assms(2) by (auto simp: extends_def new_future_def)
  have res: "result_ok zero ?s i" if "result_ok zero s i" for i
    by (rule result_ok_extends [OF ext that]) (use assms(2) in \<open>auto simp: new_future_def\<close>)
  show ?thesis
    by (rule fut_invI [OF inv ext, where t = 0 and p = "threads s 0"])
      (use inv thread_ok_extends [OF ext] res in
        \<open>auto simp: new_future_def future_ok_def NewFuture_def fut_inv_def\<close>)
qed

lemma fut_inv_step:
  assumes "fut_step zero s s'" and inv: "fut_inv zero s"
  shows "fut_inv zero s'"
  using assms(1)
proof cases
  case (make i)
  with inv show ?thesis by (simp add: inv_make)
next
  case (user_complete i v e)
  then show ?thesis using inv_complete [OF inv, of i True v e] by simp
next
  case (cancel i t)
  with inv show ?thesis by (simp add: inv_thread_only)
next
  case (cancel_set t v i)
  then have "live s i" using inv by (auto simp: fut_inv_def dest: spec [of _ t])
  then have "fut_inv zero (do_complete True i v (Some ErrFutureCancelled) s)"
    using inv_complete [OF inv, of i True] by simp
  with cancel_set show ?thesis by (simp add: inv_thread_only)
next
  case (then_go i r t fn)
  have ext: "extends s s'" using then_go by (auto simp: extends_def new_future_def)
  have res: "result_ok zero s' j" if "result_ok zero s j" for j
  proof (cases "j = r")
    case True
    with then_go show ?thesis
      by (auto simp: result_ok_def new_future_def NewFuture_def)
  next
    case False
    show ?thesis by (rule result_ok_extends [OF ext that]) (use then_go False in \<open>auto simp: new_future_def\<close>)
  qed
  show ?thesis
    by (rule fut_invI [OF inv ext, where t = t and p = "ThenGet i fn r"])
      (use then_go inv res in \<open>auto simp: new_future_def future_ok_def NewFuture_def fut_inv_def\<close>)
next
  case (then_get t i fn r v e)
  have "thread_ok zero s (threads s t)" using inv by (simp add: fut_inv_def)
  moreover have "future_ok zero (futs s i)" using inv by (simp add: fut_inv_def)
  ultimately have "thread_ok zero s (case e of None \<Rightarrow> ThenCall fn v r | Some x \<Rightarrow> ThenErr x r)"
    using then_get by (auto simp: Get_def future_ok_def split: if_splits option.splits)
  with then_get inv show ?thesis by (simp add: inv_thread_only)
next
  case (then_err t x r)
  have "thread_ok zero s (threads s t)" using inv by (simp add: fut_inv_def)
  moreover have "future_ok zero (futs s r)" using inv by (simp add: fut_inv_def)
  ultimately have "thread_ok zero s (ThenSet (fvalue (futs s r)) (Some x) r)"
    using then_err by (auto simp: then_result_def future_ok_def)
  with then_err inv show ?thesis by (simp add: inv_thread_only)
next
  case (then_call t fn v r)
  have "thread_ok zero s (threads s t)" using inv by (simp add: fut_inv_def)
  then obtain i where i: "live s r" "live s i" "spec s r = Some (i, fn)"
      "complete (futs s i)" "ferr (futs s i) = None" "fvalue (futs s i) = v"
    using then_call by auto
  then have "then_result zero (futs s i) fn
      = (case fn v of FnRet u e \<Rightarrow> Some (u, e) | FnPanic \<Rightarrow> None)"
    by (simp add: then_result_def)
  then have "thread_ok zero s (case fn v of FnRet u e \<Rightarrow> ThenSet u e r | FnPanic \<Rightarrow> Ended)"
    using i by (cases "fn v") auto
  with then_call inv show ?thesis by (simp add: inv_thread_only)
next
  case (then_set t v e r)
  have ok: "thread_ok zero s (threads s t)" using inv by (simp add: fut_inv_def)
  then have "live s r" using then_set by simp
  with ok then_set inv show ?thesis by (simp add: inv_complete inv_thread_only)
qed

lemma fut_inv_init: "fut_inv zero (fsys_init zero)"
  by (simp add: fut_inv_def fsys_init_def future_ok_def NewFuture_def result_ok_def)

interpretation futures: guarded_system "\<lambda>s. s = fsys_init zero" "fut_step zero" "fut_inv zero" for zero
  by unfold_locales (simp_all add: fut_inv_init fut_inv_step)

definition fut_reach :: "'v \<Rightarrow> 'v fsys \<Rightarrow> bool" where
  "fut_reach zero s \<longleftrightarrow> (fut_step zero)\<^sup>*\<^sup>* (fsys_init zero) s"

lemma fut_reach_inv: "fut_reach zero s \<Longrightarrow> fut_inv zero s"
  unfolding fut_reach_def by (rule futures.inv_reachable [OF refl])

lemma fut_reach_step: "fut_reach zero s \<Longrightarrow> fut_step zero s t \<Longrightarrow> fut_reach zero t"
  unfolding fut_reach_def by (rule rtranclp.rtrancl_into_rtrancl)

text \<open>Every step extends the state, so a complete future is final.\<close>

lemma do_complete_extends: "fut_inv zero s \<Longrightarrow> extends s (do_complete user i v e s)"
  by (rule do_complete_cases [of zero s i user v e]) (auto simp: extends_def)

lemma fut_step_extends:
  assumes "fut_step zero s s'" and inv: "fut_inv zero s"
  shows "extends s s'"
  using assms(1)
proof cases
  case (user_complete i v e)
  then show ?thesis using do_complete_extends [OF inv] by blast
next
  case (cancel_set t v i)
  then show ?thesis using do_complete_extends [OF inv, of True i v] by (simp add: extends_def)
next
  case (then_set t v e r)
  then show ?thesis using do_complete_extends [OF inv, of False r v e] by (simp add: extends_def)
qed (auto simp: extends_def new_future_def)

lemma extends_trans: "extends r s \<Longrightarrow> extends s t \<Longrightarrow> extends r t"
  by (auto simp: extends_def)

lemma fut_run_extends: "(fut_step zero)\<^sup>*\<^sup>* s s' \<Longrightarrow> fut_inv zero s \<Longrightarrow> extends s s'"
proof (induction rule: rtranclp_induct)
  case (step t u)
  have "extends t u" by (rule fut_step_extends [OF step.hyps(2) futures.inv_run [OF step.hyps(1) step.prems]])
  then show ?case using extends_trans [OF step.IH [OF step.prems]] by simp
qed simp

section \<open>Properties\<close>

text \<open>C9: The first completion of a future is the only one. Whatever the goroutines of the program do
  after it (other calls of \<open>Complete\<close>, \<open>Cancel\<close>, \<open>Then\<close>), the future keeps its value and error, so every
  later \<open>Get\<close> returns the same; the \<open>done\<close> channel is closed exactly when the future is complete,
  never twice, and \<open>Get\<close> returns exactly when \<open>IsComplete\<close>.
\<close>

theorem future_completes_once:
  assumes "fut_reach zero s" and "live s i" and "(fut_step zero)\<^sup>*\<^sup>* s s'"
  shows "\<not> crashed s' \<and> (IsComplete (futs s' i) \<longleftrightarrow> Get (futs s' i) \<noteq> None)
       \<and> (IsComplete (futs s i) \<longrightarrow> Get (futs s' i) = Get (futs s i))"
proof -
  have inv: "fut_inv zero s" using assms(1) by (rule fut_reach_inv)
  have inv': "fut_inv zero s'" by (rule futures.inv_run [OF assms(3) inv])
  have "extends s s'" using fut_run_extends [OF assms(3) inv] .
  then show ?thesis
    using inv inv' assms(2) by (auto simp: fut_inv_def future_ok_def extends_def IsComplete_def Get_def)
qed

text \<open>\<open>Then\<close> composes. When the future that \<open>Then f fn\<close> returned is complete and its user did not
  complete it himself, then \<open>f\<close> is complete and the result is: the error of \<open>f\<close> with the zero
  value if \<open>f\<close> has an error (\<open>fn\<close> is not called), and otherwise what \<open>fn\<close> returns on the value of
  \<open>f\<close>. In particular nothing ever completes the result when \<open>fn\<close> panics.
\<close>

theorem Then_composes:
  assumes "fut_reach zero s" and "spec s r = Some (i, fn)"
    and "IsComplete (futs s r)" and "\<not> by_user s r"
  shows "IsComplete (futs s i) \<and>
    (case ferr (futs s i) of
       Some x \<Rightarrow> Get (futs s r) = Some (zero, Some x)
     | None \<Rightarrow> (\<exists>u e. fn (fvalue (futs s i)) = FnRet u e \<and> Get (futs s r) = Some (u, e)))"
proof -
  have inv: "fut_inv zero s" using assms(1) by (rule fut_reach_inv)
  have "result_ok zero s r" "future_ok zero (futs s r)" using inv by (simp_all add: fut_inv_def)
  then have "then_result zero (futs s i) fn = Some (fvalue (futs s r), ferr (futs s r))"
    and "Get (futs s r) = Some (fvalue (futs s r), ferr (futs s r))"
    using assms(2-4) by (auto simp: result_ok_def future_ok_def IsComplete_def Get_def)
  then show ?thesis
    by (auto simp: then_result_def IsComplete_def split: if_splits option.splits fnout.splits)
qed

section \<open>Runs\<close>

text \<open>Future 0 is completed with a value by its user, and the goroutine of \<open>Then\<close> makes future 1 of it.\<close>

definition chained :: "(nat \<Rightarrow> nat fnout) \<Rightarrow> nat fsys" where
  "chained fn = set_thread 0 (ThenCall fn 5 1)
     ((new_future 0 1 (do_complete True 0 5 None (new_future 0 0 (fsys_init 0))))
        \<lparr>spec := (\<lambda>_. None)(1 := Some (0, fn))\<rparr>)"

lemmas fsys_defs = set_thread_def new_future_def do_complete_def Complete_def NewFuture_def fsys_init_def

lemma chained_reach: "fut_reach 0 (chained fn)"
proof -
  let ?s1 = "new_future 0 0 (fsys_init 0) :: nat fsys"
  let ?s2 = "do_complete True 0 5 None ?s1"
  let ?s3 = "set_thread 0 (ThenGet 0 fn 1) ((new_future 0 1 ?s2)\<lparr>spec := (spec ?s2)(1 := Some (0, fn))\<rparr>)"
  have "fut_reach 0 ?s1"
    by (rule fut_reach_step [OF _ make]) (simp_all add: fut_reach_def fsys_init_def)
  then have "fut_reach 0 ?s2" by (rule fut_reach_step) (rule user_complete, simp add: fsys_defs)
  then have "fut_reach 0 ?s3" by (rule fut_reach_step) (rule then_go, simp_all add: fsys_defs)
  then show ?thesis
  proof (rule fut_reach_step)
    have "Get (futs ?s3 0) = Some (5, None)" by (simp add: fsys_defs Get_def)
    then show "fut_step 0 ?s3 (chained fn)"
      using then_get [of ?s3 0 0 fn 1 5 None 0] by (simp add: chained_def fsys_defs)
  qed
qed

definition mapped :: "nat fsys" where
  "mapped = set_thread 0 Ended (do_complete False 1 6 None
     (set_thread 0 (ThenSet 6 None 1) (chained (\<lambda>v. FnRet (Suc v) None))))"

lemma mapped_run:
  "(fut_step 0)\<^sup>*\<^sup>* (chained (\<lambda>v. FnRet (Suc v) None)) mapped"
proof -
  let ?fn = "\<lambda>v. FnRet (Suc v) None"
  let ?s = "set_thread 0 (ThenSet 6 None 1) (chained ?fn)"
  have "fut_step 0 (chained ?fn) (set_thread 0 (case ?fn 5 of FnRet u e \<Rightarrow> ThenSet u e 1 | FnPanic \<Rightarrow> Ended) (chained ?fn))"
    by (rule then_call) (simp add: chained_def)
  then have "fut_step 0 (chained ?fn) ?s" by simp
  moreover have "fut_step 0 ?s mapped" unfolding mapped_def by (rule then_set) simp
  ultimately show ?thesis by (meson converse_rtranclp_into_rtranclp rtranclp.rtrancl_refl)
qed

theorem future_completes_once_witness:
  "Get (futs mapped 0) = Some (5, None) \<and> \<not> crashed mapped"
  using future_completes_once [OF chained_reach _ mapped_run, of 0]
  by (simp add: chained_def fsys_defs IsComplete_def Get_def)

theorem Then_composes_witness:
  "Get (futs mapped 1) = Some (6, None) \<and> IsComplete (futs mapped 0)"
proof -
  have r: "fut_reach 0 mapped"
    using chained_reach mapped_run unfolding fut_reach_def by (meson rtranclp_trans)
  have "spec mapped 1 = Some (0, \<lambda>v. FnRet (Suc v) None)" "IsComplete (futs mapped 1)"
    "\<not> by_user mapped 1" "futs mapped 0 = \<lparr>fvalue = 5, ferr = None, complete = True, done_closed = True\<rparr>"
    by (simp_all add: mapped_def chained_def fsys_defs IsComplete_def)
  from Then_composes [OF r this(1-3)] this(4) show ?thesis by simp
qed

text \<open>A panic in the function given to \<open>Then\<close> leaves its result incomplete for ever: there is a run
  after which the goroutine of \<open>Then\<close> has ended, the source is complete without an error, and in
  every continuation \<open>Get\<close> of the result blocks, unless the user completes the result himself.
\<close>

theorem Then_panic_blocks_Get:
  "\<exists>s. fut_reach (0::nat) s \<and> threads s 0 = Ended \<and> Get (futs s 0) = Some (5, None) \<and> \<not> by_user s 1 \<and>
     (\<forall>s'. (fut_step 0)\<^sup>*\<^sup>* s s' \<and> \<not> by_user s' 1 \<longrightarrow> Get (futs s' 1) = None)"
proof -
  let ?fn = "\<lambda>v :: nat. FnPanic :: nat fnout"
  let ?s = "set_thread 0 Ended (chained ?fn)"
  have "fut_step 0 (chained ?fn) (set_thread 0 (case ?fn 5 of FnRet u e \<Rightarrow> ThenSet u e 1 | FnPanic \<Rightarrow> Ended) (chained ?fn))"
    by (rule then_call) (simp add: chained_def)
  then have r: "fut_reach 0 ?s" using fut_reach_step [OF chained_reach] by simp
  have "Get (futs s' 1) = None" if "(fut_step 0)\<^sup>*\<^sup>* ?s s'" "\<not> by_user s' 1" for s'
  proof -
    have inv: "fut_inv 0 s'" by (rule futures.inv_run [OF that(1) fut_reach_inv [OF r]])
    have "extends ?s s'" by (rule fut_run_extends [OF that(1) fut_reach_inv [OF r]])
    then have "spec s' 1 = Some (0, ?fn)" "futs s' 0 = futs ?s 0"
      by (simp_all add: extends_def chained_def fsys_defs)
    moreover have "result_ok 0 s' 1" "future_ok 0 (futs s' 1)" using inv by (simp_all add: fut_inv_def)
    ultimately show ?thesis using that(2)
      by (auto simp: result_ok_def then_result_def chained_def fsys_defs future_ok_def Get_def)
  qed
  then show ?thesis using r by (intro exI [of _ ?s]) (auto simp: chained_def fsys_defs Get_def)
qed

theorem Then_panic_blocks_Get_witness:
  "\<exists>s. fut_reach (0::nat) s \<and> threads s 0 = Ended \<and> Get (futs s 0) = Some (5, None) \<and> Get (futs s 1) = None"
  using Then_panic_blocks_Get by blast

end
