(* ===== verification/Future_Spec.thy ===== *)
theory Future_Spec
  imports Future_Model
begin

text \<open>
  What the futures of \<open>xsync/future.go\<close> promise, as a dataflow of cells that are written once, and the
  proof that the futures with their mutexes, channels and goroutines implement it: \<open>Then\<close>, which is a
  goroutine of several actions, is there one atomic write of a function of another cell. The second
  part shows that the goroutine does deliver.
\<close>

section \<open>Cells\<close>

text \<open>A cell that is there holds nothing yet or what was written into it; it may be derived from another.\<close>

record 'v cells =
  cell :: "nat \<Rightarrow> ('v \<times> ferror option) option option"
  derived :: "nat \<Rightarrow> (nat \<times> ('v \<Rightarrow> 'v fnout)) option"

definition no_cells :: "'v cells" where
  "no_cells = \<lparr>cell = \<lambda>_. None, derived = \<lambda>_. None\<rparr>"

text \<open>What a derived cell gets, from what its source holds.\<close>

fun derive :: "'v \<Rightarrow> ('v \<Rightarrow> 'v fnout) \<Rightarrow> 'v \<times> ferror option \<Rightarrow> ('v \<times> ferror option) option" where
  "derive zero fn (v, Some x) = Some (zero, Some x)"
| "derive zero fn (v, None) = (case fn v of FnRet u e \<Rightarrow> Some (u, e) | FnPanic \<Rightarrow> None)"

inductive cells_step :: "'v \<Rightarrow> 'v cells \<Rightarrow> 'v cells \<Rightarrow> bool" for zero where
  create: "cell a i = None \<Longrightarrow> cells_step zero a (a\<lparr>cell := (cell a)(i := Some None)\<rparr>)"
| create_derived: "cell a r = None \<Longrightarrow> cell a i \<noteq> None \<Longrightarrow>
    cells_step zero a (a\<lparr>cell := (cell a)(r := Some None), derived := (derived a)(r := Some (i, fn))\<rparr>)"
| user_write: "cell a i = Some None \<Longrightarrow> cells_step zero a (a\<lparr>cell := (cell a)(i := Some (Some x))\<rparr>)"
| derived_write: "cell a r = Some None \<Longrightarrow> derived a r = Some (i, fn) \<Longrightarrow> cell a i = Some (Some y) \<Longrightarrow>
    derive zero fn y = Some x \<Longrightarrow> cells_step zero a (a\<lparr>cell := (cell a)(r := Some (Some x))\<rparr>)"

section \<open>Matching\<close>

definition cell_of :: "'v fsys \<Rightarrow> nat \<Rightarrow> ('v \<times> ferror option) option option" where
  "cell_of s i = (if live s i then Some (Get (futs s i)) else None)"

definition matches_cells :: "'v fsys \<Rightarrow> 'v cells \<Rightarrow> bool" where
  "matches_cells s a \<longleftrightarrow> cell a = cell_of s \<and> derived a = spec s"

lemma then_result_derive:
  assumes "future_ok zero f"
  shows "then_result zero f fn = Some x \<longleftrightarrow> (\<exists>y. Get f = Some y \<and> derive zero fn y = Some x)"
  using assms by (cases "ferr f") (auto simp: then_result_def Get_def future_ok_def)

lemma cell_of_new: "cell_of (new_future zero i s) = (cell_of s)(i := Some None)"
  by (rule ext) (simp add: cell_of_def new_future_def NewFuture_def Get_def)

lemma cell_of_thread [simp]: "cell_of (set_thread t p s) = cell_of s"
  by (rule ext) (simp add: cell_of_def)

lemma cell_of_spec [simp]: "cell_of (s\<lparr>spec := f\<rparr>) = cell_of s"
  by (rule ext) (simp add: cell_of_def)

text \<open>Completing a live future writes its cell, or does nothing when it has been written.\<close>

lemma complete_cell:
  assumes "fut_inv zero s" and "live s i"
  shows "(\<exists>x. cell_of s i = Some (Some x)) \<and> do_complete user i v e s = s
    \<or> cell_of s i = Some None \<and> cell_of (do_complete user i v e s) = (cell_of s)(i := Some (Some (v, e)))
       \<and> spec (do_complete user i v e s) = spec s"
proof -
  have ok: "future_ok zero (futs s i)" using assms(1) by (simp add: fut_inv_def)
  show ?thesis
  proof (cases rule: do_complete_cases [OF assms(1), of i user v e])
    case 1
    then show ?thesis using ok assms(2) by (auto simp: cell_of_def Get_def future_ok_def)
  next
    case 2
    have "cell_of (do_complete user i v e s) = (cell_of s)(i := Some (Some (v, e)))"
      unfolding 2(2) by (rule ext) (use assms(2) in \<open>simp add: cell_of_def Get_def\<close>)
    then show ?thesis using 2 ok assms(2) by (simp add: cell_of_def Get_def future_ok_def)
  qed
qed

lemma matches_complete:
  assumes "fut_inv zero s" and "live s i" and "matches_cells s a"
    and "\<not> user \<Longrightarrow> cell_of s i = Some None \<Longrightarrow>
      \<exists>k fn y. spec s i = Some (k, fn) \<and> cell_of s k = Some (Some y) \<and> derive zero fn y = Some (v, e)"
  shows "\<exists>b. (cells_step zero)\<^sup>*\<^sup>* a b \<and> matches_cells (do_complete user i v e s) b"
  using complete_cell [OF assms(1,2), of user v e]
proof (elim disjE conjE)
  assume "do_complete user i v e s = s"
  then show ?thesis using assms(3) by auto
next
  let ?b = "a\<lparr>cell := (cell a)(i := Some (Some (v, e)))\<rparr>"
  assume c: "cell_of s i = Some None"
    "cell_of (do_complete user i v e s) = (cell_of s)(i := Some (Some (v, e)))"
    "spec (do_complete user i v e s) = spec s"
  have "cells_step zero a ?b"
  proof (cases user)
    case True
    show ?thesis by (rule user_write) (use assms(3) c in \<open>simp add: matches_cells_def\<close>)
  next
    case False
    then obtain k fn y where "spec s i = Some (k, fn)" "cell_of s k = Some (Some y)" "derive zero fn y = Some (v, e)"
      using assms(4) c(1) by blast
    then show ?thesis using assms(3) c by (intro derived_write [of _ _ k fn y]) (simp_all add: matches_cells_def)
  qed
  moreover have "matches_cells (do_complete user i v e s) ?b"
    using assms(3) c by (simp add: matches_cells_def)
  ultimately show ?thesis by blast
qed

section \<open>The simulation\<close>

lemma cells_simulate:
  assumes "fut_step zero s s'" and inv: "fut_inv zero s" and m: "matches_cells s a"
  shows "\<exists>b. (cells_step zero)\<^sup>*\<^sup>* a b \<and> matches_cells s' b"
  using assms(1)
proof cases
  case (make i)
  have "cells_step zero a (a\<lparr>cell := (cell a)(i := Some None)\<rparr>)"
    by (rule create) (use m make in \<open>simp add: matches_cells_def cell_of_def\<close>)
  moreover have "matches_cells s' (a\<lparr>cell := (cell a)(i := Some None)\<rparr>)"
    using m make by (simp add: matches_cells_def cell_of_new) (simp add: new_future_def)
  ultimately show ?thesis by blast
next
  case (then_go i r t fn)
  let ?b = "a\<lparr>cell := (cell a)(r := Some None), derived := (derived a)(r := Some (i, fn))\<rparr>"
  have "cells_step zero a ?b"
    by (rule create_derived) (use m then_go in \<open>simp_all add: matches_cells_def cell_of_def\<close>)
  moreover have "matches_cells s' ?b"
    using m then_go by (simp add: matches_cells_def cell_of_new)
  ultimately show ?thesis by blast
next
  case (user_complete i v e)
  then show ?thesis using matches_complete [OF inv _ m, of i True v e] by simp
next
  case (cancel_set t v i)
  then have "live s i" using inv by (auto simp: fut_inv_def dest: spec [of _ t])
  then show ?thesis using matches_complete [OF inv _ m, of i True v "Some ErrFutureCancelled"] cancel_set
    by (simp add: matches_cells_def)
next
  case (then_set t v e r)
  have t: "thread_ok zero s (ThenSet v e r)" using inv then_set by (metis fut_inv_def)
  have "\<exists>k fn y. spec s r = Some (k, fn) \<and> cell_of s k = Some (Some y) \<and> derive zero fn y = Some (v, e)"
    if c: "cell_of s r = Some None"
  proof -
    have f: "future_ok zero (futs s i)" for i using inv by (simp add: fut_inv_def)
    have "\<not> complete (futs s r)" using c f [of r] by (auto simp: cell_of_def Get_def future_ok_def split: if_splits)
    then obtain k fn where k: "live s k" "spec s r = Some (k, fn)" "then_result zero (futs s k) fn = Some (v, e)"
      using t by auto
    with then_result_derive [OF f] show ?thesis by (auto simp: cell_of_def)
  qed
  then show ?thesis using matches_complete [OF inv _ m, of r False v e] t then_set
    by (simp add: matches_cells_def)
qed (use m in \<open>(intro exI [of _ a], simp add: matches_cells_def)\<close>)+

interpretation dataflow: simulation "\<lambda>s. s = fsys_init zero" "fut_step zero" "fut_inv zero"
    "\<lambda>a. a = no_cells" "cells_step zero" matches_cells for zero
proof
  show "\<exists>a. a = no_cells \<and> matches_cells s a" if "s = fsys_init zero" for s :: "'a fsys" and zero
    using that by (simp add: matches_cells_def no_cells_def fsys_init_def cell_of_def fun_eq_iff)
  show "\<exists>b. (cells_step zero)\<^sup>*\<^sup>* a b \<and> matches_cells s' b"
    if "fut_step zero s s'" "fut_inv zero s" "matches_cells s a" for s s' :: "'a fsys" and a and zero
    using that by (rule cells_simulate)
qed

text \<open>In the specification, what is written stays.\<close>

lemma cells_kept:
  "(cells_step zero)\<^sup>*\<^sup>* a b \<Longrightarrow> cell a i = Some (Some x) \<Longrightarrow> cell b i = Some (Some x)"
  by (induction rule: rtranclp_induct) (auto elim!: cells_step.cases)

lemma futures_match:
  assumes "fut_reach zero s" and "(fut_step zero)\<^sup>*\<^sup>* s s'"
  shows "\<exists>a b. (cells_step zero)\<^sup>*\<^sup>* no_cells a \<and> matches_cells s a \<and> (cells_step zero)\<^sup>*\<^sup>* a b \<and> matches_cells s' b"
proof -
  obtain a where a: "(cells_step zero)\<^sup>*\<^sup>* no_cells a" "matches_cells s a"
    using dataflow.simulated [OF refl assms(1) [unfolded fut_reach_def]] by metis
  obtain b where "(cells_step zero)\<^sup>*\<^sup>* a b" "matches_cells s' b"
    using dataflow.match_run [OF assms(2) fut_reach_inv [OF assms(1)] a(2)] by metis
  with a show ?thesis by metis
qed

section \<open>Delivery\<close>

text \<open>The goroutine of \<open>Then\<close> that has a future as its result.\<close>

fun serves :: "'v thread \<Rightarrow> nat \<Rightarrow> bool" where
  "serves (ThenGet i fn r) j = (r = j)"
| "serves (ThenErr x r) j = (r = j)"
| "serves (ThenCall fn v r) j = (r = j)"
| "serves (ThenSet v e r) j = (r = j)"
| "serves _ j = False"

text \<open>
  A result that is not complete has a goroutine that works for it, or the goroutine ended with the
  panic of its function.
\<close>

definition panicked :: "'v fsys \<Rightarrow> nat \<Rightarrow> bool" where
  "panicked s r \<longleftrightarrow> (\<exists>i fn. spec s r = Some (i, fn) \<and> complete (futs s i) \<and> ferr (futs s i) = None
     \<and> fn (fvalue (futs s i)) = FnPanic)"

definition served :: "'v fsys \<Rightarrow> nat \<Rightarrow> bool" where
  "served s r \<longleftrightarrow> (spec s r \<noteq> None \<longrightarrow> complete (futs s r) \<or> (\<exists>t. serves (threads s t) r) \<or> panicked s r)"

lemma panicked_extends:
  assumes "extends s s'" and "result_ok zero s r" and "panicked s r"
  shows "panicked s' r"
  using assms unfolding panicked_def result_ok_def extends_def by metis

text \<open>What a step does to the goroutine of a result: it goes on, or has completed it, or has panicked.\<close>

lemma serving_goes_on:
  assumes "fut_step zero s s'" and inv: "fut_inv zero s" and "serves (threads s t) r"
  shows "serves (threads s' t) r \<or> complete (futs s' r) \<or> panicked s' r"
proof -
  have thr: "thread_ok zero s (threads s u)" for u using inv by (simp add: fut_inv_def)
  from assms(1) show ?thesis
  proof cases
    case (then_call u fn v q)
    show ?thesis
    proof (cases "u = t \<and> fn v = FnPanic")
      case True
      with then_call thr [of t] assms(3) have "panicked s' r" by (auto simp: panicked_def)
      then show ?thesis by blast
    next
      case False
      with then_call assms(3) show ?thesis by (auto split: fnout.splits)
    qed
  next
    case (then_set u v e q)
    have "complete (futs (do_complete False q v e s) q)"
      by (cases rule: do_complete_cases [OF inv, of q False v e]) simp_all
    moreover have "threads (do_complete False q v e s) = threads s"
      by (cases rule: do_complete_cases [OF inv, of q False v e]) simp_all
    ultimately show ?thesis using then_set assms(3) by auto
  next
    case (cancel_set u v i)
    have "threads (do_complete True i v (Some ErrFutureCancelled) s) = threads s"
      by (cases rule: do_complete_cases [OF inv, of i True v "Some ErrFutureCancelled"]) simp_all
    with cancel_set assms(3) show ?thesis by auto
  next
    case (user_complete i v e)
    have "threads (do_complete True i v e s) = threads s"
      by (cases rule: do_complete_cases [OF inv, of i True v e]) simp_all
    with user_complete assms(3) show ?thesis by auto
  qed (use assms(3) in \<open>auto simp: new_future_def split: option.splits\<close>)
qed

lemma served_step:
  assumes "fut_step zero s s'" and inv: "fut_inv zero s" and "\<forall>r. served s r"
  shows "\<forall>r. served s' r"
proof
  fix r
  have ext: "extends s s'" by (rule fut_step_extends [OF assms(1) inv])
  have res: "result_ok zero s r" using inv by (simp add: fut_inv_def)
  have "served s' r" if old: "spec s r \<noteq> None"
  proof -
    have "live s r" using old res by (auto simp: result_ok_def)
    then have "complete (futs s r) \<longrightarrow> complete (futs s' r)" using ext by (simp add: extends_def)
    moreover have "panicked s r \<longrightarrow> panicked s' r" using panicked_extends [OF ext res] by blast
    ultimately show ?thesis using assms(3) old serving_goes_on [OF assms(1) inv, of _ r] by (auto simp: served_def)
  qed
  moreover have "served s' r" if new: "spec s r = None" "spec s' r \<noteq> None"
    using assms(1)
  proof cases
    case (then_go i q t fn)
    with new have "serves (threads s' t) r" by (auto split: if_splits)
    then show ?thesis by (auto simp: served_def)
  qed (use new in \<open>auto simp: new_future_def do_complete_def split: sum.splits\<close>)
  ultimately show "served s' r" by (metis served_def)
qed

interpretation delivery: guarded_system "\<lambda>s. s = fsys_init zero" "fut_step zero"
    "\<lambda>s. fut_inv zero s \<and> (\<forall>r. served s r)" for zero
proof
  show "fut_inv zero s \<and> (\<forall>r. served s r)" if "s = fsys_init zero" for s :: "'a fsys" and zero
    using that fut_inv_init by (simp add: served_def fsys_init_def)
  show "fut_inv zero s' \<and> (\<forall>r. served s' r)"
    if "fut_step zero s s'" "fut_inv zero s \<and> (\<forall>r. served s r)" for s s' :: "'a fsys" and zero
    using fut_inv_step [OF that(1)] served_step [OF that(1)] that(2) by metis
qed

lemma reach_served: "fut_reach zero s \<Longrightarrow> served s r"
  using delivery.inv_reachable [OF refl, of zero s] by (simp add: fut_reach_def)

text \<open>The goroutine completes its result, touching nothing else.\<close>

definition delivered :: "'v fsys \<Rightarrow> 'v fsys \<Rightarrow> nat \<Rightarrow> 'v \<times> ferror option \<Rightarrow> bool" where
  "delivered s s' r x \<longleftrightarrow> Get (futs s' r) = Some x \<and> by_user s' = by_user s \<and> (\<forall>j. j \<noteq> r \<longrightarrow> futs s' j = futs s j)"

definition delivers :: "'v \<Rightarrow> nat \<Rightarrow> 'v fsys \<Rightarrow> nat \<Rightarrow> 'v \<times> ferror option \<Rightarrow> bool" where
  "delivers zero n s r x \<longleftrightarrow> (\<exists>k s'. k \<le> n \<and> (fut_step zero ^^ k) s s' \<and> delivered s s' r x)"

lemma delivers_after:
  assumes "fut_step zero s (set_thread t p s)" and "delivers zero n (set_thread t p s) r x"
  shows "delivers zero (Suc n) s r x"
proof -
  obtain k s' where k: "k \<le> n" "(fut_step zero ^^ k) (set_thread t p s) s'" "delivered (set_thread t p s) s' r x"
    using assms(2) by (auto simp: delivers_def)
  have "(fut_step zero ^^ Suc k) s s'" using relpowp_Suc_I2 [OF assms(1) k(2)] .
  moreover have "delivered s s' r x" using k(3) by (simp add: delivered_def)
  ultimately show ?thesis using k(1) unfolding delivers_def by (intro exI [of _ "Suc k"] exI [of _ s']) simp
qed

lemma set_delivers:
  assumes "fut_inv zero s" and "threads s t = ThenSet v e r" and "\<not> complete (futs s r)"
  shows "delivers zero 1 s r (v, e)"
proof -
  let ?s = "set_thread t Ended (do_complete False r v e s)"
  have "fut_step zero s ?s" using assms(2) by (rule then_set)
  moreover have "delivered s ?s r (v, e)"
    by (cases rule: do_complete_cases [OF assms(1), of r False v e]) (use assms(3) in \<open>simp_all add: delivered_def Get_def\<close>)
  ultimately show ?thesis unfolding delivers_def by (intro exI [of _ 1] exI [of _ ?s]) (simp add: eq_OO)
qed

text \<open>The three actions of the goroutine, the last first.\<close>

lemma call_delivers:
  assumes "fut_inv zero s" and "threads s t = ThenCall fn v r" and "fn v = FnRet u e" and "\<not> complete (futs s r)"
  shows "delivers zero 2 s r (u, e)"
proof -
  have st: "fut_step zero s (set_thread t (ThenSet u e r) s)"
    using then_call [OF assms(2), of zero] assms(3) by simp
  have "delivers zero 1 (set_thread t (ThenSet u e r) s) r (u, e)"
    by (rule set_delivers [OF fut_inv_step [OF st assms(1)], where t = t]) (use assms(4) in simp_all)
  from delivers_after [OF st this] show ?thesis by (simp add: numeral_2_eq_2)
qed

lemma err_delivers:
  assumes "fut_inv zero s" and "threads s t = ThenErr x r" and "\<not> complete (futs s r)"
  shows "delivers zero 2 s r (zero, Some x)"
proof -
  have z: "fvalue (futs s r) = zero" using assms(1,3) by (auto simp: fut_inv_def future_ok_def)
  have st: "fut_step zero s (set_thread t (ThenSet zero (Some x) r) s)"
    using then_err [OF assms(2), of zero] z by simp
  have "delivers zero 1 (set_thread t (ThenSet zero (Some x) r) s) r (zero, Some x)"
    by (rule set_delivers [OF fut_inv_step [OF st assms(1)], where t = t]) (use assms(3) in simp_all)
  from delivers_after [OF st this] show ?thesis by (simp add: numeral_2_eq_2)
qed

lemma get_delivers:
  assumes "fut_inv zero s" and "threads s t = ThenGet i fn r" and "Get (futs s i) = Some y"
    and "derive zero fn y = Some x" and "\<not> complete (futs s r)"
  shows "delivers zero 3 s r x"
proof -
  obtain v e where y: "y = (v, e)" by (cases y)
  let ?p = "case e of None \<Rightarrow> ThenCall fn v r | Some a \<Rightarrow> ThenErr a r"
  have st: "fut_step zero s (set_thread t ?p s)" using then_get [OF assms(2)] assms(3) y by blast
  note inv = fut_inv_step [OF st assms(1)]
  have "delivers zero 2 (set_thread t ?p s) r x"
  proof (cases e)
    case None
    with assms(4) y obtain u e' where u: "fn v = FnRet u e'" "x = (u, e')" by (auto split: fnout.splits)
    show ?thesis unfolding u(2) by (rule call_delivers [OF inv, where t = t and fn = fn and v = v]) (use None u(1) assms(5) in simp_all)
  next
    case (Some a)
    with assms(4) y have "x = (zero, Some a)" by simp
    then show ?thesis using err_delivers [OF inv, of t a r] Some assms(5) by simp
  qed
  from delivers_after [OF st this] show ?thesis by (simp add: numeral_3_eq_3 numeral_2_eq_2)
qed

lemma delivers_mono: "delivers zero n s r x \<Longrightarrow> n \<le> m \<Longrightarrow> delivers zero m s r x"
  unfolding delivers_def by (meson order_trans)

lemma goroutine_delivers:
  assumes inv: "fut_inv zero s" and "serves (threads s t) r" and "spec s r = Some (i, fn)"
    and "Get (futs s i) = Some y" and "derive zero fn y = Some x" and nc: "\<not> complete (futs s r)"
  shows "delivers zero 3 s r x"
proof -
  have ok: "thread_ok zero s (threads s t)" "future_ok zero (futs s i)" using inv by (simp_all add: fut_inv_def)
  have tr: "then_result zero (futs s i) fn = Some x"
    using then_result_derive [OF ok(2)] assms(4,5) by blast
  show ?thesis
  proof (cases "threads s t")
    case (ThenGet j g q)
    then have "threads s t = ThenGet i fn r" using assms(2,3) ok(1) by simp
    from get_delivers [OF inv this assms(4,5) nc] show ?thesis .
  next
    case (ThenErr a q)
    then have "x = (zero, Some a)" using tr assms(2,3) ok(1) by (auto simp: then_result_def)
    moreover have "threads s t = ThenErr a r" using ThenErr assms(2) by simp
    ultimately show ?thesis using err_delivers [OF inv, of t a r] nc delivers_mono [of zero 2 s r x 3] by simp
  next
    case (ThenCall g v q)
    then have g: "g = fn" "fvalue (futs s i) = v" "ferr (futs s i) = None" "threads s t = ThenCall fn v r"
      using assms(2,3) ok(1) by auto
    with tr obtain u e where u: "fn v = FnRet u e" "x = (u, e)"
      by (auto simp: then_result_def split: fnout.splits if_splits)
    show ?thesis
      using call_delivers [OF inv g(4) u(1) nc] delivers_mono [of zero 2 s r x 3] u(2) by simp
  next
    case (ThenSet v e q)
    then have "x = (v, e)" using tr assms(2,3) ok(1) nc by auto
    moreover have "threads s t = ThenSet v e r" using ThenSet assms(2) by simp
    ultimately show ?thesis using set_delivers [OF inv, of t v e r] nc delivers_mono [of zero 1 s r x 3] by simp
  qed (use assms(2) in simp_all)
qed

section \<open>Properties\<close>

text \<open>C10: The futures implement cells that are written once: every interleaving of users, cancellations
  and goroutines of \<open>Then\<close> from a reachable state is matched by writes of such cells, where a
  derived cell is written in one action, by its user or with the function of its source's contents
  (the zero value and the error of the source, or what \<open>fn\<close> makes of its value). A cell that is
  written keeps its contents, and they are what \<open>Get\<close> of the future returns, then and later.
\<close>

theorem futures_refine_cells:
  assumes "fut_reach zero s" and "(fut_step zero)\<^sup>*\<^sup>* s s'"
  shows "\<exists>a b. (cells_step zero)\<^sup>*\<^sup>* no_cells a \<and> matches_cells s a \<and> (cells_step zero)\<^sup>*\<^sup>* a b \<and> matches_cells s' b
    \<and> (\<forall>i x. cell a i = Some (Some x) \<longrightarrow> cell b i = Some (Some x) \<and> Get (futs s i) = Some x \<and> Get (futs s' i) = Some x)"
proof -
  obtain a b where ab: "(cells_step zero)\<^sup>*\<^sup>* no_cells a" "matches_cells s a" "(cells_step zero)\<^sup>*\<^sup>* a b" "matches_cells s' b"
    using futures_match [OF assms] by metis
  have "cell b i = Some (Some x) \<and> Get (futs s i) = Some x \<and> Get (futs s' i) = Some x" if "cell a i = Some (Some x)" for i x
    using cells_kept [OF ab(3) that] that ab(2,4) by (auto simp: matches_cells_def cell_of_def split: if_splits)
  with ab show ?thesis by (intro exI [of _ a] exI [of _ b]) simp
qed

theorem futures_refine_cells_witness:
  "\<exists>a b. (cells_step 0)\<^sup>*\<^sup>* no_cells a \<and> cell a 1 = Some None \<and> (cells_step 0)\<^sup>*\<^sup>* a b
       \<and> cell b 0 = Some (Some (5::nat, None)) \<and> cell b 1 = Some (Some (6, None))"
proof -
  obtain a b where ab: "(cells_step 0)\<^sup>*\<^sup>* no_cells a" "matches_cells (chained (\<lambda>v. FnRet (Suc v) None)) a"
      "(cells_step 0)\<^sup>*\<^sup>* a b" "matches_cells mapped b"
    using futures_refine_cells [OF chained_reach mapped_run] by blast
  have "cell_of (chained (\<lambda>v. FnRet (Suc v) None)) 1 = Some None" "cell_of mapped 0 = Some (Some (5, None))"
    "cell_of mapped 1 = Some (Some (6, None))"
    by (simp_all add: cell_of_def chained_def mapped_def fsys_defs Get_def)
  with ab show ?thesis by (intro exI [of _ a] exI [of _ b]) (simp add: matches_cells_def)
qed

text \<open>C11: \<open>Then\<close> delivers. In every reachable state in which the source of a \<open>Then\<close> is complete and the
  function returns on its value (or the source has an error), the result is complete, or the
  goroutine of this \<open>Then\<close> completes it, in at most three actions, with what the function returns (or
  the error), while no user completes a future and no other future changes.
\<close>

theorem Then_delivers:
  assumes "fut_reach zero s" and "spec s r = Some (i, fn)" and "Get (futs s i) = Some y" and "derive zero fn y = Some x"
  shows "Get (futs s r) \<noteq> None
    \<or> (\<exists>n s'. n \<le> 3 \<and> (fut_step zero ^^ n) s s' \<and> Get (futs s' r) = Some x
         \<and> by_user s' = by_user s \<and> (\<forall>j. j \<noteq> r \<longrightarrow> futs s' j = futs s j))"
proof -
  note inv = fut_reach_inv [OF assms(1)]
  have ok: "future_ok zero (futs s r)" "future_ok zero (futs s i)" using inv by (simp_all add: fut_inv_def)
  have "\<not> panicked s r"
    using assms(2-4) by (auto simp: panicked_def Get_def split: if_splits)
  then consider "complete (futs s r)" | t where "\<not> complete (futs s r)" "serves (threads s t) r"
    using reach_served [OF assms(1), of r] assms(2) by (auto simp: served_def)
  then show ?thesis
  proof cases
    case 1
    with ok(1) show ?thesis by (simp add: Get_def future_ok_def)
  next
    case 2
    from goroutine_delivers [OF inv 2(2) assms(2-4) 2(1)] show ?thesis
      unfolding delivers_def delivered_def by blast
  qed
qed

theorem Then_delivers_witness:
  "\<exists>n s'. n \<le> 3 \<and> (fut_step 0 ^^ n) (chained (\<lambda>v. FnRet (Suc v) None)) s' \<and> Get (futs s' 1) = Some (6, None)"
proof -
  let ?s = "chained (\<lambda>v. FnRet (Suc v) None)"
  have f: "spec ?s 1 = Some (0, \<lambda>v. FnRet (Suc v) None)" "Get (futs ?s 0) = Some (5, None)"
    "derive 0 (\<lambda>v. FnRet (Suc v) None) (5, None) = Some (6::nat, None)" "Get (futs ?s 1) = None"
    by (simp_all add: chained_def fsys_defs Get_def)
  show ?thesis using Then_delivers [OF chained_reach f(1-3)] f(4) by blast
qed

end
