(* ===== verification/Errors_Model.thy ===== *)
theory Errors_Model
  imports Go_Strings
begin

text \<open>
  The package \<open>errors\<close> (\<open>errors/errors.go\<close>). An error is an object with a text and, by its method
  \<open>Unwrap\<close>, nothing, one error or a list of errors below it; errors are compared by the identity of the
  object they point to, the number in each node, and a function that makes errors takes the
  identity to use. An \<open>error\<close> value is an option, \<open>None\<close> for \<open>nil\<close>. The functions of the standard library
  are defined; those of \<open>github.com/pkg/errors\<close>, to which most of the package delegates, are a parameter.
\<close>

section \<open>Errors and the standard library\<close>

datatype gerr =
    ENew nat string
  | EWrap nat string gerr
  | EJoin nat "gerr list"

type_synonym goerror = "gerr option"

fun error_text :: "gerr \<Rightarrow> string" where
  "error_text (ENew _ m) = m"
| "error_text (EWrap _ m _) = m"
| "error_text (EJoin _ es) = join [CHR 0x0A] (map error_text es)"

text \<open>\<open>errors.Is\<close> looks for the target in the tree of the error.\<close>

fun in_tree :: "gerr \<Rightarrow> gerr \<Rightarrow> bool" where
  "in_tree t (ENew k m) = (t = ENew k m)"
| "in_tree t (EWrap k m e) = (t = EWrap k m e \<or> in_tree t e)"
| "in_tree t (EJoin k es) = (t = EJoin k es \<or> list_ex (in_tree t) es)"

definition std_Is :: "goerror \<Rightarrow> goerror \<Rightarrow> bool" where
  "std_Is e t = (case (e, t) of (Some e', Some t') \<Rightarrow> in_tree t' e' | _ \<Rightarrow> e = t)"

definition std_Unwrap :: "goerror \<Rightarrow> goerror" where
  "std_Unwrap e = (case e of Some (EWrap _ _ e') \<Rightarrow> Some e' | _ \<Rightarrow> None)"

section \<open>The wrappers of pkg/errors\<close>

text \<open>
  The parameter. Arguments of a format are of type \<open>'a\<close>. The target of \<open>As\<close> is the set of errors that can be
  assigned to it, and its result is what is assigned. \<open>stack_tracer\<close> is the assertion that an
  error has a method \<open>StackTrace\<close>, with the frames it gives, and \<open>frame_text\<close> their text by \<open>%+v\<close>.
\<close>

record ('a, 'f) pkgerrors =
  pkg_New :: "nat \<Rightarrow> string \<Rightarrow> goerror"
  pkg_Errorf :: "nat \<Rightarrow> string \<Rightarrow> 'a list \<Rightarrow> goerror"
  pkg_Wrap :: "nat \<Rightarrow> goerror \<Rightarrow> string \<Rightarrow> goerror"
  pkg_Wrapf :: "nat \<Rightarrow> goerror \<Rightarrow> string \<Rightarrow> 'a list \<Rightarrow> goerror"
  pkg_WithMessage :: "nat \<Rightarrow> goerror \<Rightarrow> string \<Rightarrow> goerror"
  pkg_WithMessagef :: "nat \<Rightarrow> goerror \<Rightarrow> string \<Rightarrow> 'a list \<Rightarrow> goerror"
  pkg_Is :: "goerror \<Rightarrow> goerror \<Rightarrow> bool"
  pkg_As :: "goerror \<Rightarrow> (gerr \<Rightarrow> bool) \<Rightarrow> goerror"
  pkg_Unwrap :: "goerror \<Rightarrow> goerror"
  stack_tracer :: "gerr \<Rightarrow> 'f list option"
  frame_text :: "'f \<Rightarrow> string"

definition New :: "('a, 'f) pkgerrors \<Rightarrow> nat \<Rightarrow> string \<Rightarrow> goerror" where
  "New P k message = pkg_New P k message"

definition Errorf :: "('a, 'f) pkgerrors \<Rightarrow> nat \<Rightarrow> string \<Rightarrow> 'a list \<Rightarrow> goerror" where
  "Errorf P k fmt args = pkg_Errorf P k fmt args"

definition Wrap :: "('a, 'f) pkgerrors \<Rightarrow> nat \<Rightarrow> goerror \<Rightarrow> string \<Rightarrow> goerror" where
  "Wrap P k err message = pkg_Wrap P k err message"

definition Wrapf :: "('a, 'f) pkgerrors \<Rightarrow> nat \<Rightarrow> goerror \<Rightarrow> string \<Rightarrow> 'a list \<Rightarrow> goerror" where
  "Wrapf P k err fmt args = pkg_Wrapf P k err fmt args"

definition WithMessage :: "('a, 'f) pkgerrors \<Rightarrow> nat \<Rightarrow> goerror \<Rightarrow> string \<Rightarrow> goerror" where
  "WithMessage P k err message = pkg_WithMessage P k err message"

definition WithMessagef :: "('a, 'f) pkgerrors \<Rightarrow> nat \<Rightarrow> goerror \<Rightarrow> string \<Rightarrow> 'a list \<Rightarrow> goerror" where
  "WithMessagef P k err fmt args = pkg_WithMessagef P k err fmt args"

definition Is :: "('a, 'f) pkgerrors \<Rightarrow> goerror \<Rightarrow> goerror \<Rightarrow> bool" where
  "Is P err target = pkg_Is P err target"

definition As :: "('a, 'f) pkgerrors \<Rightarrow> goerror \<Rightarrow> (gerr \<Rightarrow> bool) \<Rightarrow> goerror" where
  "As P err target = pkg_As P err target"

definition Unwrap :: "('a, 'f) pkgerrors \<Rightarrow> goerror \<Rightarrow> goerror" where
  "Unwrap P err = pkg_Unwrap P err"

definition StackTrace :: "('a, 'f) pkgerrors \<Rightarrow> goerror \<Rightarrow> string" where
  "StackTrace P err = (case err of
     None \<Rightarrow> []
   | Some e \<Rightarrow> (case stack_tracer P e of
       None \<Rightarrow> []
     | Some stack \<Rightarrow> if length stack = 0 then []
                     else concat (map (\<lambda>f. frame_text P f @ [CHR 0x0A]) stack)))"

text \<open>
  What its documentation says of \<open>pkg/errors\<close>: \<open>Is\<close> and \<open>Unwrap\<close> are those of the standard library; a new error
  is not \<open>nil\<close>; wrapping \<open>nil\<close> gives \<open>nil\<close>, and wrapping an error gives one that unwraps to it in some
  steps and whose text is the message, a colon and the text of the error; an error of \<open>New\<close>, \<open>Errorf\<close>, \<open>Wrap\<close>
  or \<open>Wrapf\<close> has a stack trace. The error of \<open>Join\<close> of the standard library has none.
\<close>

definition annotates :: "goerror \<Rightarrow> string \<Rightarrow> goerror \<Rightarrow> bool" where
  "annotates err message w = (case err of
     None \<Rightarrow> w = None
   | Some e \<Rightarrow> (case w of None \<Rightarrow> False
       | Some x \<Rightarrow> in_tree e x \<and> error_text x = message @ '': '' @ error_text e))"

definition traced :: "('a, 'f) pkgerrors \<Rightarrow> goerror \<Rightarrow> bool" where
  "traced P err = (case err of None \<Rightarrow> True | Some e \<Rightarrow> stack_tracer P e \<noteq> None)"

definition pkgerrors_ok :: "('a, 'f) pkgerrors \<Rightarrow> bool" where
  "pkgerrors_ok P \<longleftrightarrow> pkg_Is P = std_Is \<and> pkg_Unwrap P = std_Unwrap
   \<and> (\<forall>k m. \<exists>e. pkg_New P k m = Some e \<and> error_text e = m \<and> stack_tracer P e \<noteq> None)
   \<and> (\<forall>k m as. pkg_Errorf P k m as \<noteq> None \<and> traced P (pkg_Errorf P k m as))
   \<and> (\<forall>k e m. annotates e m (pkg_Wrap P k e m) \<and> traced P (pkg_Wrap P k e m))
   \<and> (\<forall>k e m as. (\<exists>t. annotates e t (pkg_Wrapf P k e m as)) \<and> traced P (pkg_Wrapf P k e m as))
   \<and> (\<forall>k e m. annotates e m (pkg_WithMessage P k e m))
   \<and> (\<forall>k e m as. \<exists>t. annotates e t (pkg_WithMessagef P k e m as))
   \<and> (\<forall>k es. stack_tracer P (EJoin k es) = None)"

section \<open>Joining\<close>

definition Join :: "nat \<Rightarrow> goerror list \<Rightarrow> goerror" where
  "Join k errs = (case List.map_filter id errs of [] \<Rightarrow> None | es \<Rightarrow> Some (EJoin k es))"

text \<open>The loop of \<open>JoinUnsimilar\<close>; the joins it makes are numbered from \<open>k\<close>.\<close>

fun join_unsimilar :: "nat \<Rightarrow> goerror \<Rightarrow> goerror list \<Rightarrow> goerror" where
  "join_unsimilar k err [] = err"
| "join_unsimilar k err (e # es) =
     (if e = None then join_unsimilar k err es
      else if std_Is err e then join_unsimilar k err es
      else join_unsimilar (k + 1) (Join k [err, e]) es)"

definition JoinUnsimilar :: "nat \<Rightarrow> goerror list \<Rightarrow> goerror go" where
  "JoinUnsimilar k errs = (case errs of [] \<Rightarrow> Inl IndexOutOfRange | e # es \<Rightarrow> Inr (join_unsimilar k e es))"

section \<open>The joining error object\<close>

record SafeJoinError = jerr :: goerror

definition NewSafeJoinError :: SafeJoinError where
  "NewSafeJoinError = \<lparr>jerr = None\<rparr>"

definition SafeJoin :: "nat \<Rightarrow> goerror list \<Rightarrow> SafeJoinError \<Rightarrow> SafeJoinError" where
  "SafeJoin k errs e = e\<lparr>jerr := Join k errs\<rparr>"

definition HasError :: "SafeJoinError \<Rightarrow> bool" where
  "HasError e \<longleftrightarrow> jerr e \<noteq> None"

definition Error :: "SafeJoinError \<Rightarrow> string" where
  "Error e = (case jerr e of None \<Rightarrow> [] | Some x \<Rightarrow> error_text x)"

section \<open>Lemmas\<close>

lemma in_tree_refl [simp]: "in_tree t t"
  by (cases t) simp_all

lemma in_tree_trans: "in_tree b a \<Longrightarrow> in_tree c b \<Longrightarrow> in_tree c a"
  by (induction a rule: in_tree.induct [of _ b]) (auto simp: list_ex_iff)

lemma std_Is_Some [simp]: "std_Is (Some e) (Some t) = in_tree t e"
  by (simp add: std_Is_def)

lemma std_Is_None [simp]: "std_Is None (Some t) = False" "std_Is e None \<longleftrightarrow> e = None"
  by (auto simp: std_Is_def split: option.splits)

lemma Join_two: "e \<noteq> None \<Longrightarrow> Join k [err, e] = Some (EJoin k (case err of None \<Rightarrow> [the e] | Some x \<Rightarrow> [x, the e]))"
  by (auto simp: Join_def map_filter_def)

lemma Join_None_iff: "Join k errs = None \<longleftrightarrow> set errs \<subseteq> {None}"
  by (induction errs) (auto simp: Join_def map_filter_def split: list.splits)

lemma Join_Is:
  assumes "Some e \<in> set errs" and "std_Is (Some e) t"
  shows "std_Is (Join k errs) t"
proof (cases t)
  case None
  with assms show ?thesis by simp
next
  case (Some t')
  have "e \<in> set (List.map_filter id errs)" using assms(1) by (force simp: map_filter_def)
  then show ?thesis using assms(2) Some
    by (auto simp: Join_def list_ex_iff split: list.splits)
qed

text \<open>The loop keeps what the error it starts from contains, and adds the rest.\<close>

lemma join_unsimilar_keeps:
  "std_Is err (Some t) \<Longrightarrow> std_Is (join_unsimilar k err es) (Some t)"
proof (induction k err es rule: join_unsimilar.induct)
  case (2 k err e es)
  then show ?case
    using Join_Is [of "the err" "[err, e]" "Some t" k] by (cases err) auto
qed simp

lemma join_unsimilar_adds:
  "Some t \<in> set es \<Longrightarrow> std_Is (join_unsimilar k err es) (Some t)"
proof (induction k err es rule: join_unsimilar.induct)
  case (2 k err e es)
  show ?case
  proof (cases "e = Some t")
    case True
    then show ?thesis
      using Join_Is [of t "[err, e]" "Some t" k] by (auto simp: join_unsimilar_keeps)
  next
    case False
    with 2 show ?thesis by auto
  qed
qed simp

lemma join_unsimilar_None: "join_unsimilar k err es = None \<longleftrightarrow> err = None \<and> set es \<subseteq> {None}"
proof (induction k err es rule: join_unsimilar.induct)
  case (2 k err e es)
  then show ?case by (cases e; cases err) (auto simp: Join_two)
qed simp

text \<open>The base errors of a tree, in order.\<close>

fun bases :: "gerr \<Rightarrow> gerr list" where
  "bases (ENew k m) = [ENew k m]"
| "bases (EWrap k m e) = bases e"
| "bases (EJoin k es) = concat (map bases es)"

definition opt_bases :: "goerror \<Rightarrow> gerr list" where
  "opt_bases e = (case e of None \<Rightarrow> [] | Some x \<Rightarrow> bases x)"

fun is_base :: "gerr \<Rightarrow> bool" where
  "is_base (ENew _ _) = True"
| "is_base _ = False"

lemma bases_base: "is_base x \<Longrightarrow> bases x = [x]"
  by (cases x) simp_all

lemma in_tree_base: "is_base t \<Longrightarrow> in_tree t e \<longleftrightarrow> t \<in> set (bases e)"
  by (induction e rule: bases.induct) (auto simp: list_ex_iff)

lemma join_unsimilar_bases:
  assumes "\<forall>e. Some e \<in> set es \<longrightarrow> is_base e" and "distinct (opt_bases err)"
  shows "distinct (opt_bases (join_unsimilar k err es))
       \<and> set (opt_bases (join_unsimilar k err es)) = set (opt_bases err) \<union> {e. Some e \<in> set es}"
  using assms
proof (induction k err es rule: join_unsimilar.induct)
  case (2 k err e es)
  show ?case
  proof (cases e)
    case None
    with 2 show ?thesis by auto
  next
    case (Some x)
    then have x: "is_base x" "bases x = [x]" using 2(4) by (cases x; auto)+
    show ?thesis
    proof (cases "std_Is err e")
      case True
      then have "x \<in> set (opt_bases err)" using Some x by (cases err) (auto simp: opt_bases_def in_tree_base)
      moreover have "distinct (opt_bases (join_unsimilar k err es))
          \<and> set (opt_bases (join_unsimilar k err es)) = set (opt_bases err) \<union> {e. Some e \<in> set es}"
        using 2(2) [OF _ True] 2(4,5) Some by auto
      ultimately show ?thesis using True Some by auto
    next
      case False
      then have "x \<notin> set (opt_bases err)" using Some x by (cases err) (auto simp: opt_bases_def in_tree_base)
      moreover have "opt_bases (Join k [err, e]) = opt_bases err @ [x]"
        using Some x by (cases err) (auto simp: Join_two opt_bases_def)
      ultimately show ?thesis using 2(3) [OF _ False] 2(4,5) Some False by auto
    qed
  qed
qed simp

section \<open>Wrapping\<close>

text \<open>Wrapping keeps \<open>nil\<close>, and what is in an error is in every wrapping of it.\<close>

lemma annotates_Is: "annotates err m w \<Longrightarrow> std_Is err t \<Longrightarrow> std_Is w t \<or> t = None"
  by (cases err; cases w; cases t) (auto simp: annotates_def intro: in_tree_trans)

lemma wrapping_keeps:
  assumes P: "pkgerrors_ok P" and w: "w \<in> {Wrap P k err m, Wrapf P k err m as, WithMessage P k err m, WithMessagef P k err m as}"
  shows "(w = None \<longleftrightarrow> err = None) \<and> (Is P err (Some t) \<longrightarrow> Is P w (Some t))"
proof -
  have laws: "pkg_Is P = std_Is" "annotates err m (pkg_Wrap P k err m)" "\<exists>a. annotates err a (pkg_Wrapf P k err m as)"
    "annotates err m (pkg_WithMessage P k err m)" "\<exists>b. annotates err b (pkg_WithMessagef P k err m as)"
    using P by (simp_all add: pkgerrors_ok_def)
  then obtain u where u: "annotates err u w"
    using w by (auto simp: Wrap_def Wrapf_def WithMessage_def WithMessagef_def)
  note laws(1)
  moreover have "std_Is err (Some t) \<longrightarrow> std_Is w (Some t)" using annotates_Is [OF u, of "Some t"] by blast
  moreover have "w = None \<longleftrightarrow> err = None" using u by (cases err; cases w) (auto simp: annotates_def)
  ultimately show ?thesis by (simp add: Is_def)
qed

text \<open>The stack is asked of the outermost error only: a join has none, whatever is in it.\<close>

lemma StackTrace_of_join: "pkgerrors_ok P \<Longrightarrow> StackTrace P (Join k errs) = []"
  by (auto simp: StackTrace_def pkgerrors_ok_def split: option.splits) (auto simp: Join_def split: list.splits)

text \<open>An instance of the parameter, with a frame for each error that records its stack.\<close>

definition demo_errors :: "(string, nat) pkgerrors" where
  "demo_errors = \<lparr>pkg_New = \<lambda>k m. Some (ENew k m), pkg_Errorf = \<lambda>k m as. Some (ENew k (concat (m # as))),
     pkg_Wrap = \<lambda>k e m. map_option (\<lambda>x. EWrap k (m @ '': '' @ error_text x) (EWrap k (m @ '': '' @ error_text x) x)) e,
     pkg_Wrapf = \<lambda>k e m as. map_option (\<lambda>x. EWrap k (concat (m # as) @ '': '' @ error_text x) x) e,
     pkg_WithMessage = \<lambda>k e m. map_option (\<lambda>x. EWrap k (m @ '': '' @ error_text x) x) e,
     pkg_WithMessagef = \<lambda>k e m as. map_option (\<lambda>x. EWrap k (concat (m # as) @ '': '' @ error_text x) x) e,
     pkg_Is = std_Is, pkg_As = \<lambda>e t. (case e of Some x \<Rightarrow> if t x then Some x else None | None \<Rightarrow> None), pkg_Unwrap = std_Unwrap,
     stack_tracer = \<lambda>e. (case e of EJoin _ _ \<Rightarrow> None | ENew k _ \<Rightarrow> Some [k] | EWrap k _ _ \<Rightarrow> Some [k]),
     frame_text = \<lambda>k. ''main.go''\<rparr>"

lemma demo_errors_ok: "pkgerrors_ok demo_errors"
proof -
  have "annotates e m (map_option (\<lambda>x. EWrap k (m @ '': '' @ error_text x) x) e)" for e m k
    by (cases e) (simp_all add: annotates_def)
  then show ?thesis
    by (auto simp: pkgerrors_ok_def demo_errors_def traced_def annotates_def split: option.splits)
qed

section \<open>Properties\<close>

text \<open>\<open>JoinUnsimilar\<close> loses no error and repeats none: on a non-empty argument list it returns \<open>nil\<close>
  exactly when all arguments are \<open>nil\<close>, every argument is found in the result by \<open>Is\<close>, and when
  the arguments are base errors the result contains each of them exactly once. On the empty list
  it panics.
\<close>

theorem JoinUnsimilar_contains_each_once:
  assumes "errs \<noteq> []"
  shows "JoinUnsimilar k [] = Inl IndexOutOfRange \<and>
    (\<exists>r. JoinUnsimilar k errs = Inr r \<and> (r = None \<longleftrightarrow> set errs = {None})
       \<and> (\<forall>e. Some e \<in> set errs \<longrightarrow> std_Is r (Some e))
       \<and> ((\<forall>e. Some e \<in> set errs \<longrightarrow> is_base e) \<longrightarrow>
            distinct (opt_bases r) \<and> set (opt_bases r) = {e. Some e \<in> set errs}))"
proof (cases errs)
  case (Cons a es)
  have "join_unsimilar k a es = None \<longleftrightarrow> set errs = {None}"
    using Cons by (auto simp: join_unsimilar_None)
  moreover have "std_Is (join_unsimilar k a es) (Some e)" if "Some e \<in> set errs" for e
    using that Cons join_unsimilar_keeps [of a e k es] join_unsimilar_adds [of e es k a] by auto
  moreover have "distinct (opt_bases (join_unsimilar k a es))
      \<and> set (opt_bases (join_unsimilar k a es)) = {e. Some e \<in> set errs}"
    if base: "\<forall>e. Some e \<in> set errs \<longrightarrow> is_base e"
  proof -
    have "opt_bases a = (case a of None \<Rightarrow> [] | Some x \<Rightarrow> [x])"
      using base Cons by (cases a) (auto simp: opt_bases_def bases_base)
    then show ?thesis using join_unsimilar_bases [of es a k] base Cons
      by (cases a) auto
  qed
  moreover have "JoinUnsimilar k errs = Inr (join_unsimilar k a es)" "JoinUnsimilar k [] = Inl IndexOutOfRange"
    using Cons by (simp_all add: JoinUnsimilar_def)
  ultimately show ?thesis by (intro conjI exI [of _ "join_unsimilar k a es"] allI impI) simp_all
qed (use assms in simp)

theorem JoinUnsimilar_contains_each_once_witness:
  "JoinUnsimilar 9 [Some (ENew 1 ''a''), None, Some (ENew 1 ''a'')] = Inr (Some (ENew 1 ''a''))
   \<and> JoinUnsimilar 9 [] = Inl IndexOutOfRange"
  using JoinUnsimilar_contains_each_once [of "[Some (ENew 1 ''a''), None, Some (ENew 1 ''a'')]" 9]
  by (simp add: JoinUnsimilar_def)

text \<open>  \<open>SafeJoinError.Join\<close> keeps only the errors of its last call: what the object holds and reports
  after any sequence of calls is the join of the last argument list, so an error that was joined
  before is lost, and a last call without errors makes \<open>HasError\<close> false.
\<close>

theorem SafeJoin_keeps_last_only:
  "jerr (foldl (\<lambda>e errs. SafeJoin k errs e) NewSafeJoinError (calls @ [errs])) = Join k errs
   \<and> (HasError (foldl (\<lambda>e errs. SafeJoin k errs e) NewSafeJoinError (calls @ [errs]))
        \<longleftrightarrow> (\<exists>x. Some x \<in> set errs))
   \<and> \<not> HasError (SafeJoin k [] (SafeJoin j [Some x] NewSafeJoinError))"
proof -
  have "Join k errs \<noteq> None \<longleftrightarrow> (\<exists>x. Some x \<in> set errs)"
    by (auto simp: Join_None_iff) (metis option.exhaust)
  then show ?thesis by (simp add: SafeJoin_def HasError_def Join_None_iff)
qed

end
