(* ===== verification/Routines_Model.thy ===== *)
theory Routines_Model
  imports Errors_Model Transition_Iface
begin

text \<open>
  Running functions safely (\<open>xsync/routines.go\<close>): \<open>Run\<close> and \<open>CatchErr\<close>, which turn a panic into an
  error, \<open>Timeout\<close> as the interleaving of its goroutine, its context and its \<open>select\<close>, and
  \<open>RoutineID\<close>, which reads the first line of a stack trace.
\<close>

section \<open>Panics as errors\<close>

text \<open>A value given to \<open>panic\<close>: an error, a string, or another value with its \<open>%v\<close> text.\<close>

datatype panicval = PErr gerr | PString string | POther string

definition CatchErr :: "(string, 'f) pkgerrors \<Rightarrow> nat \<Rightarrow> panicval option \<Rightarrow> goerror" where
  "CatchErr P k r = (case r of
     None \<Rightarrow> None
   | Some (PErr t) \<Rightarrow> Wrap P k (Some t) ''goroutine panic recovered''
   | Some (PString t) \<Rightarrow> New P k t
   | Some (POther t) \<Rightarrow> Errorf P k ''%v'' [t])"

definition CatchErrWithSize :: "(string, 'f) pkgerrors \<Rightarrow> nat \<Rightarrow> panicval option \<Rightarrow> int \<Rightarrow> goerror" where
  "CatchErrWithSize P k r n = CatchErr P k r"

text \<open>How a function of type \<open>func() error\<close> ends.\<close>

datatype outcome = Ret goerror | Panics panicval

definition Run :: "(string, 'f) pkgerrors \<Rightarrow> nat \<Rightarrow> outcome \<Rightarrow> goerror" where
  "Run P k fn = (case fn of Ret e \<Rightarrow> e | Panics p \<Rightarrow> CatchErr P k (Some p))"

text \<open>
  \<open>Go\<close>: the filters are asked in turn until one accepts the error; one may panic. What its goroutine
  writes to the log is the text of the line, the message, and the text and stack of the error. The
  recover around the goroutine sees only a panic of a filter, as \<open>Run\<close> has its own.
\<close>

fun ask_filters :: "gerr \<Rightarrow> (gerr \<Rightarrow> panicval + bool) list \<Rightarrow> panicval + bool" where
  "ask_filters err [] = Inr False"
| "ask_filters err (f # fs) = (case f err of
     Inl p \<Rightarrow> Inl p
   | Inr True \<Rightarrow> Inr True
   | Inr False \<Rightarrow> ask_filters err fs)"

definition log_error :: "(string, 'f) pkgerrors \<Rightarrow> string \<Rightarrow> string \<Rightarrow> goerror \<Rightarrow> string \<times> string \<times> string \<times> string" where
  "log_error P line msg err = (line, msg, (case err of None \<Rightarrow> [] | Some e \<Rightarrow> error_text e), StackTrace P err)"

definition Go_log :: "(string, 'f) pkgerrors \<Rightarrow> nat \<Rightarrow> string \<Rightarrow> outcome \<Rightarrow> (gerr \<Rightarrow> panicval + bool) list
    \<Rightarrow> (string \<times> string \<times> string \<times> string) option" where
  "Go_log P k msg fn filters = (case Run P k fn of
     None \<Rightarrow> None
   | Some err \<Rightarrow> (case ask_filters err filters of
       Inl p \<Rightarrow> Some (log_error P ''goroutine panic recovered'' msg (CatchErr P (k + 1) (Some p)))
     | Inr True \<Rightarrow> None
     | Inr False \<Rightarrow> Some (log_error P ''goroutine error occurred.'' msg (Some err))))"

lemma CatchErr_PErr:
  assumes "pkgerrors_ok P"
  shows "CatchErr P k (Some (PErr e)) \<noteq> None" and "Is P (CatchErr P k (Some (PErr e))) (Some e)"
proof -
  have "Is P (Some e) (Some e)" using assms by (simp add: Is_def pkgerrors_ok_def)
  moreover have c: "CatchErr P k (Some (PErr e)) = Wrap P k (Some e) ''goroutine panic recovered''"
    by (simp add: CatchErr_def)
  ultimately show "CatchErr P k (Some (PErr e)) \<noteq> None" and "Is P (CatchErr P k (Some (PErr e))) (Some e)"
    using wrapping_keeps [OF assms, of "Wrap P k (Some e) ''goroutine panic recovered''" k "Some e" "''goroutine panic recovered''" "[]" e]
    unfolding c by simp_all
qed

lemma CatchErr_Some:
  assumes "pkgerrors_ok P"
  shows "CatchErr P k (Some p) \<noteq> None"
proof (cases p)
  case (PErr e)
  then show ?thesis using CatchErr_PErr(1) [OF assms] by simp
next
  case (PString t)
  obtain e where "pkg_New P k t = Some e" using assms unfolding pkgerrors_ok_def by metis
  with PString show ?thesis by (simp add: CatchErr_def New_def)
next
  case (POther t)
  with assms show ?thesis by (simp add: CatchErr_def Errorf_def pkgerrors_ok_def)
qed

text \<open>A panic gives an error, and a panic with an error keeps it: by \<open>Is\<close>, \<open>Run\<close> returns that error.\<close>

lemma Run_panics: "pkgerrors_ok P \<Longrightarrow> Run P k (Panics p) \<noteq> None"
  unfolding Run_def outcome.case by (rule CatchErr_Some)

lemma Run_keeps_error: "pkgerrors_ok P \<Longrightarrow> Is P (Run P k (Panics (PErr e))) (Some e)"
  unfolding Run_def outcome.case by (rule CatchErr_PErr(2))

text \<open>\<open>Go\<close> is silent only for a function that returns \<open>nil\<close>, or for an error that a filter accepts.\<close>

lemma Go_log_None:
  assumes "pkgerrors_ok P"
  shows "Go_log P k msg fn filters = None \<longleftrightarrow>
    fn = Ret None \<or> (\<exists>err. Run P k fn = Some err \<and> ask_filters err filters = Inr True)"
proof (cases "Run P k fn")
  case None
  have "fn = Ret None"
  proof (cases fn)
    case (Ret e)
    with None show ?thesis by (simp add: Run_def)
  next
    case (Panics p)
    with None Run_panics [OF assms] show ?thesis by metis
  qed
  with None show ?thesis by (simp add: Go_log_def)
next
  case (Some err)
  then have "fn \<noteq> Ret None" by (auto simp: Run_def)
  with Some show ?thesis by (auto simp: Go_log_def split: sum.splits bool.splits)
qed

section \<open>Timeout\<close>

text \<open>The goroutine of \<open>Timeout\<close>: in \<open>fn\<close>, before the send, before \<open>close(done)\<close>, ended.\<close>

datatype tgo = TFn | TSend gerr | TClose | TEnd

record timeout =
  gor :: tgo
  errChan :: "gerr option"
  tdone :: bool
  ctx_err :: "gerr option"
  ret :: "goerror option"
  fn_out :: "outcome option"

definition timeout_init :: timeout where
  "timeout_init = \<lparr>gor = TFn, errChan = None, tdone = False, ctx_err = None, ret = None, fn_out = None\<rparr>"

text \<open>
  The context ends with an error of its own; \<open>select\<close> takes any case that is ready. The buffer of
  \<open>errChan\<close> has one place, so the send does not block.
\<close>

inductive timeout_step :: "timeout \<Rightarrow> timeout \<Rightarrow> bool" where
  fn_nil: "gor s = TFn \<Longrightarrow> timeout_step s (s\<lparr>gor := TClose, fn_out := Some (Ret None)\<rparr>)"
| fn_err: "gor s = TFn \<Longrightarrow> timeout_step s (s\<lparr>gor := TSend e, fn_out := Some (Ret (Some e))\<rparr>)"
| fn_panic: "gor s = TFn \<Longrightarrow> timeout_step s (s\<lparr>gor := TEnd, fn_out := Some (Panics p)\<rparr>)"
| send: "gor s = TSend e \<Longrightarrow> errChan s = None \<Longrightarrow>
    timeout_step s (s\<lparr>gor := TClose, errChan := Some e\<rparr>)"
| close_done: "gor s = TClose \<Longrightarrow> timeout_step s (s\<lparr>gor := TEnd, tdone := True\<rparr>)"
| ctx_ends: "ctx_err s = None \<Longrightarrow> timeout_step s (s\<lparr>ctx_err := Some e\<rparr>)"
| select_err: "ret s = None \<Longrightarrow> errChan s = Some e \<Longrightarrow>
    timeout_step s (s\<lparr>errChan := None, ret := Some (Some e)\<rparr>)"
| select_ctx: "ret s = None \<Longrightarrow> ctx_err s = Some e \<Longrightarrow> timeout_step s (s\<lparr>ret := Some (Some e)\<rparr>)"
| select_done: "ret s = None \<Longrightarrow> tdone s \<Longrightarrow> timeout_step s (s\<lparr>ret := Some None\<rparr>)"

definition timeout_inv :: "timeout \<Rightarrow> bool" where
  "timeout_inv s \<longleftrightarrow>
     (gor s = TFn \<longleftrightarrow> fn_out s = None)
   \<and> (\<forall>e. gor s = TSend e \<longrightarrow> fn_out s = Some (Ret (Some e)))
   \<and> (gor s = TClose \<longrightarrow> (\<exists>r. fn_out s = Some (Ret r)))
   \<and> (\<forall>e. errChan s = Some e \<longrightarrow> fn_out s = Some (Ret (Some e)))
   \<and> (tdone s \<longrightarrow> gor s = TEnd \<and> (\<exists>r. fn_out s = Some (Ret r)))
   \<and> (ret s = Some None \<longrightarrow> tdone s)
   \<and> (\<forall>e. ret s = Some (Some e) \<longrightarrow> fn_out s = Some (Ret (Some e)) \<or> ctx_err s = Some e)"

lemma timeout_inv_init: "timeout_inv timeout_init"
  by (simp add: timeout_inv_def timeout_init_def)

lemma timeout_inv_step:
  assumes "timeout_step s s'" and "timeout_inv s"
  shows "timeout_inv s'"
  using assms by cases (auto simp: timeout_inv_def)

interpretation timeouts: guarded_system "\<lambda>s. s = timeout_init" timeout_step timeout_inv
  by unfold_locales (simp_all add: timeout_inv_init timeout_inv_step)

definition timeout_reach :: "timeout \<Rightarrow> bool" where
  "timeout_reach s \<longleftrightarrow> timeout_step\<^sup>*\<^sup>* timeout_init s"

lemma timeout_reach_inv: "timeout_reach s \<Longrightarrow> timeout_inv s"
  unfolding timeout_reach_def by (rule timeouts.inv_reachable [OF refl])

lemma timeout_reach_step: "timeout_reach s \<Longrightarrow> timeout_step s t \<Longrightarrow> timeout_reach t"
  unfolding timeout_reach_def by (rule rtranclp.rtrancl_into_rtrancl)

section \<open>RoutineID\<close>

definition initialRoutineIDBuffer :: nat where "initialRoutineIDBuffer = 128"

fun id_digits :: "64 word \<Rightarrow> string \<Rightarrow> 64 word" where
  "id_digits i [] = i"
| "id_digits i (c # cs) =
     (if \<not> is_digit c then 0 else id_digits (i * 10 + of_nat (digit_val c)) cs)"

definition RoutineID :: "string \<Rightarrow> 64 word" where
  "RoutineID trace =
     (let stack = take initialRoutineIDBuffer trace in
      if \<not> has_prefix stack ''goroutine '' then 0
      else let rest = drop 10 stack in
        if CHR '' '' \<notin> set rest then 0 else id_digits 0 (takeWhile (\<lambda>c. c \<noteq> CHR '' '') rest))"

lemma id_digits_append:
  "\<forall>c \<in> set xs. is_digit c \<Longrightarrow> id_digits i (xs @ ys) = id_digits (id_digits i xs) ys"
  by (induction xs arbitrary: i) auto

lemma id_digits_show_nat: "id_digits 0 (show_nat n) = of_nat n"
proof (induction n rule: show_nat.induct)
  case (1 n)
  show ?case
  proof (cases "n < 10")
    case False
    have "10 * of_nat (n div 10) + of_nat (n mod 10) = (of_nat n :: 64 word)"
      by (metis mult_div_mod_eq of_nat_add of_nat_mult of_nat_numeral)
    then show ?thesis using 1 False
      by (subst show_nat.simps) (simp add: id_digits_append show_nat_digits mult.commute)
  qed (simp add: show_nat.simps [of n])
qed

lemma show_nat_length: "n < 10 ^ k \<Longrightarrow> 0 < k \<Longrightarrow> length (show_nat n) \<le> k"
proof (induction n arbitrary: k rule: show_nat.induct)
  case (1 n)
  show ?case
  proof (cases "n < 10")
    case False
    obtain j where j: "k = Suc j" using 1(3) by (cases k) auto
    moreover have "0 < j" using False 1(2) j by (cases j) auto
    moreover have "n div 10 < 10 ^ j" using 1(2) j by (simp add: less_mult_imp_div_less mult.commute)
    ultimately show ?thesis using 1(1) [OF False, of j] False by (subst show_nat.simps) simp
  qed (use 1 in \<open>simp add: show_nat.simps [of n]\<close>)
qed

section \<open>Properties\<close>

text \<open>What \<open>Timeout\<close> returns, in every interleaving: an error that it returns is the one \<open>fn\<close> returned or
  the one of the context; \<open>nil\<close> is returned only after \<open>fn\<close> returned; and when \<open>fn\<close> panics, the only
  result is the error of the context, so the caller waits for the timeout.
\<close>

theorem Timeout_results:
  assumes "timeout_reach s"
  shows "(ret s = Some None \<longrightarrow> (\<exists>r. fn_out s = Some (Ret r)))
       \<and> (\<forall>e. ret s = Some (Some e) \<longrightarrow> fn_out s = Some (Ret (Some e)) \<or> ctx_err s = Some e)
       \<and> (\<forall>p. fn_out s = Some (Panics p) \<and> ctx_err s = None \<longrightarrow> ret s = None)"
proof -
  have "timeout_inv s" using assms by (rule timeout_reach_inv)
  moreover have "ret s = None" if "fn_out s = Some (Panics p)" "ctx_err s = None" for p
    using that calculation by (cases "ret s"; cases "the (ret s)") (auto simp: timeout_inv_def)
  ultimately show ?thesis by (auto simp: timeout_inv_def)
qed

definition after_error :: "gerr \<Rightarrow> goerror \<Rightarrow> timeout" where
  "after_error e r = \<lparr>gor = TEnd, errChan = Some e, tdone = True, ctx_err = None, ret = Some r,
     fn_out = Some (Ret (Some e))\<rparr>"

lemma after_error_reach: "timeout_reach (after_error e None)"
proof -
  have "timeout_reach timeout_init" by (simp add: timeout_reach_def)
  from timeout_reach_step [OF this fn_err [of _ e]]
  have "timeout_reach (timeout_init\<lparr>gor := TSend e, fn_out := Some (Ret (Some e))\<rparr>)"
    by (simp add: timeout_init_def)
  from timeout_reach_step [OF this send [of _ e]]
  have "timeout_reach (timeout_init\<lparr>gor := TClose, fn_out := Some (Ret (Some e)), errChan := Some e\<rparr>)"
    by (simp add: timeout_init_def)
  from timeout_reach_step [OF this close_done]
  have "timeout_reach (timeout_init\<lparr>gor := TEnd, fn_out := Some (Ret (Some e)), errChan := Some e, tdone := True\<rparr>)"
    by (simp add: timeout_init_def)
  from timeout_reach_step [OF this select_done] show ?thesis
    by (simp add: timeout_init_def after_error_def)
qed

theorem Timeout_results_witness:
  "\<exists>r. ret (after_error (ENew 0 ''x'') None) = Some None \<and> fn_out (after_error (ENew 0 ''x'') None) = Some (Ret r)"
  using Timeout_results [OF after_error_reach [of "ENew 0 ''x''"]] by (auto simp: after_error_def)

text \<open>  \<open>Timeout\<close> may report success for a function that failed: when \<open>fn\<close> returned an error and its
  goroutine has closed \<open>done\<close>, two cases of the \<open>select\<close> are ready, and there is a run in which the
  one of \<open>done\<close> is taken and \<open>nil\<close> is returned, the context not having ended.
\<close>

theorem Timeout_may_drop_error:
  "\<exists>s. timeout_reach s \<and> fn_out s = Some (Ret (Some e)) \<and> ctx_err s = None \<and> ret s = Some None"
  using after_error_reach [of e] by (auto simp: after_error_def)

text \<open>  \<open>RoutineID\<close> reads the number of the goroutine from a stack trace that begins with
  \<open>goroutine n \<close>, for every \<open>n\<close> of 64 bits and whatever follows.
\<close>

theorem RoutineID_reads_number:
  assumes "n < 2 ^ 64"
  shows "RoutineID (''goroutine '' @ show_nat n @ '' '' @ rest) = of_nat n
       \<and> unat (RoutineID (''goroutine '' @ show_nat n @ '' '' @ rest)) = n"
proof -
  have len: "length (show_nat n) \<le> 20" by (rule show_nat_length) (use assms in simp_all)
  obtain t where t: "take initialRoutineIDBuffer (''goroutine '' @ show_nat n @ '' '' @ rest)
      = ''goroutine '' @ show_nat n @ '' '' @ t"
    using len by (simp add: initialRoutineIDBuffer_def take_Cons')
  have "CHR '' '' \<notin> set (show_nat n)" using show_nat_digits [of n] by (auto simp: is_digit_def)
  then have tw: "takeWhile (\<lambda>c. c \<noteq> CHR '' '') (show_nat n @ '' '' @ t) = show_nat n"
    by (subst takeWhile_append2) auto
  have "RoutineID (''goroutine '' @ show_nat n @ '' '' @ rest) = of_nat n"
    unfolding RoutineID_def Let_def t using tw id_digits_show_nat [of n]
    by (simp add: has_prefix_iff)
  then show ?thesis using assms by (simp add: unat_of_nat)
qed

theorem RoutineID_reads_number_witness:
  "RoutineID ''goroutine 17 [running]'' = 17"
proof -
  have "show_nat 17 = ''17''" by code_simp
  then show ?thesis using RoutineID_reads_number [of 17 "''[running]''"] by simp
qed

end
