(* ===== verification/Delayer_Model.thy ===== *)
theory Delayer_Model
  imports Prelude Transition_Iface
begin

text \<open>
  The delayer (\<open>xsync/delayer.go\<close>). Times are nanoseconds since the Unix epoch (\<open>int\<close>), on which the zero
  \<open>time.Time\<close>, the first instant of year 1, is \<open>zero_instant\<close>. Every operation
  is a critical section of the mutex; between them run the timers, the goroutines \<open>handleExpiry\<close>
  and the reader of the tick channel.
\<close>

section \<open>State\<close>

text \<open>
  A timer has its deadline; it is running, has a value in its channel, or is spent (stopped, or
  its value was received). \<open>Stop\<close> leaves no value in the channel.
\<close>

datatype timer_st = Running | Fired | Spent

datatype handler = HNone | HStart | HSelect nat | HTick nat | HEnd

record delayer =
  now :: int
  expiryTime :: int
  timer :: "nat option"
  tick :: bool
  stopped :: bool
  deadlines :: "nat \<Rightarrow> int"
  timers :: "nat \<Rightarrow> timer_st"
  ntimers :: nat
  handlers :: "nat \<Rightarrow> handler"

definition zero_instant :: int where
  "zero_instant = - 62135596800 * 10 ^ 9"

text \<open>\<open>time.Until\<close>, a \<open>Duration\<close>, saturates at the ends of the range of \<open>int64\<close>.\<close>

definition time_Until :: "int \<Rightarrow> int \<Rightarrow> int" where
  "time_Until t clock = max (- (2 ^ 63)) (min (t - clock) max_i64)"

definition NewDelayer :: "int \<Rightarrow> delayer" where
  "NewDelayer t = \<lparr>now = t, expiryTime = zero_instant, timer = None, tick = False, stopped = False,
     deadlines = \<lambda>_. 0, timers = \<lambda>_. Spent, ntimers = 0, handlers = \<lambda>_. HNone\<rparr>"

definition stop_timer :: "delayer \<Rightarrow> delayer" where
  "stop_timer c = (case timer c of None \<Rightarrow> c | Some k \<Rightarrow> c\<lparr>timers := (timers c)(k := Spent)\<rparr>)"

text \<open>The non-blocking receive and send on the tick channel, which has one place.\<close>

definition drain_tick :: "delayer \<Rightarrow> delayer" where
  "drain_tick c = c\<lparr>tick := False\<rparr>"

definition send_tick :: "delayer \<Rightarrow> delayer" where
  "send_tick c = c\<lparr>tick := True\<rparr>"

text \<open>
  \<open>SetExpiryTime\<close>; timer number \<open>k = ntimers\<close> is made, and the goroutine with the same number
  started, unless the time has passed already.
\<close>

definition SetExpiryTime :: "int \<Rightarrow> delayer \<Rightarrow> delayer" where
  "SetExpiryTime newTime c0 =
     (let c = drain_tick ((stop_timer c0)\<lparr>stopped := False\<rparr>);
          duration = time_Until newTime (now c);
          k = ntimers c
      in if duration \<le> 0 then (send_tick c)\<lparr>expiryTime := newTime\<rparr>
         else c\<lparr>timer := Some k, timers := (timers c)(k := Running), deadlines := (deadlines c)(k := now c + duration),
                ntimers := k + 1, expiryTime := newTime, handlers := (handlers c)(k := HStart)\<rparr>)"

definition Reset :: "delayer \<Rightarrow> delayer" where
  "Reset c = drain_tick ((stop_timer c)\<lparr>timer := None, expiryTime := zero_instant, stopped := True\<rparr>)"

text \<open>
  \<open>Close\<close>; the send on \<open>stopCh\<close>, which has no buffer, reaches one goroutine that is in its
  \<open>select\<close> (\<open>woken\<close>), or is skipped.
\<close>

definition Close :: "nat option \<Rightarrow> delayer \<Rightarrow> delayer" where
  "Close woken c0 =
     (let c = (stop_timer c0)\<lparr>timer := None, stopped := True\<rparr>
      in drain_tick (case woken of None \<Rightarrow> c | Some h \<Rightarrow> c\<lparr>handlers := (handlers c)(h := HEnd)\<rparr>))"

definition can_wake :: "delayer \<Rightarrow> nat option \<Rightarrow> bool" where
  "can_wake c woken = (case woken of None \<Rightarrow> True | Some h \<Rightarrow> (case handlers c h of HSelect _ \<Rightarrow> True | _ \<Rightarrow> False))"

definition ExpiryTime :: "delayer \<Rightarrow> int" where
  "ExpiryTime c = expiryTime c"

definition Wait :: "delayer \<Rightarrow> bool" where
  "Wait c = tick c"

definition IsExpired :: "delayer \<Rightarrow> bool" where
  "IsExpired c \<longleftrightarrow> expiryTime c \<noteq> zero_instant \<and> expiryTime c < now c"

definition TimeRemaining :: "delayer \<Rightarrow> int" where
  "TimeRemaining c = (if expiryTime c = zero_instant then 0
     else let remaining = time_Until (expiryTime c) (now c) in if remaining < 0 then 0 else remaining)"

section \<open>Steps\<close>

text \<open>What happens without a call: the clock, the timers, the goroutines.\<close>

inductive own_step :: "delayer \<Rightarrow> delayer \<Rightarrow> bool" where
  clock: "0 \<le> d \<Longrightarrow> own_step c (c\<lparr>now := now c + d\<rparr>)"
| timer_fires: "timers c k = Running \<Longrightarrow> deadlines c k \<le> now c \<Longrightarrow>
    own_step c (c\<lparr>timers := (timers c)(k := Fired)\<rparr>)"
| handler_start: "handlers c h = HStart \<Longrightarrow>
    own_step c (c\<lparr>handlers := (handlers c)(h := (case timer c of None \<Rightarrow> HEnd | Some k \<Rightarrow> HSelect k))\<rparr>)"
| handler_fired: "handlers c h = HSelect k \<Longrightarrow> timers c k = Fired \<Longrightarrow>
    own_step c (c\<lparr>timers := (timers c)(k := Spent), handlers := (handlers c)(h := HTick k)\<rparr>)"
| handler_tick: "handlers c h = HTick k \<Longrightarrow>
    own_step c ((if stopped c then c else send_tick c)\<lparr>handlers := (handlers c)(h := HEnd)\<rparr>)"

inductive delayer_step :: "delayer \<Rightarrow> delayer \<Rightarrow> bool" where
  set_expiry: "delayer_step c (SetExpiryTime t c)"
| reset: "delayer_step c (Reset c)"
| close: "can_wake c woken \<Longrightarrow> delayer_step c (Close woken c)"
| reader: "tick c \<Longrightarrow> delayer_step c (c\<lparr>tick := False\<rparr>)"
| own: "own_step c c' \<Longrightarrow> delayer_step c c'"

section \<open>The invariant\<close>

text \<open>
  Only the current timer can be running or have a value to be received, since every other was stopped;
  its goroutine has not received yet, and the delayer is set to its deadline or later.
\<close>

definition delayer_inv :: "delayer \<Rightarrow> bool" where
  "delayer_inv c \<longleftrightarrow>
     (stopped c \<longrightarrow> \<not> tick c)
   \<and> (\<forall>k. timers c k \<noteq> Spent \<longrightarrow> timer c = Some k)
   \<and> (\<forall>k. timer c = Some k \<longrightarrow> k < ntimers c)
   \<and> (\<forall>h. handlers c h \<noteq> HNone \<longrightarrow> h < ntimers c)
   \<and> (\<forall>k. timers c k \<noteq> Spent \<longrightarrow> (handlers c k = HStart \<or> handlers c k = HSelect k) \<and> \<not> stopped c)"

lemma delayer_inv_init: "delayer_inv (NewDelayer t)"
  by (simp add: delayer_inv_def NewDelayer_def)

lemmas delayer_ops = SetExpiryTime_def Reset_def Close_def drain_tick_def send_tick_def stop_timer_def Let_def

text \<open>After the timer is stopped, none is left.\<close>

lemma all_spent: "delayer_inv c \<Longrightarrow> timers (stop_timer c) k = Spent"
  by (cases "timer c") (auto simp: delayer_inv_def stop_timer_def)

lemma inv_set_expiry: "delayer_inv c \<Longrightarrow> delayer_inv (SetExpiryTime t c)"
  using all_spent [of c]
  by (cases "timer c") (auto simp: delayer_inv_def delayer_ops less_Suc_eq split: if_splits)

lemma inv_reset: "delayer_inv c \<Longrightarrow> delayer_inv (Reset c)"
  using all_spent [of c]
  by (cases "timer c") (auto simp: delayer_inv_def delayer_ops split: if_splits)

lemma inv_close: "delayer_inv c \<Longrightarrow> can_wake c woken \<Longrightarrow> delayer_inv (Close woken c)"
  using all_spent [of c]
  by (cases "timer c"; cases woken)
    (auto simp: delayer_inv_def delayer_ops can_wake_def split: handler.splits if_splits)

lemma delayer_inv_own:
  assumes "own_step c c'" and "delayer_inv c"
  shows "delayer_inv c'"
  using assms(1)
proof cases
  case (handler_tick h k)
  with assms(2) show ?thesis by (auto simp: delayer_inv_def send_tick_def)
qed (use assms(2) in \<open>auto simp: delayer_inv_def split: option.splits\<close>)

lemma delayer_inv_step:
  assumes "delayer_step c c'" and "delayer_inv c"
  shows "delayer_inv c'"
  using assms(1)
proof cases
  case (set_expiry t)
  with assms(2) show ?thesis by (simp add: inv_set_expiry)
next
  case reset
  with assms(2) show ?thesis by (simp add: inv_reset)
next
  case (close woken)
  with assms(2) show ?thesis by (simp add: inv_close)
next
  case reader
  with assms(2) show ?thesis by (auto simp: delayer_inv_def)
next
  case own
  then show ?thesis using assms(2) by (rule delayer_inv_own)
qed

interpretation delayers: guarded_system "\<lambda>c. c = NewDelayer t" delayer_step delayer_inv for t
  by unfold_locales (simp_all add: delayer_inv_init delayer_inv_step)

definition delayer_reach :: "delayer \<Rightarrow> bool" where
  "delayer_reach c \<longleftrightarrow> (\<exists>t. delayer_step\<^sup>*\<^sup>* (NewDelayer t) c)"

lemma delayer_reach_inv: "delayer_reach c \<Longrightarrow> delayer_inv c"
  unfolding delayer_reach_def using delayers.inv_reachable [OF refl] by auto

lemma delayer_reach_init: "delayer_reach (NewDelayer t)"
  by (auto simp: delayer_reach_def)

lemma delayer_reach_step: "delayer_reach c \<Longrightarrow> delayer_step c c' \<Longrightarrow> delayer_reach c'"
  unfolding delayer_reach_def by (meson rtranclp.rtrancl_into_rtrancl)

section \<open>Properties\<close>

text \<open>What may happen between two calls of \<open>SetExpiryTime\<close>.\<close>

definition unset_step :: "delayer \<Rightarrow> delayer \<Rightarrow> bool" where
  "unset_step c c' \<longleftrightarrow> own_step c c' \<or> tick c \<and> c' = c\<lparr>tick := False\<rparr> \<or> c' = Reset c
     \<or> (\<exists>woken. can_wake c woken \<and> c' = Close woken c)"

lemma unset_step_inv:
  assumes "unset_step c c'" and "delayer_inv c"
  shows "delayer_inv c'"
proof -
  have "delayer_step c c'" using assms(1) by (auto simp: unset_step_def intro: delayer_step.intros)
  then show ?thesis using assms(2) by (rule delayer_inv_step)
qed

text \<open>A delayer that is stopped stays so.\<close>

lemma stopped_stays:
  assumes "unset_step\<^sup>*\<^sup>* c d" and "delayer_inv c" and "stopped c"
  shows "\<not> Wait d"
proof -
  from assms have "delayer_inv d \<and> stopped d"
  proof (induction rule: rtranclp_induct)
    case (step d e)
    then have "stopped d" "delayer_inv d" by simp_all
    moreover have "stopped e"
      using step.hyps(2) \<open>stopped d\<close>
      by (auto simp: unset_step_def delayer_ops elim!: own_step.cases split: option.splits)
    ultimately show ?case using unset_step_inv [OF step.hyps(2)] by blast
  qed simp
  then show ?thesis by (simp add: delayer_inv_def Wait_def)
qed

text \<open>
  No tick before the instant \<open>start\<close>: none is there, no goroutine has received from its timer, and no timer runs
  out or has run out, unless \<open>start\<close> has come.
\<close>

definition none_before :: "int \<Rightarrow> delayer \<Rightarrow> bool" where
  "none_before start c \<longleftrightarrow>
     (tick c \<longrightarrow> start \<le> now c)
   \<and> (\<forall>h k. handlers c h = HTick k \<longrightarrow> start \<le> now c)
   \<and> (\<forall>k. timers c k = Running \<longrightarrow> start \<le> deadlines c k)
   \<and> (\<forall>k. timers c k = Fired \<longrightarrow> start \<le> now c)"

lemma none_before_own:
  assumes "own_step c c'" and "none_before start c"
  shows "none_before start c'"
  using assms(1)
proof cases
  case (clock d)
  then show ?thesis using assms(2) by (force simp: none_before_def)
next
  case (timer_fires k)
  then have "start \<le> now c" using assms(2) unfolding none_before_def by (meson order_trans)
  then show ?thesis using timer_fires assms(2) by (auto simp: none_before_def)
next
  case (handler_start h)
  then show ?thesis using assms(2) by (auto simp: none_before_def split: option.splits)
next
  case (handler_fired h k)
  then show ?thesis using assms(2) by (auto simp: none_before_def)
next
  case (handler_tick h k)
  then have "start \<le> now c" using assms(2) unfolding none_before_def by blast
  then show ?thesis using handler_tick assms(2) by (auto simp: none_before_def send_tick_def)
qed

lemma none_before_step:
  assumes "unset_step c c'" and "none_before start c"
  shows "none_before start c'"
proof -
  have "none_before start (Reset c)" using assms(2)
    by (cases "timer c") (auto simp: none_before_def delayer_ops)
  moreover have "none_before start (Close woken c)" if "can_wake c woken" for woken
    using assms(2) that
    by (cases "timer c"; cases woken) (auto simp: none_before_def delayer_ops can_wake_def)
  moreover have "none_before start (c\<lparr>tick := False\<rparr>)" using assms(2) by (auto simp: none_before_def)
  ultimately show ?thesis using assms none_before_own unfolding unset_step_def by blast
qed

text \<open>No goroutine is about to send a tick.\<close>

definition no_send :: "delayer \<Rightarrow> bool" where
  "no_send c \<longleftrightarrow> (\<forall>h k. handlers c h \<noteq> HTick k)"

lemma SetExpiryTime_none_before:
  assumes "delayer_inv c" and "no_send c"
  shows "none_before (min t (now c + max_i64)) (SetExpiryTime t c)"
  using assms all_spent [OF assms(1)]
  by (cases "timer c")
    (auto simp: none_before_def no_send_def delayer_ops time_Until_def max_i64_def split: if_splits)

lemma set_run:
  assumes "unset_step\<^sup>*\<^sup>* (SetExpiryTime t c) d" and "delayer_inv c" and "no_send c"
  shows "delayer_inv d \<and> none_before (min t (now c + max_i64)) d \<and> (stopped d \<or> expiryTime d = t)"
  using assms(1)
proof (induction rule: rtranclp_induct)
  case base
  have "expiryTime (SetExpiryTime t c) = t" by (auto simp: delayer_ops split: option.splits)
  then show ?case using inv_set_expiry [OF assms(2)] SetExpiryTime_none_before [OF assms(2,3)] by blast
next
  case (step d e)
  have "stopped e \<or> expiryTime e = expiryTime d \<and> stopped e = stopped d"
    using step.hyps(2)
    by (auto simp: unset_step_def delayer_ops send_tick_def elim!: own_step.cases split: option.splits)
  then show ?case using step.IH unset_step_inv [OF step.hyps(2)] none_before_step [OF step.hyps(2)] by auto
qed

text \<open>C31: A tick does not come too early. Set a reachable delayer in which no goroutine has received from
  its timer and not yet sent its tick: in every interleaving of its timers, goroutines, reader, and calls
  of \<open>Reset\<close> and \<open>Close\<close>, up to the next \<open>SetExpiryTime\<close>, a pending tick is there only from the new expiry
  time on (for one further off than the longest \<open>Duration\<close>, from the end of that duration on), while the
  expiry time is still set; no earlier deadline can cause it. After \<open>Reset\<close> or \<open>Close\<close>, of any reachable
  delayer, no tick is pending up to the next \<open>SetExpiryTime\<close>, not even from a goroutine whose timer fired
  before; and after \<open>Reset\<close> the delayer is not expired and has no time remaining.
\<close>

theorem tick_is_sound:
  assumes "delayer_reach c" and "can_wake c woken"
  shows "(no_send c \<longrightarrow> (\<forall>t d. unset_step\<^sup>*\<^sup>* (SetExpiryTime t c) d \<longrightarrow> Wait d \<longrightarrow>
            min t (now c + max_i64) \<le> now d \<and> ExpiryTime d = t \<and> \<not> stopped d))
       \<and> (\<forall>d. unset_step\<^sup>*\<^sup>* (Reset c) d \<longrightarrow> \<not> Wait d)
       \<and> (\<forall>d. unset_step\<^sup>*\<^sup>* (Close woken c) d \<longrightarrow> \<not> Wait d)
       \<and> TimeRemaining (Reset c) = 0 \<and> \<not> IsExpired (Reset c)"
proof -
  note inv = delayer_reach_inv [OF assms(1)]
  have stop: "stopped (Reset c)" "stopped (Close woken c)" "expiryTime (Reset c) = zero_instant"
    by (auto simp: delayer_ops split: option.splits)
  have "min t (now c + max_i64) \<le> now d \<and> ExpiryTime d = t \<and> \<not> stopped d"
    if "no_send c" "unset_step\<^sup>*\<^sup>* (SetExpiryTime t c) d" "Wait d" for t d
    using set_run [OF that(2) inv that(1)] that(3)
    by (auto simp: delayer_inv_def none_before_def Wait_def ExpiryTime_def)
  moreover have "\<not> Wait d" if "unset_step\<^sup>*\<^sup>* (Reset c) d" for d
    using stopped_stays [OF that inv_reset [OF inv] stop(1)] .
  moreover have "\<not> Wait d" if "unset_step\<^sup>*\<^sup>* (Close woken c) d" for d
    using stopped_stays [OF that inv_close [OF inv assms(2)] stop(2)] .
  ultimately show ?thesis using stop(3) by (auto simp: TimeRemaining_def IsExpired_def)
qed

text \<open>
  A tick is on its way: it is there, or a goroutine is about to send it, or the current timer
  is running or has fired and its goroutine has not received its value yet.
\<close>

definition under_way :: "int \<Rightarrow> delayer \<Rightarrow> bool" where
  "under_way t c \<longleftrightarrow> \<not> stopped c \<and> expiryTime c = t \<and>
     (tick c \<or> (\<exists>h k. handlers c h = HTick k)
      \<or> (\<exists>k. timer c = Some k \<and> timers c k \<noteq> Spent))"

lemma under_way_own:
  assumes "own_step c c'" and "under_way t c"
  shows "under_way t c'"
  using assms(1)
proof cases
  case (timer_fires k)
  then show ?thesis using assms(2) by (auto simp: under_way_def)
next
  case (handler_start h)
  have keep: "handlers c' g = HTick k" if "handlers c g = HTick k" for g k
    using that handler_start by auto
  have f: "stopped c' = stopped c" "expiryTime c' = expiryTime c" "tick c' = tick c" "timer c' = timer c"
    "timers c' = timers c"
    using handler_start(1) by simp_all
  show ?thesis using assms(2) keep unfolding under_way_def f by blast
next
  case (handler_fired h k)
  then show ?thesis using assms(2) by (auto simp: under_way_def)
next
  case (handler_tick h k)
  then show ?thesis using assms(2) by (auto simp: under_way_def send_tick_def)
qed (use assms(2) in \<open>auto simp: under_way_def\<close>)

lemma under_way_run: "own_step\<^sup>*\<^sup>* c c' \<Longrightarrow> under_way t c \<Longrightarrow> under_way t c'"
  by (induction rule: rtranclp_induct) (auto intro: under_way_own)

definition ticks_for :: "int \<Rightarrow> delayer \<Rightarrow> bool" where
  "ticks_for t c \<longleftrightarrow> (\<exists>c'. own_step\<^sup>*\<^sup>* c c' \<and> Wait c' \<and> ExpiryTime c' = t \<and> t \<le> now c')"

lemma ticks_for_step: "own_step c c' \<Longrightarrow> ticks_for t c' \<Longrightarrow> ticks_for t c"
  unfolding ticks_for_def by (metis converse_rtranclp_into_rtranclp)

text \<open>The actions that are left, the last first.\<close>

lemma tick_there:
  assumes "tick c" and "expiryTime c = t"
  shows "ticks_for t c"
proof -
  let ?c = "c\<lparr>now := now c + max 0 (t - now c)\<rparr>"
  have "own_step c ?c" by (rule clock) simp
  then have "own_step\<^sup>*\<^sup>* c ?c" by blast
  moreover have "Wait ?c \<and> ExpiryTime ?c = t \<and> t \<le> now ?c"
    using assms by (simp add: Wait_def ExpiryTime_def)
  ultimately show ?thesis unfolding ticks_for_def by blast
qed

lemma handler_sends:
  assumes "handlers c h = HTick k" and "\<not> stopped c" and "expiryTime c = t"
  shows "ticks_for t c"
  by (rule ticks_for_step [OF handler_tick [OF assms(1)]], rule tick_there)
    (use assms in \<open>simp_all add: send_tick_def\<close>)

lemma handler_receives:
  assumes "handlers c k = HStart \<and> timer c = Some k \<or> handlers c k = HSelect k" and "timers c k = Fired"
    and "\<not> stopped c" and "expiryTime c = t"
  shows "ticks_for t c"
proof -
  have select: "ticks_for t d" if "handlers d k = HSelect k" "timers d k = Fired" "\<not> stopped d" "expiryTime d = t" for d
    by (rule ticks_for_step [OF handler_fired [OF that(1,2)]], rule handler_sends [where h = k and k = k])
      (use that in simp_all)
  show ?thesis
  proof (cases "handlers c k = HSelect k")
    case True
    then show ?thesis using select assms by blast
  next
    case False
    with assms(1) have h: "handlers c k = HStart" "timer c = Some k" by simp_all
    show ?thesis
      by (rule ticks_for_step [OF handler_start [OF h(1)]], rule select) (use h assms in simp_all)
  qed
qed

lemma timer_runs_out:
  assumes "delayer_inv c" and "timer c = Some k" and "timers c k \<noteq> Spent" and "expiryTime c = t"
  shows "ticks_for t c"
proof -
  have h: "handlers c k = HStart \<or> handlers c k = HSelect k" "\<not> stopped c"
    using assms(1,3) unfolding delayer_inv_def by blast+
  show ?thesis
  proof (cases "timers c k")
    case Fired
    then show ?thesis using handler_receives [of c k t] h assms(2,4) by blast
  next
    case Running
    let ?c1 = "c\<lparr>now := now c + max 0 (deadlines c k - now c)\<rparr>"
    let ?c2 = "?c1\<lparr>timers := (timers c)(k := Fired)\<rparr>"
    have s1: "own_step c ?c1" by (rule clock) simp
    have s2: "own_step ?c1 ?c2" using timer_fires [of ?c1 k] Running by simp
    show ?thesis
      by (rule ticks_for_step [OF s1], rule ticks_for_step [OF s2], rule handler_receives [where k = k])
        (use h assms(2,4) in auto)
  qed (use assms(3) in simp)
qed

lemma under_way_ticks:
  assumes "delayer_inv c" and "under_way t c"
  shows "ticks_for t c"
proof -
  have c: "\<not> stopped c" "expiryTime c = t" using assms(2) by (simp_all add: under_way_def)
  consider "tick c" | h k where "handlers c h = HTick k" | k where "timer c = Some k" "timers c k \<noteq> Spent"
    using assms(2) by (auto simp: under_way_def)
  then show ?thesis
    by cases (rule tick_there handler_sends timer_runs_out; use assms(1) c in blast)+
qed

lemma SetExpiryTime_under_way: "under_way t (SetExpiryTime t c)"
  by (cases "timer c") (auto simp: under_way_def delayer_ops)

lemma own_inv_run: "own_step\<^sup>*\<^sup>* c c' \<Longrightarrow> delayer_inv c \<Longrightarrow> delayer_inv c'"
  by (induction rule: rtranclp_induct) (auto intro: delayer_inv_own)

text \<open>C32: A delayer that is set does tick. After \<open>SetExpiryTime\<close> on any reachable delayer, the expiry time
  is the new one, and if it has passed already the tick is there at once. Otherwise, whatever the
  clock, the timers and the goroutines (those of earlier calls too) do before the next call, there are
  actions of theirs left that lead to a pending tick at or after the new time: the tick is never lost.
\<close>

theorem SetExpiryTime_ticks:
  assumes "delayer_reach c" and "own_step\<^sup>*\<^sup>* (SetExpiryTime t c) c'"
  shows "ExpiryTime (SetExpiryTime t c) = t \<and> (Wait (SetExpiryTime t c) \<longleftrightarrow> t \<le> now c)
       \<and> (\<exists>d. own_step\<^sup>*\<^sup>* c' d \<and> Wait d \<and> ExpiryTime d = t \<and> t \<le> now d)"
proof -
  have "delayer_inv (SetExpiryTime t c)" using delayer_reach_inv [OF assms(1)] by (rule inv_set_expiry)
  then have "delayer_inv c'" using own_inv_run [OF assms(2)] by blast
  moreover have "under_way t c'" by (rule under_way_run [OF assms(2) SetExpiryTime_under_way])
  ultimately have "ticks_for t c'" by (rule under_way_ticks)
  moreover have "ExpiryTime (SetExpiryTime t c) = t" "Wait (SetExpiryTime t c) \<longleftrightarrow> t \<le> now c"
    by (auto simp: ExpiryTime_def Wait_def delayer_ops time_Until_def max_i64_def split: option.splits)
  ultimately show ?thesis unfolding ticks_for_def by blast
qed

text \<open>The delayer of a run: set to 5 at time 0, its timer fires and its goroutine receives the value.\<close>

definition late :: delayer where
  "late = \<lparr>now = 5, expiryTime = 5, timer = Some 0, tick = False, stopped = False,
     deadlines = (\<lambda>_. 0)(0 := 5), timers = (\<lambda>_. Spent), ntimers = 1, handlers = (\<lambda>_. HNone)(0 := HTick 0)\<rparr>"

lemma time_Until_small [simp]: "time_Until 5 0 = 5" "time_Until 9 5 = 4" "zero_instant \<noteq> 9"
  by (simp_all add: time_Until_def max_i64_def zero_instant_def)

lemma late_reach: "delayer_reach late"
proof -
  let ?c0 = "SetExpiryTime 5 (NewDelayer 0)"
  let ?c1 = "?c0\<lparr>now := now ?c0 + 5\<rparr>"
  let ?c2 = "?c1\<lparr>timers := (timers ?c1)(0 := Fired)\<rparr>"
  let ?c3 = "?c2\<lparr>handlers := (handlers ?c2)(0 := HSelect 0)\<rparr>"
  let ?c4 = "?c3\<lparr>timers := (timers ?c3)(0 := Spent), handlers := (handlers ?c3)(0 := HTick 0)\<rparr>"
  have f: "?c0 = \<lparr>now = 0, expiryTime = 5, timer = Some 0, tick = False, stopped = False,
     deadlines = (\<lambda>_. 0)(0 := 5), timers = (\<lambda>_. Spent)(0 := Running), ntimers = 1,
     handlers = (\<lambda>_. HNone)(0 := HStart)\<rparr>"
    by (simp add: delayer_ops NewDelayer_def)
  have "delayer_reach ?c0" by (rule delayer_reach_step [OF delayer_reach_init set_expiry])
  then have "delayer_reach ?c1" by (rule delayer_reach_step) (rule own, rule clock, simp)
  then have "delayer_reach ?c2" by (rule delayer_reach_step) (rule own, rule timer_fires, simp_all add: f)
  then have "delayer_reach ?c3"
    by (rule delayer_reach_step) (use own [OF handler_start [of ?c2 0]] in \<open>simp add: f\<close>)
  then have "delayer_reach ?c4" by (rule delayer_reach_step) (rule own, rule handler_fired, simp_all)
  moreover have "?c4 = late" by (auto simp: late_def f fun_eq_iff)
  ultimately show ?thesis by simp
qed

theorem tick_is_sound_witness:
  "\<not> Wait (Reset late) \<and> \<not> Wait ((SetExpiryTime 5 (NewDelayer 0))\<lparr>now := 4\<rparr>)"
proof -
  let ?c = "SetExpiryTime 5 (NewDelayer 0)"
  have n: "now ?c = 0" "now (NewDelayer 0) = 0" by (simp_all add: delayer_ops NewDelayer_def)
  have "own_step ?c (?c\<lparr>now := now ?c + 4\<rparr>)" by (rule clock) simp
  then have run: "unset_step\<^sup>*\<^sup>* ?c (?c\<lparr>now := 4\<rparr>)" using n by (auto simp: unset_step_def)
  have "can_wake (NewDelayer 0) None" "can_wake late None" "no_send (NewDelayer 0)"
    by (simp_all add: can_wake_def no_send_def NewDelayer_def)
  with tick_is_sound [OF delayer_reach_init [of 0], of None] run n
  have "\<not> Wait (?c\<lparr>now := 4\<rparr>)" by (force simp: max_i64_def)
  with tick_is_sound [OF late_reach, of None] \<open>can_wake late None\<close> show ?thesis by blast
qed

theorem SetExpiryTime_ticks_witness:
  "ExpiryTime (SetExpiryTime 9 late) = 9 \<and> \<not> Wait (SetExpiryTime 9 late)"
  using SetExpiryTime_ticks [OF late_reach, of 9, OF rtranclp.rtrancl_refl] by (simp add: late_def)

text \<open>Setting a later expiry time does not cancel a tick that is under way: a goroutine that has
  received from its timer sends the tick after \<open>SetExpiryTime\<close> has cleared the channel, so there is
  a run with a pending tick while the delayer is set to a time that has not come and is not
  expired.
\<close>

theorem stale_tick_after_SetExpiryTime:
  "\<exists>c t. delayer_reach c \<and> Wait c \<and> ExpiryTime c = t \<and> now c < t \<and> \<not> IsExpired c \<and> 0 < TimeRemaining c"
proof -
  let ?c0 = "SetExpiryTime 9 late"
  let ?c1 = "(send_tick ?c0)\<lparr>handlers := (handlers ?c0)(0 := HEnd)\<rparr>"
  have "delayer_reach ?c0" by (rule delayer_reach_step [OF late_reach set_expiry])
  moreover have "handlers ?c0 0 = HTick 0" "\<not> stopped ?c0"
    by (simp_all add: late_def delayer_ops)
  then have "delayer_step ?c0 ?c1" using own [OF handler_tick [of ?c0 0 0]] by (simp add: send_tick_def)
  ultimately have "delayer_reach ?c1" by (rule delayer_reach_step)
  then show ?thesis
    by (intro exI [of _ ?c1] exI [of _ 9])
      (simp add: Wait_def ExpiryTime_def IsExpired_def TimeRemaining_def late_def delayer_ops)
qed

text \<open>A goroutine in its \<open>select\<close> on a timer that is spent: nothing but a \<open>Close\<close> that picks it can end it.\<close>

definition stranded :: "delayer \<Rightarrow> nat \<Rightarrow> nat \<Rightarrow> bool" where
  "stranded c h k \<longleftrightarrow> handlers c h = HSelect k \<and> timers c k = Spent \<and> h < ntimers c \<and> k < ntimers c"

definition no_wake :: "nat \<Rightarrow> delayer \<Rightarrow> delayer \<Rightarrow> bool" where
  "no_wake h c c' \<longleftrightarrow> delayer_step c c' \<and> c' \<noteq> Close (Some h) c"

lemma stranded_own: "own_step c c' \<Longrightarrow> stranded c h k \<Longrightarrow> stranded c' h k"
  by (induction rule: own_step.induct) (auto simp: stranded_def send_tick_def)

lemma stranded_step:
  assumes "no_wake h c c'" and "stranded c h k"
  shows "stranded c' h k"
proof -
  from assms(1) have "delayer_step c c'" and nw: "c' \<noteq> Close (Some h) c" by (simp_all add: no_wake_def)
  from this(1) show ?thesis
  proof cases
    case (close woken)
    with nw have "woken \<noteq> Some h" by blast
    with close assms(2) show ?thesis
      by (cases "timer c"; cases woken) (auto simp: stranded_def delayer_ops)
  next
    case own
    then show ?thesis using assms(2) by (rule stranded_own)
  qed (use assms(2) in \<open>cases "timer c"; auto simp: stranded_def delayer_ops\<close>)+
qed

text \<open>A goroutine is left behind whenever its timer is replaced or reset: if it is in its \<open>select\<close> when
  \<open>SetExpiryTime\<close> or \<open>Reset\<close> is called, its timer will never fire, and it waits for ever unless a \<open>Close\<close>
  happens to pick it; and one \<open>Close\<close> ends one goroutine at most.
\<close>

theorem replaced_timer_strands_goroutine:
  assumes "delayer_reach c" and "timer c = Some k" and "handlers c h = HSelect k"
    and "d \<in> {SetExpiryTime t c, Reset c}" and "(no_wake h)\<^sup>*\<^sup>* d d'"
  shows "handlers d' h = HSelect k \<and> timers d' k = Spent"
proof -
  have "k < ntimers c" "h < ntimers c"
    using delayer_reach_inv [OF assms(1)] assms(2,3) unfolding delayer_inv_def by (blast, metis handler.distinct(3))
  then have "stranded d h k"
    using assms(2-4) by (auto simp: stranded_def delayer_ops)
  with assms(5) have "stranded d' h k"
    by (induction rule: rtranclp_induct) (auto intro: stranded_step)
  then show ?thesis by (simp add: stranded_def)
qed

theorem replaced_timer_strands_goroutine_witness:
  "\<exists>c. delayer_reach c \<and> handlers (SetExpiryTime 9 c) 0 = HSelect 0 \<and> timers (SetExpiryTime 9 c) 0 = Spent"
proof -
  let ?c0 = "SetExpiryTime 5 (NewDelayer 0)"
  let ?c1 = "?c0\<lparr>handlers := (handlers ?c0)(0 := HSelect 0)\<rparr>"
  have f: "timer ?c0 = Some 0" "handlers ?c0 0 = HStart" by (simp_all add: delayer_ops NewDelayer_def)
  have "delayer_reach ?c0" by (rule delayer_reach_step [OF delayer_reach_init set_expiry])
  then have r: "delayer_reach ?c1"
    by (rule delayer_reach_step) (use own [OF handler_start [OF f(2)]] f(1) in simp)
  moreover have "timer ?c1 = Some 0" "handlers ?c1 0 = HSelect 0" using f by simp_all
  ultimately show ?thesis
    using replaced_timer_strands_goroutine [of ?c1 0 0 "SetExpiryTime 9 ?c1" 9, OF _ _ _ _ rtranclp.rtrancl_refl] by blast
qed

end
