(* ===== verification/Multipool_Model.thy ===== *)
theory Multipool_Model
  imports Prelude
begin

text \<open>
  The layered object pool (\<open>multipool/multipool.go\<close>). The constructor and the size function of the
  caller, and the \<open>Reset\<close> of the objects, are parameters. A \<open>sync.Pool\<close> is the list of the objects
  put into it; its \<open>Get\<close> returns any of them or, as it may forget them at any time, a new object:
  the choice is an argument. The slice of thresholds given to the constructor is not changed later.
\<close>

section \<open>State\<close>

record 'o pool_layers =
  thresholds :: "int list"
  pools :: "'o list list"
  hits :: "int list"
  misses :: "int list"
  puts :: int

definition defaultThresholds :: "int list" where
  "defaultThresholds = [256, 1024, 4096, 16384]"

text \<open>The option \<open>WithThresholds\<close>, when it is given.\<close>

definition given_thresholds :: "int list option \<Rightarrow> int list" where
  "given_thresholds opt = (case opt of None \<Rightarrow> defaultThresholds | Some t \<Rightarrow> t)"

definition NewMultiLayerPool :: "int list option \<Rightarrow> 'o pool_layers" where
  "NewMultiLayerPool opt =
     (let ts = given_thresholds opt;
          poolCount = length ts + 1
      in \<lparr>thresholds = ts, pools = replicate poolCount [], hits = replicate poolCount 0,
          misses = replicate poolCount 0, puts = 0\<rparr>)"

fun pool_index_from :: "nat \<Rightarrow> int list \<Rightarrow> int \<Rightarrow> nat" where
  "pool_index_from i [] sz = i"
| "pool_index_from i (t # ts) sz = (if sz \<le> t then i else pool_index_from (i + 1) ts sz)"

definition getPoolIndex :: "'o pool_layers \<Rightarrow> int \<Rightarrow> int" where
  "getPoolIndex mp sz = int (pool_index_from 0 (thresholds mp) sz)"

text \<open>\<open>counters[i].Add(1)\<close>; an index outside the slice panics.\<close>

definition count_one :: "int \<Rightarrow> int list \<Rightarrow> int list go" where
  "count_one i xs = bindR (slice_get xs i) (\<lambda>x. slice_set xs i (wrap64 (x + 1)))"

text \<open>\<open>pools[i].Get()\<close>: the object at the chosen place, or the result of \<open>New\<close>, which counts a miss.\<close>

definition chosen :: "nat option \<Rightarrow> 'o list \<Rightarrow> nat option" where
  "chosen pick objs = (case pick of None \<Rightarrow> None | Some j \<Rightarrow> if j < length objs then Some j else None)"

definition pool_get :: "'o option \<Rightarrow> nat option \<Rightarrow> int \<Rightarrow> 'o pool_layers \<Rightarrow> ('o option \<times> 'o pool_layers) go" where
  "pool_get newFunc pick i mp = bindR (slice_get (pools mp) i) (\<lambda>objs.
     case chosen pick objs of
       Some j \<Rightarrow> bindR (slice_set (pools mp) i (take j objs @ drop (Suc j) objs)) (\<lambda>ps.
         Inr (Some (objs ! j), mp\<lparr>pools := ps\<rparr>))
     | None \<Rightarrow> bindR (count_one i (misses mp)) (\<lambda>ms. Inr (newFunc, mp\<lparr>misses := ms\<rparr>)))"

definition Get :: "'o option \<Rightarrow> nat option \<Rightarrow> int \<Rightarrow> 'o pool_layers \<Rightarrow> ('o option \<times> 'o pool_layers) go" where
  "Get newFunc pick sz mp =
     (let poolIndex = getPoolIndex mp sz in
      bindR (pool_get newFunc pick poolIndex mp) (\<lambda>(obj, mp').
        case obj of
          Some newReporter \<Rightarrow> bindR (count_one poolIndex (hits mp')) (\<lambda>hs. Inr (Some newReporter, mp'\<lparr>hits := hs\<rparr>))
        | None \<Rightarrow> bindR (count_one poolIndex (misses mp')) (\<lambda>ms. Inr (newFunc, mp'\<lparr>misses := ms\<rparr>))))"

definition Put :: "('o \<Rightarrow> int) \<Rightarrow> ('o \<Rightarrow> 'o) \<Rightarrow> 'o option \<Rightarrow> 'o pool_layers \<Rightarrow> 'o pool_layers go" where
  "Put sizeFunc reset obj mp0 = (case obj of
     None \<Rightarrow> Inr mp0
   | Some ob \<Rightarrow>
       (let mp = mp0\<lparr>puts := wrap64 (puts mp0 + 1)\<rparr>;
            poolIndex = getPoolIndex mp (sizeFunc ob)
        in bindR (slice_get (pools mp) poolIndex) (\<lambda>objs.
           bindR (slice_set (pools mp) poolIndex (reset ob # objs)) (\<lambda>ps. Inr (mp\<lparr>pools := ps\<rparr>)))))"

record pool_stats =
  LayerHits :: "int list"
  LayerMisses :: "int list"
  TotalPuts :: int
  Thresholds :: "int list"

definition GetStats :: "'o pool_layers \<Rightarrow> pool_stats" where
  "GetStats mp = \<lparr>LayerHits = hits mp, LayerMisses = misses mp, TotalPuts = puts mp, Thresholds = thresholds mp\<rparr>"

section \<open>The layers\<close>

lemma pool_index_le: "pool_index_from i ts sz \<le> i + length ts"
proof (induction ts arbitrary: i)
  case (Cons t ts)
  then show ?case using Cons [of "i + 1"] by simp
qed simp

lemma pool_index_ge: "i \<le> pool_index_from i ts sz"
proof (induction ts arbitrary: i)
  case (Cons t ts)
  show ?case using Suc_leD [OF Cons.IH [of "Suc i"]] by simp
qed simp

lemma pool_index_below:
  "i \<le> j \<Longrightarrow> j < pool_index_from i ts sz \<Longrightarrow> ts ! (j - i) < sz"
proof (induction ts arbitrary: i)
  case (Cons t ts)
  show ?case
  proof (cases "j = i")
    case False
    then have "i + 1 \<le> j" using Cons.prems by simp
    moreover have "j < pool_index_from (i + 1) ts sz" using Cons.prems by (simp split: if_splits)
    ultimately show ?thesis using Cons.IH [of "i + 1"] by (simp add: nth_Cons')
  qed (use Cons.prems in \<open>simp split: if_splits\<close>)
qed simp

lemma pool_index_fits:
  "pool_index_from i ts sz < i + length ts \<Longrightarrow> sz \<le> ts ! (pool_index_from i ts sz - i)"
proof (induction ts arbitrary: i)
  case (Cons t ts)
  then show ?case
    using Cons.IH [of "i + 1"] pool_index_ge [of "i + 1" ts sz] by (auto simp: nth_Cons')
qed simp

text \<open>The first layer whose threshold is at least the size.\<close>

definition in_layer :: "int list \<Rightarrow> nat \<Rightarrow> int \<Rightarrow> bool" where
  "in_layer ts i sz \<longleftrightarrow> i \<le> length ts \<and> (\<forall>j < i. ts ! j < sz) \<and> (i < length ts \<longrightarrow> sz \<le> ts ! i)"

definition layer_of :: "int list \<Rightarrow> int \<Rightarrow> nat" where
  "layer_of ts sz = pool_index_from 0 ts sz"

lemma getPoolIndex_layer_of: "getPoolIndex mp sz = int (layer_of (thresholds mp) sz)"
  by (simp add: getPoolIndex_def layer_of_def)

lemma layer_of_layer: "in_layer ts (layer_of ts sz) sz"
  using pool_index_le [of 0 ts sz] pool_index_below [of 0 _ ts sz] pool_index_fits [of 0 ts sz]
  by (auto simp: in_layer_def layer_of_def)

lemma layer_of_less: "layer_of ts sz < length ts + 1"
  using layer_of_layer [of ts sz] by (simp add: in_layer_def)

lemma in_layer_unique: "in_layer ts i sz \<Longrightarrow> in_layer ts j sz \<Longrightarrow> i = j"
  by (rule ccontr) (auto simp: in_layer_def neq_iff dest: leD)

section \<open>Sequences of operations\<close>

datatype 'o pool_op = GetOp "nat option" int | PutOp "'o option"

record 'o pool_run =
  mp :: "'o pool_layers"
  gets :: nat
  allocs :: nat
  objects_put :: nat
  got :: "(int \<times> 'o option) list"

text \<open>A run also counts the calls of \<open>Get\<close>, those whose object was new, and the objects put.\<close>

definition run_init :: "int list option \<Rightarrow> 'o pool_run" where
  "run_init opt = \<lparr>mp = NewMultiLayerPool opt, gets = 0, allocs = 0, objects_put = 0, got = []\<rparr>"

definition takes_new :: "nat option \<Rightarrow> int \<Rightarrow> 'o pool_layers \<Rightarrow> bool" where
  "takes_new pick sz m \<longleftrightarrow> chosen pick (pools m ! layer_of (thresholds m) sz) = None"

fun run_op :: "'o \<Rightarrow> ('o \<Rightarrow> int) \<Rightarrow> ('o \<Rightarrow> 'o) \<Rightarrow> 'o pool_run \<Rightarrow> 'o pool_op \<Rightarrow> 'o pool_run go" where
  "run_op new sizeFunc reset r (GetOp pick sz) =
     bindR (Get (Some new) pick sz (mp r)) (\<lambda>(ob, m). Inr
        (r\<lparr>mp := m, gets := gets r + 1, allocs := allocs r + (if takes_new pick sz (mp r) then 1 else 0),
          got := (sz, ob) # got r\<rparr>))"
| "run_op new sizeFunc reset r (PutOp ob) =
     bindR (Put sizeFunc reset ob (mp r)) (\<lambda>m. Inr
       (r\<lparr>mp := m, objects_put := objects_put r + (if ob = None then 0 else 1)\<rparr>))"

definition run_ops :: "'o \<Rightarrow> ('o \<Rightarrow> int) \<Rightarrow> ('o \<Rightarrow> 'o) \<Rightarrow> int list option \<Rightarrow> 'o pool_op list \<Rightarrow> 'o pool_run go" where
  "run_ops new sizeFunc reset opt ops = foldR (run_op new sizeFunc reset) (run_init opt) ops"

text \<open>Every pooled object is the reset of one whose size belongs to the layer.\<close>

definition pooled_ok :: "('o \<Rightarrow> int) \<Rightarrow> ('o \<Rightarrow> 'o) \<Rightarrow> int list \<Rightarrow> nat \<Rightarrow> 'o \<Rightarrow> bool" where
  "pooled_ok sizeFunc reset ts i ob \<longleftrightarrow> (\<exists>p. ob = reset p \<and> layer_of ts (sizeFunc p) = i)"

definition layers_ok :: "('o \<Rightarrow> int) \<Rightarrow> ('o \<Rightarrow> 'o) \<Rightarrow> int list \<Rightarrow> 'o pool_layers \<Rightarrow> bool" where
  "layers_ok sizeFunc reset ts m \<longleftrightarrow>
     thresholds m = ts \<and> length (pools m) = length ts + 1 \<and> length (hits m) = length ts + 1 \<and> length (misses m) = length ts + 1
   \<and> (\<forall>i < length ts + 1. \<forall>ob \<in> set (pools m ! i). pooled_ok sizeFunc reset ts i ob)"

definition run_inv :: "'o \<Rightarrow> ('o \<Rightarrow> int) \<Rightarrow> ('o \<Rightarrow> 'o) \<Rightarrow> int list \<Rightarrow> 'o pool_run \<Rightarrow> bool" where
  "run_inv new sizeFunc reset ts r \<longleftrightarrow> layers_ok sizeFunc reset ts (mp r)
    \<and> (\<forall>(sz, ob) \<in> set (got r). ob = Some new \<or> (\<exists>p. ob = Some p \<and> pooled_ok sizeFunc reset ts (layer_of ts sz) p))"

definition counted :: "nat \<Rightarrow> int list \<Rightarrow> int list" where
  "counted i xs = xs[i := wrap64 (xs ! i + 1)]"

lemma count_one_in: "i < length xs \<Longrightarrow> count_one (int i) xs = Inr (counted i xs)"
  by (simp add: count_one_def counted_def)

lemma counted_length [simp]: "length (counted i xs) = length xs"
  by (simp add: counted_def)

lemma run_inv_init: "run_inv new sizeFunc reset (given_thresholds opt) (run_init opt)"
  by (simp add: run_inv_def layers_ok_def run_init_def NewMultiLayerPool_def Let_def nth_append del: replicate_Suc)

text \<open>What the operations give in a pool whose slices have their lengths: no index is out of range.\<close>

lemma Get_new:
  assumes "layers_ok sizeFunc reset ts m" and "takes_new pick sz m"
  shows "Get (Some new) pick sz m =
     Inr (Some new, m\<lparr>misses := counted (layer_of ts sz) (misses m), hits := counted (layer_of ts sz) (hits m)\<rparr>)"
  using assms layer_of_less [of ts sz]
  by (simp add: Get_def pool_get_def layers_ok_def takes_new_def getPoolIndex_layer_of Let_def count_one_in)

lemma Get_pooled:
  assumes "layers_ok sizeFunc reset ts m" and "\<not> takes_new pick sz m"
  obtains j where "j < length (pools m ! layer_of ts sz)"
    "Get (Some new) pick sz m = Inr (Some (pools m ! layer_of ts sz ! j),
       m\<lparr>pools := (pools m)[layer_of ts sz := take j (pools m ! layer_of ts sz) @ drop (Suc j) (pools m ! layer_of ts sz)],
         hits := counted (layer_of ts sz) (hits m)\<rparr>)"
proof -
  obtain j where j: "chosen pick (pools m ! layer_of ts sz) = Some j"
    using assms by (auto simp: takes_new_def layers_ok_def)
  then have "j < length (pools m ! layer_of ts sz)" by (auto simp: chosen_def split: option.splits if_splits)
  then show ?thesis
    by (rule that) (use assms(1) j layer_of_less [of ts sz] in
      \<open>simp add: Get_def pool_get_def layers_ok_def getPoolIndex_layer_of Let_def count_one_in\<close>)
qed

lemma Put_some:
  assumes "layers_ok sizeFunc reset ts m"
  shows "Put sizeFunc reset (Some p) m = Inr (m\<lparr>puts := wrap64 (puts m + 1),
     pools := (pools m)[layer_of ts (sizeFunc p) := reset p # pools m ! layer_of ts (sizeFunc p)]\<rparr>)"
  using assms layer_of_less [of ts "sizeFunc p"]
  by (simp add: Put_def layers_ok_def getPoolIndex_layer_of Let_def)

lemma layers_ok_pool:
  assumes "layers_ok sizeFunc reset ts m" and "\<And>x. x \<in> set objs \<Longrightarrow> pooled_ok sizeFunc reset ts i x"
  shows "layers_ok sizeFunc reset ts (m\<lparr>pools := (pools m)[i := objs]\<rparr>)"
proof -
  have "pooled_ok sizeFunc reset ts k x" if "k < length ts + 1" "x \<in> set ((pools m)[i := objs] ! k)" for k x
    using that assms by (cases "k = i") (auto simp: layers_ok_def)
  then show ?thesis using assms(1) by (simp add: layers_ok_def)
qed

lemma run_inv_op:
  assumes inv: "run_inv new sizeFunc reset ts r"
  shows "\<exists>r'. run_op new sizeFunc reset r op = Inr r' \<and> run_inv new sizeFunc reset ts r'"
proof (cases op)
  case (GetOp pick sz)
  let ?m = "mp r" and ?i = "layer_of ts sz"
  have ok: "layers_ok sizeFunc reset ts ?m" using inv by (simp add: run_inv_def)
  show ?thesis
  proof (cases "takes_new pick sz ?m")
    case True
    have "layers_ok sizeFunc reset ts (?m\<lparr>misses := counted ?i (misses ?m), hits := counted ?i (hits ?m)\<rparr>)"
      using ok by (simp add: layers_ok_def)
    then show ?thesis using GetOp inv Get_new [OF ok True] by (auto simp: run_inv_def)
  next
    case False
    from Get_pooled [OF ok False, of new] obtain j where j: "j < length (pools ?m ! ?i)"
      and G: "Get (Some new) pick sz ?m = Inr (Some (pools ?m ! ?i ! j),
         ?m\<lparr>pools := (pools ?m)[?i := take j (pools ?m ! ?i) @ drop (Suc j) (pools ?m ! ?i)],
           hits := counted ?i (hits ?m)\<rparr>)" by blast
    have pooled: "pooled_ok sizeFunc reset ts ?i ob" if "ob \<in> set (pools ?m ! ?i)" for ob
      using ok layer_of_less [of ts sz] that by (simp add: layers_ok_def)
    have "layers_ok sizeFunc reset ts (?m\<lparr>pools := (pools ?m)[?i := take j (pools ?m ! ?i) @ drop (Suc j) (pools ?m ! ?i)]\<rparr>)"
      by (rule layers_ok_pool [OF ok]) (auto dest: in_set_takeD in_set_dropD intro: pooled)
    then have "layers_ok sizeFunc reset ts
        (?m\<lparr>pools := (pools ?m)[?i := take j (pools ?m ! ?i) @ drop (Suc j) (pools ?m ! ?i)], hits := counted ?i (hits ?m)\<rparr>)"
      by (simp add: layers_ok_def)
    then show ?thesis using GetOp inv G pooled [of "pools ?m ! ?i ! j"] j by (auto simp: run_inv_def)
  qed
next
  case (PutOp ob)
  have ok: "layers_ok sizeFunc reset ts (mp r)" using inv by (simp add: run_inv_def)
  show ?thesis
  proof (cases ob)
    case (Some p)
    let ?i = "layer_of ts (sizeFunc p)"
    have "layers_ok sizeFunc reset ts ((mp r)\<lparr>pools := (pools (mp r))[?i := reset p # pools (mp r) ! ?i]\<rparr>)"
      using ok layer_of_less [of ts "sizeFunc p"]
      by (intro layers_ok_pool [OF ok]) (auto simp: layers_ok_def pooled_ok_def)
    then show ?thesis using PutOp Some inv Put_some [OF ok, of p] by (simp add: run_inv_def layers_ok_def)
  qed (use PutOp inv in \<open>simp add: Put_def run_inv_def\<close>)
qed

lemma run_inv_ops:
  "\<exists>r. run_ops new sizeFunc reset opt ops = Inr r \<and> run_inv new sizeFunc reset (given_thresholds opt) r"
proof (induction ops rule: rev_induct)
  case (snoc op ops)
  then show ?case
    using run_inv_op [of new sizeFunc reset "given_thresholds opt" _ op] by (fastforce simp: run_ops_def foldR_append)
qed (simp add: run_ops_def run_inv_init)

section \<open>Properties\<close>

text \<open>C36: No call of \<open>Get\<close> or \<open>Put\<close> leaves the range of the layers: every sequence of calls on a new pool, with any
  thresholds and whatever the pools keep or forget, runs without a panic. The layer of a size is the first
  whose threshold is not below it, else the last; an object that a \<open>Get(size)\<close> of the sequence returned is a
  new one or the reset of an object whose own size is of the layer of \<open>size\<close>; and a \<open>Put\<close> after it adds the
  reset of its object to the layer of the object's size and leaves the others as they are.
\<close>

theorem Get_returns_object_of_layer:
  "let ts = given_thresholds opt in \<exists>r. run_ops new sizeFunc reset opt ops = Inr r
     \<and> (\<forall>sz. getPoolIndex (mp r) sz = int (layer_of ts sz) \<and> in_layer ts (layer_of ts sz) sz)
     \<and> (\<forall>(sz, ob) \<in> set (got r). ob = Some new
          \<or> (\<exists>p. ob = Some (reset p) \<and> layer_of ts (sizeFunc p) = layer_of ts sz))
     \<and> (\<forall>p. \<exists>m. Put sizeFunc reset (Some p) (mp r) = Inr m \<and> thresholds m = ts \<and> length (pools m) = length ts + 1
          \<and> pools m ! layer_of ts (sizeFunc p) = reset p # pools (mp r) ! layer_of ts (sizeFunc p)
          \<and> (\<forall>k. k \<noteq> layer_of ts (sizeFunc p) \<longrightarrow> pools m ! k = pools (mp r) ! k))"
proof -
  define ts where "ts = given_thresholds opt"
  obtain r where r: "run_ops new sizeFunc reset opt ops = Inr r" and inv: "run_inv new sizeFunc reset ts r"
    using run_inv_ops [of new sizeFunc reset opt ops] unfolding ts_def by blast
  have ok: "layers_ok sizeFunc reset ts (mp r)" using inv by (simp add: run_inv_def)
  then have t: "thresholds (mp r) = ts" and len: "length (pools (mp r)) = length ts + 1"
    by (simp_all add: layers_ok_def)
  have "\<exists>m. Put sizeFunc reset (Some p) (mp r) = Inr m \<and> thresholds m = ts \<and> length (pools m) = length ts + 1
      \<and> pools m ! layer_of ts (sizeFunc p) = reset p # pools (mp r) ! layer_of ts (sizeFunc p)
      \<and> (\<forall>k. k \<noteq> layer_of ts (sizeFunc p) \<longrightarrow> pools m ! k = pools (mp r) ! k)" for p
    using Put_some [OF ok, of p] t len layer_of_less [of ts "sizeFunc p"] by simp
  then show ?thesis
    using r inv t unfolding Let_def ts_def [symmetric]
    by (intro exI [of _ r]) (auto simp: run_inv_def pooled_ok_def getPoolIndex_layer_of layer_of_layer)
qed

text \<open>A run that puts an object of size 300 back and gets one for the size 900.\<close>

definition pool_demo :: "int pool_run go" where
  "pool_demo = run_ops 0 (\<lambda>x. x) (\<lambda>x. - x) None [PutOp (Some 300), GetOp (Some 0) 900]"

theorem Get_returns_object_of_layer_witness:
  "\<exists>r. pool_demo = Inr r \<and> got r = [(900, Some (- 300))] \<and> layer_of defaultThresholds 300 = layer_of defaultThresholds 900"
proof -
  obtain r where r: "pool_demo = Inr r"
    and all: "\<forall>(sz, ob) \<in> set (got r). ob = Some 0
      \<or> (\<exists>p. ob = Some (- p) \<and> layer_of defaultThresholds p = layer_of defaultThresholds sz)"
    using Get_returns_object_of_layer [where new = "0::int" and sizeFunc = "\<lambda>x. x" and reset = "\<lambda>x. - x" and opt = None
        and ops = "[PutOp (Some 300), GetOp (Some 0) 900]"]
    unfolding pool_demo_def by (auto simp: given_thresholds_def Let_def)
  have "map_sum id got pool_demo = Inr [(900, Some (- 300))]" by code_simp
  then have "got r = [(900, Some (- 300))]" unfolding r by simp
  then show ?thesis using r all by auto
qed

text \<open>The counters, as long as none of them wraps around.\<close>

definition count_inv :: "nat \<Rightarrow> 'o pool_run \<Rightarrow> bool" where
  "count_inv n r \<longleftrightarrow> gets r + objects_put r \<le> n \<and> allocs r \<le> gets r
     \<and> (\<forall>x \<in> set (hits (mp r)) \<union> set (misses (mp r)). 0 \<le> x \<and> x \<le> int (gets r))
     \<and> sum_list (hits (mp r)) = int (gets r) \<and> sum_list (misses (mp r)) = int (allocs r)
     \<and> puts (mp r) = int (objects_put r)"

lemma sum_list_upd: "i < length xs \<Longrightarrow> sum_list (xs[i := (x :: int)]) = sum_list xs - xs ! i + x"
  by (induction xs arbitrary: i) (auto split: nat.splits)

lemma counted_sum:
  assumes "i < length xs" and "\<forall>x \<in> set xs. 0 \<le> x \<and> x \<le> int g" and "int g + 1 < 2 ^ 63"
  shows "sum_list (counted i xs) = sum_list xs + 1
       \<and> (\<forall>x \<in> set (counted i xs). 0 \<le> x \<and> x \<le> int g + 1)"
proof -
  have x: "0 \<le> xs ! i" "xs ! i \<le> int g" using assms(1,2) by auto
  then have "counted i xs = xs[i := xs ! i + 1]"
    using assms(3) by (simp add: counted_def wrap64_id is_i64_def)
  moreover have "0 \<le> y \<and> y \<le> int g + 1" if "y \<in> set (xs[i := xs ! i + 1])" for y
    using that x assms(2) set_update_subset_insert [of xs i "xs ! i + 1"] by force
  ultimately show ?thesis using sum_list_upd [OF assms(1), of "xs ! i + 1"] by simp
qed

lemma count_inv_op:
  assumes c: "count_inv n r" and inv: "run_inv new sizeFunc reset ts r" and n: "int n + 1 < 2 ^ 63"
    and run: "run_op new sizeFunc reset r op = Inr r'"
  shows "count_inv (n + 1) r'"
proof (cases op)
  case (GetOp pick sz)
  let ?i = "layer_of ts sz"
  have ok: "layers_ok sizeFunc reset ts (mp r)" using inv by (simp add: run_inv_def)
  have bound: "\<forall>x \<in> set (hits (mp r)). 0 \<le> x \<and> x \<le> int (gets r)"
    "\<forall>x \<in> set (misses (mp r)). 0 \<le> x \<and> x \<le> int (gets r)" "int (gets r) + 1 < 2 ^ 63"
    using c n by (auto simp: count_inv_def)
  have len: "?i < length (hits (mp r))" "?i < length (misses (mp r))"
    using ok layer_of_less [of ts sz] by (simp_all add: layers_ok_def)
  note h = counted_sum [OF len(1) bound(1,3)] and m = counted_sum [OF len(2) bound(2,3)]
  show ?thesis
  proof (cases "takes_new pick sz (mp r)")
    case True
    then show ?thesis using c GetOp h m run by (auto simp: Get_new [OF ok] count_inv_def add.commute)
  next
    case False
    from Get_pooled [OF ok False, of new] obtain ob P where
      "Get (Some new) pick sz (mp r) = Inr (ob, (mp r)\<lparr>pools := P, hits := counted ?i (hits (mp r))\<rparr>)"
      by metis
    moreover have "\<forall>x \<in> set (misses (mp r)). 0 \<le> x \<and> x \<le> int (gets r) + 1"
      using bound(2) by force
    ultimately show ?thesis using c GetOp h False run by (auto simp: count_inv_def add.commute)
  qed
next
  case (PutOp ob)
  have ok: "layers_ok sizeFunc reset ts (mp r)" using inv by (simp add: run_inv_def)
  have "wrap64 (int (objects_put r) + 1) = int (objects_put r) + 1"
    by (rule wrap64_id) (use c n in \<open>simp add: count_inv_def is_i64_def\<close>)
  then show ?thesis using c PutOp run Put_some [OF ok]
    by (cases ob) (auto simp: Put_def [of _ _ None] count_inv_def)
qed

lemma count_inv_ops:
  "int (length ops) < 2 ^ 63 \<Longrightarrow> run_ops new sizeFunc reset opt ops = Inr r \<Longrightarrow> count_inv (length ops) r"
proof (induction ops arbitrary: r rule: rev_induct)
  case Nil
  then show ?case by (auto simp: run_ops_def run_init_def NewMultiLayerPool_def count_inv_def Let_def sum_list_replicate simp del: replicate_Suc)
next
  case (snoc op ops)
  obtain q where q: "run_ops new sizeFunc reset opt ops = Inr q" "run_inv new sizeFunc reset (given_thresholds opt) q"
    using run_inv_ops [of new sizeFunc reset opt ops] by blast
  then have "run_op new sizeFunc reset q op = Inr r" using snoc.prems(2)
    by (cases "run_op new sizeFunc reset q op") (simp_all add: run_ops_def foldR_append)
  moreover have "count_inv (length ops) q" using snoc.IH [OF _ q(1)] snoc.prems(1) by simp
  ultimately show ?case using count_inv_op [OF _ q(2)] snoc.prems(1) by simp
qed

text \<open>  What the statistics say after any number of calls below \<open>2 ^ 63\<close>: the misses are the calls of \<open>Get\<close>
  that made a new object and the puts the objects that were put back, but the hits are all the
  calls of \<open>Get\<close>, the misses among them: the hits and misses do not add up to the calls.
\<close>

theorem stats_count_every_Get_as_hit:
  assumes "int (length ops) < 2 ^ 63"
  shows "\<exists>r. run_ops new sizeFunc reset opt ops = Inr r
     \<and> (let st = GetStats (mp r) in
        sum_list (LayerHits st) = int (gets r) \<and> sum_list (LayerMisses st) = int (allocs r)
        \<and> TotalPuts st = int (objects_put r))"
  using run_inv_ops [of new sizeFunc reset opt ops] count_inv_ops [OF assms, of new sizeFunc reset opt]
  by (auto simp: count_inv_def GetStats_def Let_def)

theorem stats_count_every_Get_as_hit_witness:
  "\<exists>r. run_ops (0::int) (\<lambda>x. x) (\<lambda>x. x) None [GetOp None 5] = Inr r
     \<and> sum_list (LayerHits (GetStats (mp r))) = 1 \<and> allocs r = 1"
proof -
  have "map_sum id (\<lambda>r. (gets r, allocs r)) (run_ops (0::int) (\<lambda>x. x) (\<lambda>x. x) None [GetOp None 5]) = Inr (1, 1)"
    by code_simp
  then show ?thesis
    using stats_count_every_Get_as_hit [of "[GetOp None 5]" "0::int" "\<lambda>x. x" "\<lambda>x. x" None]
    by (auto simp: Let_def)
qed

end
