(* ===== verification/Camel_Model.thy ===== *)
theory Camel_Model
  imports Go_Strings
begin

text \<open>
  Names in camel case and with underscores (\<open>camelcase/camel.go\<close>), on ASCII strings. The two
  replacers are the pairs they are made of; a \<open>strings.Replacer\<close> goes through the string from left to right
  and at each place uses the first pair of its list whose old string is there.
\<close>

section \<open>Definitions\<close>

definition commonInitialisms :: "string list" where
  "commonInitialisms = [
     ''ASCII'', ''MySQL'',
     ''XSRF'', ''XSS'', ''YAML'', ''UUID'', ''SMTP'', ''HTML'', ''HTTP'', ''JSON'', ''UTF8'',
     ''QPS'', ''CPU'', ''UID'', ''URI'', ''URL'', ''XML'', ''ACL'', ''API'', ''CSS'', ''DNS'', ''EOF'',
     ''LHS'', ''RAM'', ''RHS'', ''RPC'', ''SLA'', ''SSH'', ''TCP'', ''TLS'', ''TTL'', ''UDP'',
     ''UI'', ''ID'', ''VM'', ''IP'']"

fun upper_first :: "string \<Rightarrow> string" where
  "upper_first [] = []"
| "upper_first (c # cs) = to_upper c # cs"

definition abbr_camel :: "string \<Rightarrow> string" where
  "abbr_camel abbr = upper_first (map to_lower abbr)"

definition camelCommonPairs :: "(string \<times> string) list" where
  "camelCommonPairs = map (\<lambda>abbr. (abbr_camel abbr, abbr)) commonInitialisms"

definition abbrCommonPairs :: "(string \<times> string) list" where
  "abbrCommonPairs = map (\<lambda>abbr. (abbr, abbr_camel abbr)) commonInitialisms"

text \<open>The replacer; the number is how many characters of a match are still to be skipped.\<close>

fun replacer :: "(string \<times> string) list \<Rightarrow> nat \<Rightarrow> string \<Rightarrow> string" where
  "replacer ps n [] = []"
| "replacer ps (Suc n) (c # cs) = replacer ps n cs"
| "replacer ps 0 (c # cs) = (case find (\<lambda>p. has_prefix (c # cs) (fst p)) ps of
     Some (old, new) \<Rightarrow> new @ replacer ps (length old - 1) cs
   | None \<Rightarrow> c # replacer ps 0 cs)"

definition camelCommonAbbrReplace :: "string \<Rightarrow> string" where
  "camelCommonAbbrReplace s = replacer camelCommonPairs 0 s"

definition abbrCommonReplace :: "string \<Rightarrow> string" where
  "abbrCommonReplace s = replacer abbrCommonPairs 0 s"

definition toUpperCamel :: "string \<Rightarrow> string" where
  "toUpperCamel s =
     (if s = [] then []
      else let parts = split_on CHR ''_'' s in
        if length parts = 1 then upper_first s
        else concat (map (\<lambda>p. if p = [] then [] else upper_first (map to_lower p)) parts))"

definition ToUpperCamel :: "string \<Rightarrow> string" where
  "ToUpperCamel s = (if s = [] then [] else camelCommonAbbrReplace (toUpperCamel s))"

text \<open>\<open>r[0] = unicode.ToLower(r[0])\<close> panics on an empty slice.\<close>

definition ToLowerCamel :: "string \<Rightarrow> string go" where
  "ToLowerCamel s =
     (if s = [] then Inr []
      else let r = toUpperCamel s in
        bindR (slice_get r 0) (\<lambda>c.
        bindR (slice_set r 0 (to_lower c)) (\<lambda>r'.
        Inr (camelCommonAbbrReplace r'))))"

definition is_case :: "char \<Rightarrow> bool" where
  "is_case c \<longleftrightarrow> is_upper c \<or> is_digit c"

text \<open>
  \<open>unicode.IsUpper\<close>, \<open>IsDigit\<close>, \<open>ToLower\<close> and \<open>ToUpper\<close> are modelled for ASCII; a letter beyond it, which Go
  would convert, is left alone here, so nothing is stated of such strings.
  The loop of \<open>ToUnderScore\<close>, with the character before, \<open>None\<close> at the start.\<close>

fun under_score :: "char option \<Rightarrow> string \<Rightarrow> string" where
  "under_score prev [] = []"
| "under_score prev (c # cs) =
     (if is_case c
      then (case prev of None \<Rightarrow> [] | Some p \<Rightarrow> if is_case p then [] else ''_'') @ to_lower c # under_score (Some c) cs
      else c # under_score (Some c) cs)"

definition ToUnderScore :: "string \<Rightarrow> string" where
  "ToUnderScore s = (if s = [] then [] else under_score None (abbrCommonReplace s))"

section \<open>Lemmas\<close>

lemmas char_eval = to_lower_def to_upper_def is_upper_def is_lower_def is_digit_def char_of_def
  bit_Suc_0_iff

text \<open>The pairs of the two replacers, computed once.\<close>

lemma abbrCommonPairs_eval:
  "abbrCommonPairs = [
     (''ASCII'', ''Ascii''), (''MySQL'', ''Mysql''), (''XSRF'', ''Xsrf''), (''XSS'', ''Xss''),
     (''YAML'', ''Yaml''), (''UUID'', ''Uuid''), (''SMTP'', ''Smtp''), (''HTML'', ''Html''),
     (''HTTP'', ''Http''), (''JSON'', ''Json''), (''UTF8'', ''Utf8''), (''QPS'', ''Qps''),
     (''CPU'', ''Cpu''), (''UID'', ''Uid''), (''URI'', ''Uri''), (''URL'', ''Url''),
     (''XML'', ''Xml''), (''ACL'', ''Acl''), (''API'', ''Api''), (''CSS'', ''Css''),
     (''DNS'', ''Dns''), (''EOF'', ''Eof''), (''LHS'', ''Lhs''), (''RAM'', ''Ram''),
     (''RHS'', ''Rhs''), (''RPC'', ''Rpc''), (''SLA'', ''Sla''), (''SSH'', ''Ssh''),
     (''TCP'', ''Tcp''), (''TLS'', ''Tls''), (''TTL'', ''Ttl''), (''UDP'', ''Udp''),
     (''UI'', ''Ui''), (''ID'', ''Id''), (''VM'', ''Vm''), (''IP'', ''Ip'')
     ]"
  by (simp add: abbrCommonPairs_def commonInitialisms_def abbr_camel_def char_eval)

lemma camelCommonPairs_eval:
  "camelCommonPairs = map (\<lambda>(old, new). (new, old)) abbrCommonPairs"
  by (simp add: camelCommonPairs_def abbrCommonPairs_def)

lemmas pairs_eval = abbrCommonPairs_eval camelCommonPairs_eval

lemma upper_first_Nil [simp]: "upper_first s = [] \<longleftrightarrow> s = []"
  by (cases s) simp_all

lemma under_score_no_upper: "c \<in> set (under_score prev s) \<Longrightarrow> \<not> is_upper c"
proof (induction prev s rule: under_score.induct)
  case (2 prev d ds)
  have "\<not> is_upper CHR ''_''" by (simp add: is_upper_def)
  with 2 show ?case by (auto simp: is_case_def split: if_splits option.splits)
qed simp

lemma set_under_score:
  "set (under_score prev s) \<subseteq> insert CHR ''_'' (to_lower ` set s)"
proof (induction prev s rule: under_score.induct)
  case (2 prev d ds)
  then show ?case by (auto simp: is_case_def split: if_splits option.splits)
qed simp

lemma find_pair: "find (\<lambda>p. has_prefix s (fst p)) ps = Some (old, new) \<Longrightarrow> (old, new) \<in> set ps \<and> has_prefix s old"
  by (induction ps) (auto split: if_splits)

text \<open>The replacer only copies characters and inserts new strings.\<close>

lemma set_replacer: "set (replacer ps n s) \<subseteq> set s \<union> (\<Union>p \<in> set ps. set (snd p))"
proof (induction ps n s rule: replacer.induct)
  case (3 ps c cs)
  show ?case
  proof (cases "find (\<lambda>p. has_prefix (c # cs) (fst p)) ps")
    case (Some p)
    then have "(fst p, snd p) \<in> set ps" using find_pair [of "c # cs" ps "fst p" "snd p"] by simp
    with Some 3(2) [OF Some, of "fst p" "snd p"] show ?thesis by (cases p) force
  qed (use 3 in auto)
qed auto

lemma split_all_empty: "(\<forall>p \<in> set (split_on c s). p = []) \<longleftrightarrow> set s \<subseteq> {c}"
proof -
  have "set s \<subseteq> {c}" if "\<forall>p \<in> set (split_on c s). p = []"
    using that by (induction s rule: split_on.induct) (auto split: if_splits list.splits)
  moreover have "p = []" if "set s \<subseteq> {c}" "p \<in> set (split_on c s)" for p
    using that set_split [of p c s] split_no_sep [of p c s] by (cases p) auto
  ultimately show ?thesis by blast
qed

lemma toUpperCamel_Nil: "toUpperCamel s = [] \<longleftrightarrow> set s \<subseteq> {CHR ''_''}"
proof (cases "length (split_on CHR ''_'' s) = 1")
  case True
  then obtain p where p: "split_on CHR ''_'' s = [p]" by (auto simp: length_Suc_conv)
  then have "s = p" using join_split [of "CHR ''_''" s] by simp
  then have "CHR ''_'' \<notin> set s" using split_no_sep [of p "CHR ''_''" s] p by simp
  then show ?thesis using True by (cases s) (auto simp: toUpperCamel_def)
next
  case False
  then have "s \<noteq> []" by auto
  moreover have "concat (map (\<lambda>p. if p = [] then [] else upper_first (map to_lower p)) ps) = []
      \<longleftrightarrow> (\<forall>p \<in> set ps. p = [])" for ps
    by (induction ps) simp_all
  ultimately have "toUpperCamel s = [] \<longleftrightarrow> (\<forall>p \<in> set (split_on CHR ''_'' s). p = [])"
    using False by (simp add: toUpperCamel_def Let_def)
  then show ?thesis by (simp add: split_all_empty)
qed

text \<open>The characters of names: letters, digits and the underscore.\<close>

definition name_char :: "char \<Rightarrow> bool" where
  "name_char c \<longleftrightarrow> is_lower c \<or> is_upper c \<or> is_digit c \<or> c = CHR ''_''"

definition snake_char :: "char \<Rightarrow> bool" where
  "snake_char c \<longleftrightarrow> is_lower c \<or> is_digit c \<or> c = CHR ''_''"

lemma to_lower_name: "name_char c \<Longrightarrow> name_char (to_lower c)"
  by (cases "is_upper c") (auto simp: name_char_def is_lower_to_lower)

lemma initialism_chars: "(old, new) \<in> set abbrCommonPairs \<Longrightarrow> list_all name_char new \<and> new \<noteq> [] \<and> is_upper (hd new)"
proof -
  have "list_all (\<lambda>p. list_all name_char (snd p) \<and> snd p \<noteq> [] \<and> is_upper (hd (snd p))) abbrCommonPairs"
    by (simp add: pairs_eval name_char_def is_upper_def is_lower_def is_digit_def)
  then show "(old, new) \<in> set abbrCommonPairs \<Longrightarrow> list_all name_char new \<and> new \<noteq> [] \<and> is_upper (hd new)"
    by (auto simp: list_all_iff)
qed

lemma abbrCommonReplace_chars:
  assumes "list_all name_char s"
  shows "list_all name_char (abbrCommonReplace s)"
proof -
  have "list_all name_char (snd p)" if "p \<in> set abbrCommonPairs" for p
    using initialism_chars [of "fst p" "snd p"] that by simp
  then show ?thesis
    using assms set_replacer [of abbrCommonPairs 0 s] unfolding abbrCommonReplace_def list_all_iff
    by blast
qed

lemma abbrCommonReplace_hd:
  assumes "s \<noteq> []" and "is_lower (hd s) \<or> is_upper (hd s)"
  obtains c cs where "abbrCommonReplace s = c # cs" "is_lower c \<or> is_upper c"
proof (cases s)
  case (Cons a as)
  show ?thesis
  proof (cases "find (\<lambda>p. has_prefix (a # as) (fst p)) abbrCommonPairs")
    case None
    then show ?thesis using that assms Cons by (simp add: abbrCommonReplace_def)
  next
    case (Some p)
    have "snd p \<noteq> []" "is_upper (hd (snd p))"
      using initialism_chars [of "fst p" "snd p"] find_pair [of "a # as" abbrCommonPairs "fst p" "snd p"] Some
      by simp_all
    then show ?thesis using that Some Cons
      by (cases p; cases "snd p") (auto simp: abbrCommonReplace_def)
  qed
qed (use assms in simp)

section \<open>Words\<close>

text \<open>
  A name in camel case as a list of words: capitalised words, initialisms of letters that the replacer finds
  where they are (in \<open>UIDay\<close> it finds \<open>UID\<close>, so \<open>UI\<close> is not a word there), at the end a number, and at the
  beginning perhaps a word without capital.
\<close>

definition lower_word :: "string \<Rightarrow> bool" where
  "lower_word w \<longleftrightarrow> w \<noteq> [] \<and> list_all is_lower w"

definition number_word :: "string \<Rightarrow> bool" where
  "number_word w \<longleftrightarrow> w \<noteq> [] \<and> list_all is_digit w"

fun cap_word :: "string \<Rightarrow> bool" where
  "cap_word [] = False"
| "cap_word (c # cs) = (is_upper c \<and> lower_word cs)"

definition initialism_at :: "string \<Rightarrow> string \<Rightarrow> bool" where
  "initialism_at w rest \<longleftrightarrow> list_all (\<lambda>c. is_upper c \<or> is_lower c) w
     \<and> find (\<lambda>a. has_prefix (w @ rest) a) commonInitialisms = Some w"

fun camel_words :: "string list \<Rightarrow> bool" where
  "camel_words [] = True"
| "camel_words (w # ws) = ((cap_word w \<or> initialism_at w (concat ws)) \<and> camel_words ws \<or> ws = [] \<and> number_word w)"

definition camel_name :: "string list \<Rightarrow> bool" where
  "camel_name ws \<longleftrightarrow> camel_words ws \<or> (\<exists>w ws'. ws = w # ws' \<and> lower_word w \<and> camel_words ws')"

lemma case_simps: "is_lower c \<Longrightarrow> \<not> is_upper c" "is_lower c \<Longrightarrow> \<not> is_digit c" "is_digit c \<Longrightarrow> \<not> is_upper c"
  by (simp_all add: is_lower_def is_upper_def is_digit_def)

text \<open>What the initialisms look like.\<close>

lemma initialism_shape:
  "a \<in> set commonInitialisms \<Longrightarrow> \<exists>x y r. a = x # y # r \<and> is_upper x \<and> (is_upper y \<or> a = ''MySQL'')"
proof -
  have "list_all (\<lambda>a. \<exists>x y r. a = x # y # r \<and> is_upper x \<and> (is_upper y \<or> a = ''MySQL'')) commonInitialisms"
    by (simp add: commonInitialisms_def is_upper_def)
  then show "a \<in> set commonInitialisms \<Longrightarrow> \<exists>x y r. a = x # y # r \<and> is_upper x \<and> (is_upper y \<or> a = ''MySQL'')"
    by (simp add: list_all_iff)
qed

lemma initialism_not_SQ: "a \<in> set commonInitialisms \<Longrightarrow> \<not> has_prefix (a @ rest) ''SQL''"
  by (auto simp: commonInitialisms_def)

lemma initialism_capitalised:
  "a \<in> set commonInitialisms \<Longrightarrow> list_all (\<lambda>c. is_upper c \<or> is_lower c) a \<Longrightarrow> cap_word (abbr_camel a)"
proof -
  have "list_all (\<lambda>p. list_all (\<lambda>c. is_upper c \<or> is_lower c) (fst p) \<longrightarrow> cap_word (snd p)) abbrCommonPairs"
    by (simp add: pairs_eval lower_word_def is_upper_def is_lower_def)
  then show "a \<in> set commonInitialisms \<Longrightarrow> list_all (\<lambda>c. is_upper c \<or> is_lower c) a \<Longrightarrow> cap_word (abbr_camel a)"
    by (simp add: abbrCommonPairs_def list_all_iff)
qed

text \<open>The pair that the replacer finds.\<close>

lemma find_abbr:
  "find (\<lambda>p. has_prefix s (fst p)) abbrCommonPairs
     = map_option (\<lambda>a. (a, abbr_camel a)) (find (\<lambda>a. has_prefix s a) commonInitialisms)"
proof -
  have "find (\<lambda>p. has_prefix s (fst p)) (map (\<lambda>a. (a, abbr_camel a)) as)
      = map_option (\<lambda>a. (a, abbr_camel a)) (find (\<lambda>a. has_prefix s a) as)" for as
    by (induction as) simp_all
  then show ?thesis by (simp add: abbrCommonPairs_def)
qed

lemma find_initialism: "find (\<lambda>a. has_prefix s a) as = Some a \<Longrightarrow> a \<in> set as"
  by (induction as) (auto split: if_splits)

lemma replacer_skip: "replacer ps (length xs) (xs @ ys) = replacer ps 0 ys"
  by (induction xs) simp_all

lemma replacer_not_upper:
  assumes "list_all (\<lambda>c. \<not> is_upper c) xs"
  shows "replacer abbrCommonPairs 0 (xs @ ys) = xs @ replacer abbrCommonPairs 0 ys"
  using assms
proof (induction xs)
  case (Cons x xs)
  have "\<not> has_prefix (x # xs @ ys) a" if "a \<in> set commonInitialisms" for a
    using initialism_shape [OF that] Cons.prems by auto
  then have "find (\<lambda>a. has_prefix (x # xs @ ys) a) commonInitialisms = None" by (simp add: find_None_iff)
  with Cons show ?case by (simp add: find_abbr)
qed simp

lemma camel_words_not_SQL: "camel_words ws \<Longrightarrow> \<not> has_prefix (concat ws) ''SQL''"
proof (cases ws)
  case (Cons w ws')
  assume "camel_words ws"
  then consider "cap_word w" | "initialism_at w (concat ws')" | "number_word w" using Cons by auto
  then show ?thesis
  proof cases
    case 1
    then obtain c d ds where w: "w = c # d # ds" and d: "is_lower d"
      by (cases w rule: cap_word.cases) (auto simp: lower_word_def neq_Nil_conv)
    have "d \<noteq> CHR ''Q''" using d by (auto simp: is_lower_def)
    then show ?thesis using w Cons by simp
  next
    case 2
    then have "w \<in> set commonInitialisms" unfolding initialism_at_def using find_initialism by blast
    then show ?thesis using initialism_not_SQ Cons by simp
  next
    case 3
    then obtain c cs where w: "w = c # cs" and c: "is_digit c" by (cases w) (auto simp: number_word_def)
    have "c \<noteq> CHR ''S''" using c by (auto simp: is_digit_def)
    then show ?thesis using w Cons by simp
  qed
qed simp

text \<open>No initialism is found at a capitalised word.\<close>

lemma cap_word_kept:
  assumes "cap_word w" and "camel_words ws"
  shows "find (\<lambda>a. has_prefix (w @ concat ws) a) commonInitialisms = None"
proof -
  obtain c d ds where w: "w = c # d # ds" and d: "is_lower d" and ds: "list_all is_lower ds"
    using assms(1) by (cases w rule: cap_word.cases) (auto simp: lower_word_def neq_Nil_conv)
  have "\<not> has_prefix (w @ concat ws) a" if a: "a \<in> set commonInitialisms" for a
  proof
    assume p: "has_prefix (w @ concat ws) a"
    obtain x y r where xy: "a = x # y # r" "is_upper y \<or> a = ''MySQL''" using initialism_shape [OF a] by blast
    then have "y = d" using p w by simp
    then have "a = ''MySQL''" using xy(2) d case_simps(1) by blast
    then have "has_prefix (ds @ concat ws) ''SQL''" using p w by simp
    then show False using ds camel_words_not_SQL [OF assms(2)] by (cases ds) (auto simp: is_lower_def)
  qed
  then show ?thesis by (simp add: find_None_iff)
qed

lemma abbr_camel_cap: "cap_word w \<Longrightarrow> abbr_camel w = w"
proof (cases w)
  case (Cons c cs)
  assume "cap_word w"
  then have "is_upper c" "list_all is_lower cs" using Cons by (simp_all add: lower_word_def)
  moreover have "map to_lower cs = cs" using calculation(2) case_simps(1) by (induction cs) auto
  ultimately show ?thesis using Cons by (simp add: abbr_camel_def to_upper_to_lower)
qed simp

lemma replacer_words:
  "camel_words ws \<Longrightarrow> replacer abbrCommonPairs 0 (concat ws) = concat (map (\<lambda>w. if number_word w then w else abbr_camel w) ws)"
proof (induction ws)
  case (Cons w ws)
  consider "cap_word w" "camel_words ws" | "initialism_at w (concat ws)" "camel_words ws" | "number_word w" "ws = []"
    using Cons.prems by auto
  then show ?case
  proof cases
    case 1
    then obtain c cs where w: "w = c # cs" and cs: "is_upper c" "list_all is_lower cs"
      by (cases w) (auto simp: lower_word_def)
    have "list_all (\<lambda>c. \<not> is_upper c) cs" using cs(2) case_simps(1) by (auto simp: list_all_iff)
    then have "replacer abbrCommonPairs 0 (w @ concat ws) = w @ replacer abbrCommonPairs 0 (concat ws)"
      using cap_word_kept [OF 1] replacer_not_upper [of cs] w by (simp add: find_abbr)
    moreover have "\<not> number_word w" using w cs(1) case_simps(3) by (auto simp: number_word_def)
    ultimately show ?thesis using Cons.IH [OF 1(2)] abbr_camel_cap [OF 1(1)] by simp
  next
    case 2
    then have f: "find (\<lambda>a. has_prefix (w @ concat ws) a) commonInitialisms = Some w" by (simp add: initialism_at_def)
    obtain x xs where w: "w = x # xs" "is_upper x" using initialism_shape [OF find_initialism [OF f]] by blast
    then have "replacer abbrCommonPairs 0 (w @ concat ws) = abbr_camel w @ replacer abbrCommonPairs 0 (concat ws)"
      using f replacer_skip [of abbrCommonPairs xs "concat ws"] by (simp add: find_abbr)
    moreover have "\<not> number_word w" using w case_simps(3) by (auto simp: number_word_def)
    ultimately show ?thesis using Cons.IH [OF 2(2)] by simp
  next
    case 3
    then have "list_all (\<lambda>c. \<not> is_upper c) w" using case_simps(3) by (auto simp: number_word_def list_all_iff)
    then show ?thesis using 3 replacer_not_upper [of w "[]"] by simp
  qed
qed simp

text \<open>The underscores that the loop inserts before a word.\<close>

lemma under_score_tail:
  "list_all is_lower xs \<Longrightarrow> under_score prev (xs @ ys) = xs @ under_score (if xs = [] then prev else Some (last xs)) ys"
proof (induction xs arbitrary: prev)
  case (Cons x xs)
  then have "\<not> is_case x" using case_simps by (auto simp: is_case_def)
  with Cons show ?case by simp
qed simp

lemma under_score_digits:
  "list_all is_digit xs \<Longrightarrow> is_digit p \<Longrightarrow> under_score (Some p) xs = map to_lower xs"
proof (induction xs arbitrary: p)
  case (Cons x xs)
  then show ?case by (simp add: is_case_def)
qed simp

lemma under_score_word:
  assumes "cap_word w"
  shows "\<exists>l. is_lower l \<and> under_score prev (w @ rest) =
    (case prev of None \<Rightarrow> [] | Some p \<Rightarrow> if is_case p then [] else ''_'') @ map to_lower w @ under_score (Some l) rest"
proof -
  obtain c cs where w: "w = c # cs" and c: "is_upper c" and cs: "cs \<noteq> []" "list_all is_lower cs"
    using assms by (cases w) (auto simp: lower_word_def)
  have "map to_lower cs = cs" using cs(2) case_simps(1) by (induction cs) auto
  moreover have "is_lower (last cs)" using cs by (simp add: list_all_iff)
  ultimately show ?thesis using w c cs under_score_tail [of cs "Some c" rest]
    by (intro exI [of _ "last cs"]) (simp add: is_case_def)
qed

lemma lower_abbr_camel: "list_all (\<lambda>c. is_upper c \<or> is_lower c) w \<Longrightarrow> map to_lower (abbr_camel w) = map to_lower w"
proof (cases w)
  case (Cons c cs)
  assume "list_all (\<lambda>c. is_upper c \<or> is_lower c) w"
  then have "to_lower (to_upper (to_lower c)) = to_lower c"
    using Cons by (auto simp: is_lower_to_lower to_upper_to_lower to_lower_def to_upper_def is_lower_def is_upper_def)
  then show ?thesis using Cons by (simp add: abbr_camel_def comp_def)
qed (simp add: abbr_camel_def)

text \<open>The word that the replacer leaves for a word of the name.\<close>

definition replaced :: "string \<Rightarrow> string" where
  "replaced w = (if number_word w then w else abbr_camel w)"

lemma replaced_word:
  assumes "cap_word w \<or> initialism_at w rest"
  shows "cap_word (replaced w)" and "map to_lower (replaced w) = map to_lower w"
proof -
  have letters: "list_all (\<lambda>c. is_upper c \<or> is_lower c) w"
    using assms by (cases w) (auto simp: lower_word_def initialism_at_def list_all_iff)
  moreover have "w \<noteq> []" using assms initialism_shape [OF find_initialism] by (force simp: initialism_at_def)
  ultimately have "\<not> number_word w" using case_simps by (cases w) (auto simp: number_word_def)
  then show "map to_lower (replaced w) = map to_lower w" using lower_abbr_camel [OF letters] by (simp add: replaced_def)
  show "cap_word (replaced w)"
    using assms \<open>\<not> number_word w\<close> initialism_capitalised [OF find_initialism]
    by (auto simp: replaced_def abbr_camel_cap initialism_at_def)
qed

lemma under_score_words:
  "camel_words ws \<Longrightarrow> \<not> is_case p \<Longrightarrow>
   under_score (Some p) (concat (map replaced ws)) = concat (map (\<lambda>w. ''_'' @ map to_lower w) ws)"
proof (induction ws arbitrary: p)
  case (Cons w ws)
  consider "cap_word w \<or> initialism_at w (concat ws)" "camel_words ws" | "number_word w" "ws = []"
    using Cons.prems by auto
  then show ?case
  proof cases
    case 1
    note r = replaced_word [OF 1(1)]
    obtain l where l: "is_lower l" "under_score (Some p) (replaced w @ concat (map replaced ws))
        = ''_'' @ map to_lower (replaced w) @ under_score (Some l) (concat (map replaced ws))"
      using under_score_word [OF r(1), of "Some p"] Cons.prems(2) by auto
    have "\<not> is_case l" using l(1) case_simps by (auto simp: is_case_def)
    then show ?thesis using Cons.IH [OF 1(2)] l(2) r(2) by simp
  next
    case 2
    then obtain d ds where "w = d # ds" "is_digit d" "list_all is_digit ds" by (cases w) (auto simp: number_word_def)
    then show ?thesis using 2 Cons.prems(2) under_score_digits [of ds d]
      by (simp add: replaced_def is_case_def)
  qed
qed simp

lemma under_score_first:
  assumes "camel_words ws" and "ws \<noteq> []"
  shows "under_score None (concat (map replaced ws)) = join ''_'' (map (map to_lower) ws)"
proof -
  obtain w ws' where ws: "ws = w # ws'" using assms(2) by (cases ws) auto
  have j: "join sep (x # xs) = x @ concat (map (\<lambda>y. sep @ y) xs)" for sep :: string and x xs
    by (induction xs arbitrary: x) simp_all
  consider "cap_word w \<or> initialism_at w (concat ws')" "camel_words ws'" | "number_word w" "ws' = []"
    using assms(1) ws by auto
  then show ?thesis
  proof cases
    case 1
    note r = replaced_word [OF 1(1)]
    obtain l where l: "is_lower l" "under_score None (replaced w @ concat (map replaced ws'))
        = map to_lower (replaced w) @ under_score (Some l) (concat (map replaced ws'))"
      using under_score_word [OF r(1), of None] by auto
    have "\<not> is_case l" using l(1) case_simps by (auto simp: is_case_def)
    then show ?thesis using under_score_words [OF 1(2)] l(2) r(2) ws by (simp add: j comp_def)
  next
    case 2
    then obtain d ds where "w = d # ds" "is_digit d" "list_all is_digit ds" by (cases w) (auto simp: number_word_def)
    then show ?thesis using 2 ws under_score_digits [of ds d] by (simp add: replaced_def is_case_def)
  qed
qed

lemma ToUnderScore_words:
  assumes "camel_name ws"
  shows "ToUnderScore (concat ws) = join ''_'' (map (map to_lower) ws)"
proof -
  have rep: "abbrCommonReplace (concat vs) = concat (map replaced vs)" if "camel_words vs" for vs
    using replacer_words [OF that] by (simp add: abbrCommonReplace_def replaced_def [abs_def])
  have words: "ToUnderScore (concat ws) = join ''_'' (map (map to_lower) ws)" if "camel_words ws" "concat ws \<noteq> []"
  proof -
    have "ws \<noteq> []" using that(2) by auto
    then show ?thesis using rep [OF that(1)] under_score_first [OF that(1)] that(2) unfolding ToUnderScore_def by (simp del: concat_eq_Nil_conv)
  qed
  have empty: "ws = []" if "camel_words ws" "concat ws = []"
    using that initialism_shape [OF find_initialism]
    by (cases ws) (force simp: initialism_at_def number_word_def)+
  show ?thesis
  proof (cases "camel_words ws")
    case True
    then show ?thesis using words empty by (cases "concat ws = []") (auto simp: ToUnderScore_def)
  next
    case False
    then obtain w vs where ws: "ws = w # vs" and w: "lower_word w" and vs: "camel_words vs"
      using assms by (auto simp: camel_name_def)
    have low: "w \<noteq> []" "list_all is_lower w" using w by (simp_all add: lower_word_def)
    then have "list_all (\<lambda>c. \<not> is_upper c) w" using case_simps(1) by (auto simp: list_all_iff)
    then have a: "abbrCommonReplace (w @ concat vs) = w @ concat (map replaced vs)"
      using replacer_not_upper [of w "concat vs"] rep [OF vs] by (simp add: abbrCommonReplace_def)
    have "is_lower (last w)" using low by (simp add: list_all_iff)
    then have "\<not> is_case (last w)" using case_simps by (auto simp: is_case_def)
    moreover have "map to_lower w = w" using low(2) case_simps(1) by (induction w) auto
    moreover have "join sep (x # xs) = x @ concat (map (\<lambda>y. sep @ y) xs)" for sep :: string and x xs
      by (induction xs arbitrary: x) simp_all
    ultimately show ?thesis
      using a under_score_tail [OF low(2), of None] under_score_words [OF vs] ws low(1)
      by (simp add: ToUnderScore_def comp_def)
  qed
qed

section \<open>Properties\<close>

text \<open>C37: \<open>ToUnderScore\<close> separates the words of a name by underscores and writes them in lower case. For a name
  in camel case made of words (capital words, initialisms of letters that the replacer finds in their place, a
  number at the end, and perhaps a first word without capital) the result is these words in lower case with
  one underscore between each two. Of any ASCII string the result has no upper-case letter; of a name
  (letters, digits and underscores) it has only lower-case letters, digits and underscores, and it begins
  with a letter when the name does.
\<close>

theorem ToUnderScore_makes_snake_case:
  "(camel_name ws \<longrightarrow> ToUnderScore (concat ws) = join ''_'' (map (map to_lower) ws))
   \<and> ((\<forall>c \<in> set s. (of_char c :: nat) < 128) \<longrightarrow> (\<forall>c \<in> set (ToUnderScore s). \<not> is_upper c))
   \<and> (list_all name_char s \<longrightarrow> list_all snake_char (ToUnderScore s))
   \<and> (list_all name_char s \<longrightarrow> s \<noteq> [] \<and> (is_lower (hd s) \<or> is_upper (hd s)) \<longrightarrow>
        ToUnderScore s \<noteq> [] \<and> is_lower (hd (ToUnderScore s)))"
proof -
  have no_upper: "\<forall>c \<in> set (ToUnderScore s). \<not> is_upper c"
    using under_score_no_upper by (simp add: ToUnderScore_def)
  moreover have "list_all snake_char (ToUnderScore s)" if "list_all name_char s"
  proof -
    have r: "list_all name_char (abbrCommonReplace s)" using that by (rule abbrCommonReplace_chars)
    have u: "name_char CHR ''_''" by (simp add: name_char_def)
    have "name_char c" if "c \<in> set (under_score None (abbrCommonReplace s))" for c
      using that set_under_score [of None "abbrCommonReplace s"] to_lower_name r u
      unfolding list_all_iff by blast
    then have "name_char c" if "c \<in> set (ToUnderScore s)" for c
      using that by (cases "s = []") (simp_all add: ToUnderScore_def)
    with no_upper show ?thesis by (auto simp: list_all_iff name_char_def snake_char_def)
  qed
  moreover have "ToUnderScore s \<noteq> [] \<and> is_lower (hd (ToUnderScore s))"
    if ne: "s \<noteq> []" and first: "is_lower (hd s) \<or> is_upper (hd s)"
  proof -
    obtain c cs where c: "abbrCommonReplace s = c # cs" "is_lower c \<or> is_upper c"
      by (rule abbrCommonReplace_hd [OF ne first])
    with c ne show ?thesis using case_simps
      by (cases "is_upper c") (auto simp: ToUnderScore_def is_case_def is_lower_to_lower)
  qed
  ultimately show ?thesis using ToUnderScore_words [of ws] by blast
qed

theorem ToUnderScore_makes_snake_case_witness:
  "ToUnderScore ''MySSHKey2'' = ''my_ssh_key_2'' \<and> list_all snake_char (ToUnderScore ''User_ID'')"
proof -
  have "camel_name [''My'', ''SSH'', ''Key'', ''2'']"
    by (simp add: camel_name_def lower_word_def initialism_at_def commonInitialisms_def number_word_def
        is_upper_def is_lower_def is_digit_def)
  moreover have "map (map to_lower) [''My'', ''SSH'', ''Key'', ''2''] = [''my'', ''ssh'', ''key'', ''2'']"
    by (simp add: char_eval)
  moreover have "list_all name_char ''User_ID''" by (simp add: name_char_def is_upper_def is_lower_def)
  ultimately show ?thesis
    using ToUnderScore_makes_snake_case [of "[''My'', ''SSH'', ''Key'', ''2'']" "''User_ID''"] by simp
qed

text \<open>  \<open>ToLowerCamel\<close> panics exactly on the non-empty strings of underscores only (\<open>r[0]\<close> of an empty
  slice); \<open>ToUpperCamel\<close> maps these, and no others, to the empty string, without a panic.
\<close>

theorem ToLowerCamel_panics_iff:
  "(ToLowerCamel s = Inl IndexOutOfRange \<longleftrightarrow> s \<noteq> [] \<and> set s \<subseteq> {CHR ''_''})
   \<and> (\<forall>p. ToLowerCamel s = Inl p \<longrightarrow> p = IndexOutOfRange)
   \<and> (toUpperCamel s = [] \<longleftrightarrow> set s \<subseteq> {CHR ''_''})"
proof (cases "toUpperCamel s")
  case Nil
  then show ?thesis using toUpperCamel_Nil [of s]
    by (auto simp: ToLowerCamel_def slice_get_def)
next
  case (Cons c cs)
  then have "\<not> set s \<subseteq> {CHR ''_''}" using toUpperCamel_Nil [of s] by simp
  with Cons show ?thesis
    by (auto simp: ToLowerCamel_def slice_get_def slice_set_def)
qed

theorem ToLowerCamel_panics_iff_witness: "ToLowerCamel ''__'' = Inl IndexOutOfRange"
  using ToLowerCamel_panics_iff [of "''__''"] by simp

text \<open>
  The initialisms are replaced inside words as well, and a name that ends in one swallows the
  letter before it.
\<close>

lemma initialism_examples:
  "ToUpperCamel ''identity'' = ''IDentity''" "ToUpperCamel ''u_id'' = ''UID''"
  "ToUnderScore (ToUpperCamel ''u_id'') = ''uid''" "ToUnderScore ''a1'' = ''a_1''"
  "ToUnderScore ''a_1'' = ''a__1''"
  by (simp_all add: ToUpperCamel_def ToUnderScore_def toUpperCamel_def camelCommonAbbrReplace_def
      abbrCommonReplace_def pairs_eval is_case_def char_eval)

end
