(* ===== verification/Compress_Model.thy ===== *)
theory Compress_Model
  imports Prelude
begin

text \<open>
  Compression by size (\<open>compress/compress.go\<close>). The package \<open>compress/zlib\<close> is a parameter: \<open>deflate\<close>
  (a writer of a level, one write, close) and \<open>inflate\<close> (a reader read to its end). The buffers
  of the pool are reset before they go back and copied from, so they carry nothing.
\<close>

type_synonym octets = "8 word list"

record thresholds =
  defaultWeakThreshold :: int
  defaultStrongThreshold :: int
  once_done :: bool

definition BestSpeed :: int where "BestSpeed = 1"
definition BestCompression :: int where "BestCompression = 9"
definition DefaultCompression :: int where "DefaultCompression = - 1"

definition initial_thresholds :: thresholds where
  "initial_thresholds = \<lparr>defaultWeakThreshold = push_bit 10 10, defaultStrongThreshold = push_bit 10 512, once_done = False\<rparr>"

text \<open>\<open>once.Do\<close> runs its function on the first call only, whatever the arguments of that call are.\<close>

definition Init :: "int \<Rightarrow> int \<Rightarrow> thresholds \<Rightarrow> thresholds" where
  "Init weak strong t =
     (if once_done t then t
      else let t' = t\<lparr>once_done := True\<rparr>
        in if weak > 0 \<and> strong > 0 \<and> weak < strong
           then t'\<lparr>defaultWeakThreshold := weak, defaultStrongThreshold := strong\<rparr>
           else t')"

definition compress_level :: "thresholds \<Rightarrow> int \<Rightarrow> int" where
  "compress_level t dataLen =
     (let level = (if dataLen \<ge> defaultStrongThreshold t then DefaultCompression else BestSpeed)
      in if level < BestSpeed \<or> level > BestCompression then DefaultCompression else level)"

text \<open>The results: compressed or copied data and whether it was compressed; \<open>None\<close> for an error of zlib.\<close>

definition Compress :: "(int \<Rightarrow> octets \<Rightarrow> octets option) \<Rightarrow> thresholds \<Rightarrow> octets \<Rightarrow> (octets \<times> bool) option" where
  "Compress deflate t data =
     (let dataLen = int (length data) in
      if dataLen = 0 then Some ([], False)
      else if dataLen < defaultWeakThreshold t then Some (data, False)
      else case deflate (compress_level t dataLen) data of
          None \<Rightarrow> None
        | Some ret \<Rightarrow> Some (ret, True))"

definition Decompress :: "(octets \<Rightarrow> octets option) \<Rightarrow> octets \<Rightarrow> octets option" where
  "Decompress inflate data = (if length data = 0 then Some [] else inflate data)"

text \<open>
  What zlib promises: at the levels \<open>- 1\<close> and 1 to 9 the compressor succeeds, with a stream that
  is not empty and that expands to the data.
\<close>

definition zlib_ok :: "(int \<Rightarrow> octets \<Rightarrow> octets option) \<Rightarrow> (octets \<Rightarrow> octets option) \<Rightarrow> bool" where
  "zlib_ok deflate inflate \<longleftrightarrow> (\<forall>level data. level = - 1 \<or> (1 \<le> level \<and> level \<le> 9) \<longrightarrow>
     (\<exists>z. deflate level data = Some z \<and> z \<noteq> [] \<and> inflate z = Some data))"

definition run_inits :: "(int \<times> int) list \<Rightarrow> thresholds" where
  "run_inits calls = foldl (\<lambda>t (w, s). Init w s t) initial_thresholds calls"

lemma Init_done [simp]: "once_done t \<Longrightarrow> Init w s t = t"
  by (simp add: Init_def)

lemma run_inits_after: "once_done t \<Longrightarrow> foldl (\<lambda>t (w, s). Init w s t) t calls = t"
  by (induction calls) auto

lemma run_inits_first: "run_inits ((w, s) # calls) = Init w s initial_thresholds"
  using run_inits_after [of "Init w s initial_thresholds" calls]
  by (simp add: run_inits_def Init_def initial_thresholds_def Let_def)

lemma thresholds_positive: "0 < defaultWeakThreshold (run_inits calls)
    \<and> defaultWeakThreshold (run_inits calls) < defaultStrongThreshold (run_inits calls)"
proof (cases calls)
  case Nil
  then show ?thesis by (simp add: run_inits_def initial_thresholds_def push_bit_eq_mult)
next
  case (Cons c cs)
  then show ?thesis
    by (cases c) (simp add: run_inits_first Init_def initial_thresholds_def Let_def push_bit_eq_mult)
qed

lemma compress_level_ok: "compress_level t n = - 1 \<or> (1 \<le> compress_level t n \<and> compress_level t n \<le> 9)"
  by (simp add: compress_level_def BestSpeed_def BestCompression_def DefaultCompression_def)

text \<open>Compression is lossless and decided by size. After any calls of \<open>Init\<close>, \<open>Compress\<close> succeeds on all
  data; it compresses exactly the data that reach the weak threshold, and \<open>Decompress\<close> gives those
  back, while shorter data are returned as they are. The thresholds stay positive and ordered, and
  are those of the first call of \<open>Init\<close> if it is valid; if it is not, later valid calls have no
  effect either.
\<close>

theorem compress_roundtrip:
  assumes "zlib_ok deflate inflate"
  shows "(\<exists>ret did. Compress deflate (run_inits calls) data = Some (ret, did)
          \<and> (did \<longleftrightarrow> defaultWeakThreshold (run_inits calls) \<le> int (length data))
          \<and> (did \<longrightarrow> Decompress inflate ret = Some data) \<and> (\<not> did \<longrightarrow> ret = data))
       \<and> 0 < defaultWeakThreshold (run_inits calls)
       \<and> defaultWeakThreshold (run_inits calls) < defaultStrongThreshold (run_inits calls)
       \<and> run_inits ((w, s) # calls) = Init w s initial_thresholds"
proof -
  let ?t = "run_inits calls"
  obtain z where z: "deflate (compress_level ?t (int (length data))) data = Some z" "z \<noteq> []" "inflate z = Some data"
    using assms compress_level_ok unfolding zlib_ok_def by blast
  have "0 < defaultWeakThreshold ?t" using thresholds_positive by blast
  with z have "\<exists>ret did. Compress deflate ?t data = Some (ret, did)
          \<and> (did \<longleftrightarrow> defaultWeakThreshold ?t \<le> int (length data))
          \<and> (did \<longrightarrow> Decompress inflate ret = Some data) \<and> (\<not> did \<longrightarrow> ret = data)"
    by (auto simp: Compress_def Decompress_def Let_def)
  then show ?thesis using thresholds_positive [of calls] run_inits_first by blast
qed

lemma toy_zlib_ok: "zlib_ok (\<lambda>l d. Some (1 # d)) (\<lambda>z. Some (tl z))"
  by (simp add: zlib_ok_def)

theorem compress_roundtrip_witness:
  "\<exists>ret did. Compress (\<lambda>l d. Some (1 # d)) (run_inits [(2, 3)]) [5, 6, 7] = Some (ret, did)
     \<and> defaultWeakThreshold (run_inits [(2, 3)]) = 2"
  using compress_roundtrip [OF toy_zlib_ok, of "[(2, 3)]" "[5, 6, 7]" 0 0]
  by (auto simp: run_inits_first Init_def initial_thresholds_def)

end
