(* ===== verification/Xrand_Model.thy ===== *)
theory Xrand_Model
  imports Complex_Main Go_Strings
begin

text \<open>
  Random values (\<open>xrand/rand.go\<close>, \<open>xrand/string.go\<close>). The generator taken from the pool is a
  parameter: its state and the functions of \<open>math/rand/v2\<close> on it. Each function of the package
  takes the state and returns it with its value.
\<close>

section \<open>The generator\<close>

record 's generator =
  Uint64 :: "'s \<Rightarrow> 64 word \<times> 's"
  gen_intN :: "'s \<Rightarrow> nat \<Rightarrow> nat \<times> 's"

text \<open>\<open>IntN\<close>, \<open>Int64N\<close> and \<open>Uint32N\<close> are in range.\<close>

definition generator_ok :: "'s generator \<Rightarrow> bool" where
  "generator_ok g \<longleftrightarrow> (\<forall>s n. 0 < n \<longrightarrow> fst (gen_intN g s n) < n)"

definition IntN :: "'s generator \<Rightarrow> 's \<Rightarrow> int \<Rightarrow> (int \<times> 's) go" where
  "IntN g s n = (if n \<le> 0 then Inl (PanicMsg ''invalid argument to IntN'')
     else case gen_intN g s (nat n) of (k, s') \<Rightarrow> Inr (int k, s'))"

definition Int64N :: "'s generator \<Rightarrow> 's \<Rightarrow> int \<Rightarrow> (int \<times> 's) go" where
  "Int64N g s n = (if n \<le> 0 then Inl (PanicMsg ''invalid argument to Int64N'')
     else case gen_intN g s (nat n) of (k, s') \<Rightarrow> Inr (int k, s'))"

definition Uint32N :: "'s generator \<Rightarrow> 's \<Rightarrow> 32 word \<Rightarrow> (32 word \<times> 's) go" where
  "Uint32N g s n = (if n = 0 then Inl (PanicMsg ''invalid argument to Uint32N'')
     else case gen_intN g s (unat n) of (k, s') \<Rightarrow> Inr (of_nat k, s'))"

lemma IntN_range: "generator_ok g \<Longrightarrow> IntN g s n = Inr (k, s') \<Longrightarrow> 0 \<le> k \<and> k < n"
proof -
  assume ok: "generator_ok g" and r: "IntN g s n = Inr (k, s')"
  then have n: "0 < nat n" by (auto simp: IntN_def split: if_splits)
  obtain a b where ab: "gen_intN g s (nat n) = (a, b)" by fastforce
  have "a < nat n" using ok n ab unfolding generator_ok_def by (metis fst_conv)
  moreover have "k = int a" using r ab n by (simp add: IntN_def)
  ultimately show ?thesis by linarith
qed

text \<open>
  \<open>Int64\<close> and \<open>Float64\<close> of \<open>math/rand/v2\<close> take one value of \<open>Uint64\<close>: the first without its highest bit, the second
  the low 53 bits over \<open>2 ^ 53\<close>, a quotient that is exact.
\<close>

definition Int64 :: "'s generator \<Rightarrow> 's \<Rightarrow> int \<times> 's" where
  "Int64 g s = (case Uint64 g s of (v, s') \<Rightarrow> (sint (take_bit 63 v), s'))"

definition Float64 :: "'s generator \<Rightarrow> 's \<Rightarrow> rat \<times> 's" where
  "Float64 g s = (case Uint64 g s of (v, s') \<Rightarrow> (of_nat (unat (take_bit 53 v)) / 2 ^ 53, s'))"

lemma Int64_range: "0 \<le> fst (Int64 g s) \<and> fst (Int64 g s) < 2 ^ 63"
proof -
  obtain v s' where v: "Uint64 g s = (v, s')" by fastforce
  have "uint (take_bit 63 v) < 2 ^ 63" using take_bit_int_less_exp [of 63 "uint v"] by (simp add: unsigned_take_bit_eq)
  then have "sint (take_bit 63 v) = uint (take_bit 63 v)"
    by (simp add: sint_uint signed_take_bit_int_eq_self_iff order_trans [of _ 0])
  with v \<open>uint (take_bit 63 v) < 2 ^ 63\<close> show ?thesis by (simp add: Int64_def)
qed

lemma Float64_range: "0 \<le> fst (Float64 g s) \<and> fst (Float64 g s) < 1"
proof -
  obtain v s' where v: "Uint64 g s = (v, s')" by fastforce
  have "unat (take_bit 53 v) < 2 ^ 53" using take_bit_nat_less_exp [of 53 "unat v"] by (simp add: unsigned_take_bit_eq)
  then have "(of_nat (unat (take_bit 53 v)) :: rat) < of_nat (2 ^ 53)" by (simp only: of_nat_less_iff)
  moreover have "(0 :: rat) \<le> of_nat (unat (take_bit 53 v))" by (rule of_nat_0_le_iff)
  ultimately show ?thesis unfolding Float64_def v prod.case fst_conv by (simp only: of_nat_power of_nat_numeral) simp
qed

section \<open>The pool\<close>

text \<open>
  A generator that the pool makes is seeded with 16 bytes of \<open>crypto/rand\<close>, or when they cannot be read
  with the clock. \<open>pcg\<close> is \<open>NewPCG\<close>, a function of its two seeds.
\<close>

definition be_uint64 :: "8 word list \<Rightarrow> 64 word" where
  "be_uint64 bs = foldl (\<lambda>a b. a * 256 + ucast b) 0 bs"

definition pool_seeds :: "8 word list option \<Rightarrow> int \<Rightarrow> int \<Rightarrow> 64 word \<times> 64 word" where
  "pool_seeds read nanos micros = (case read of
     None \<Rightarrow> (and (word_of_int nanos) 0x7FFFFFFFFFFFFFFF, and (word_of_int micros) 0x7FFFFFFFFFFFFFFF)
   | Some seedBytes \<Rightarrow> (be_uint64 (take 8 seedBytes), be_uint64 (drop 8 seedBytes)))"

definition pool_New :: "(64 word \<Rightarrow> 64 word \<Rightarrow> 's) \<Rightarrow> 8 word list option \<Rightarrow> int \<Rightarrow> int \<Rightarrow> 's" where
  "pool_New pcg read nanos micros = (case pool_seeds read nanos micros of (seed1, seed2) \<Rightarrow> pcg seed1 seed2)"

text \<open>The seeds keep all 128 bits: different bytes give different seeds.\<close>

fun be_nat :: "8 word list \<Rightarrow> nat" where
  "be_nat [] = 0"
| "be_nat (b # bs) = unat b * 256 ^ length bs + be_nat bs"

lemma be_nat_less: "be_nat bs < 256 ^ length bs"
proof (induction bs)
  case (Cons b bs)
  have "unat b \<le> 255" using unsigned_less [of b, where 'a = nat] by simp
  then have "unat b * 256 ^ length bs + be_nat bs < 255 * 256 ^ length bs + 256 ^ length bs"
    using Cons by (intro add_le_less_mono mult_right_mono) auto
  then show ?case by simp
qed simp

lemma be_nat_inj: "length bs = length cs \<Longrightarrow> be_nat bs = be_nat cs \<Longrightarrow> bs = cs"
proof (induction bs cs rule: list_induct2)
  case (Cons b bs c cs)
  let ?K = "256 ^ length cs :: nat"
  have e: "unat b * ?K + be_nat bs = unat c * ?K + be_nat cs" using Cons by simp
  have l: "be_nat bs < ?K" "be_nat cs < ?K" using be_nat_less [of bs] be_nat_less [of cs] Cons by simp_all
  have "(unat b * ?K + be_nat bs) div ?K = unat b" "(unat c * ?K + be_nat cs) div ?K = unat c"
    using l by (simp_all add: div_mult_self3)
  then have "unat b = unat c" using e by simp
  then have "b = c" "be_nat bs = be_nat cs" using e by (simp_all add: unsigned_word_eqI)
  with Cons show ?case by simp
qed simp

lemma be_uint64_foldl: "foldl (\<lambda>a b. a * 256 + ucast b) a bs = a * 256 ^ length bs + (of_nat (be_nat bs) :: 64 word)"
  by (induction bs arbitrary: a) (simp_all add: algebra_simps)

lemma be_uint64_inj:
  assumes "length bs = 8" "length cs = 8" "be_uint64 bs = be_uint64 cs"
  shows "bs = cs"
proof -
  have "unat (be_uint64 ds) = be_nat ds" if "length ds = 8" for ds
    using that be_nat_less [of ds] by (simp add: be_uint64_def be_uint64_foldl unat_of_nat)
  then show ?thesis using assms be_nat_inj by metis
qed

lemma pool_seeds_inj:
  assumes "length bs = 16" and "length cs = 16" and "pool_seeds (Some bs) t u = pool_seeds (Some cs) t' u'"
  shows "bs = cs"
proof -
  have "take 8 bs = take 8 cs" "drop 8 bs = drop 8 cs"
    using assms by (auto simp: pool_seeds_def intro!: be_uint64_inj)
  then show ?thesis by (metis append_take_drop_id)
qed

section \<open>Strings\<close>

definition charset :: string where
  "charset = ''abcdefghijklmnopqrstuvwxyzABCDEFGHIJKLMNOPQRSTUVWXYZ0123456789''"

definition charsetLen :: nat where "charsetLen = length charset"

fun random_chars :: "'s generator \<Rightarrow> nat \<Rightarrow> 's \<Rightarrow> (string \<times> 's) go" where
  "random_chars g 0 s = Inr ([], s)"
| "random_chars g (Suc n) s =
     (case gen_intN g s charsetLen of (idx, s') \<Rightarrow>
        bindR (slice_get charset (int idx)) (\<lambda>c.
        bindR (random_chars g n s') (\<lambda>(cs, s''). Inr (c # cs, s''))))"

text \<open>\<open>None\<close> is the error of a length that is not positive.\<close>

definition RandAlphaNumString :: "'s generator \<Rightarrow> 's \<Rightarrow> int \<Rightarrow> (string \<times> 's) option go" where
  "RandAlphaNumString g s len =
     (if len \<le> 0 then Inr None else bindR (random_chars g (nat len) s) (\<lambda>r. Inr (Some r)))"

section \<open>Bytes\<close>

text \<open>The inner loop: bytes \<open>j\<close> to \<open>j + m - 1\<close> of a value.\<close>

definition value_byte :: "64 word \<Rightarrow> nat \<Rightarrow> 8 word" where
  "value_byte v j = ucast (drop_bit (j * 8) v)"

fun put_value :: "8 word list \<Rightarrow> nat \<Rightarrow> 64 word \<Rightarrow> nat \<Rightarrow> nat \<Rightarrow> 8 word list go" where
  "put_value bs off v j 0 = Inr bs"
| "put_value bs off v j (Suc m) =
     bindR (slice_set bs (int (off + j)) (value_byte v j)) (\<lambda>bs'. put_value bs' off v (j + 1) m)"

text \<open>The outer loop, from chunk \<open>i\<close>.\<close>

fun put_chunks :: "'s generator \<Rightarrow> 8 word list \<Rightarrow> nat \<Rightarrow> nat \<Rightarrow> 's \<Rightarrow> (8 word list \<times> 's) go" where
  "put_chunks g bs i 0 s = Inr (bs, s)"
| "put_chunks g bs i (Suc n) s =
     (case Uint64 g s of (v, s') \<Rightarrow>
        bindR (put_value bs (i * 8) v 0 8) (\<lambda>bs'. put_chunks g bs' (i + 1) n s'))"

text \<open>The loop for less than 32 bytes: \<open>Uint32N(256)\<close> for each.\<close>

fun put_small :: "'s generator \<Rightarrow> 8 word list \<Rightarrow> nat \<Rightarrow> nat \<Rightarrow> 's \<Rightarrow> (8 word list \<times> 's) go" where
  "put_small g bs i 0 s = Inr (bs, s)"
| "put_small g bs i (Suc n) s =
     (case gen_intN g s 256 of (k, s') \<Rightarrow>
        bindR (slice_set bs (int i) (of_nat k)) (\<lambda>bs'. put_small g bs' (i + 1) n s'))"

definition BytesN :: "'s generator \<Rightarrow> 's \<Rightarrow> int \<Rightarrow> (8 word list \<times> 's) go" where
  "BytesN g s n =
     (if n \<le> 0 then Inr ([], s)
      else bindR (make_slice n 0) (\<lambda>bs.
        if n \<ge> 32 then
          (let chunks = nat n div 8; remainder = nat n mod 8 in
           bindR (put_chunks g bs 0 chunks s) (\<lambda>(bs', s').
             if remainder > 0 then
               (case Uint64 g s' of (v, s'') \<Rightarrow>
                  bindR (put_value bs' (chunks * 8) v 0 remainder) (\<lambda>bs''. Inr (bs'', s'')))
             else Inr (bs', s')))
        else put_small g bs 0 (nat n) s))"

section \<open>Lemmas\<close>

text \<open>The values that the generator gives from a state on, and their bytes, the low one first.\<close>

fun draws :: "'s generator \<Rightarrow> nat \<Rightarrow> 's \<Rightarrow> 64 word list \<times> 's" where
  "draws g 0 s = ([], s)"
| "draws g (Suc n) s = (case Uint64 g s of (v, s') \<Rightarrow> case draws g n s' of (vs, s'') \<Rightarrow> (v # vs, s''))"

definition le_bytes :: "64 word \<Rightarrow> 8 word list" where
  "le_bytes v = map (value_byte v) [0..<8]"

lemma length_le_bytes [simp]: "length (le_bytes v) = 8"
  by (simp add: le_bytes_def)

lemma put_value_eq:
  assumes "length pre = off + j" and "m \<le> length post"
  shows "put_value (pre @ post) off v j m = Inr (pre @ map (value_byte v) [j..<j + m] @ drop m post)"
  using assms
proof (induction m arbitrary: j pre post)
  case (Suc m)
  then obtain p ps where p: "post = p # ps" by (cases post) auto
  have "slice_set (pre @ post) (int (off + j)) (value_byte v j) = Inr (pre @ value_byte v j # ps)"
    using slice_set_in [of "off + j" "pre @ post" "value_byte v j"] Suc.prems p
    by (simp add: list_update_append del: slice_set_in of_nat_add)
  moreover have "put_value ((pre @ [value_byte v j]) @ ps) off v (j + 1) m
      = Inr ((pre @ [value_byte v j]) @ map (value_byte v) [j + 1..<j + 1 + m] @ drop m ps)"
    by (rule Suc.IH) (use Suc.prems p in auto)
  ultimately show ?case using p by (simp add: upt_rec [of j])
qed simp

lemma put_chunks_eq:
  assumes "length pre = i * 8" and "n * 8 \<le> length post"
  shows "put_chunks g (pre @ post) i n s =
    Inr (pre @ concat (map le_bytes (fst (draws g n s))) @ drop (n * 8) post, snd (draws g n s))"
  using assms
proof (induction n arbitrary: pre post i s)
  case (Suc n)
  obtain v s' where v: "Uint64 g s = (v, s')" by fastforce
  have "put_value (pre @ post) (i * 8) v 0 8 = Inr (pre @ le_bytes v @ drop 8 post)"
    using put_value_eq [of pre "i * 8" 0 8 post v] Suc.prems by (simp add: le_bytes_def)
  moreover have "put_chunks g ((pre @ le_bytes v) @ drop 8 post) (i + 1) n s' =
      Inr ((pre @ le_bytes v) @ concat (map le_bytes (fst (draws g n s'))) @ drop (n * 8) (drop 8 post), snd (draws g n s'))"
    by (rule Suc.IH) (use Suc.prems in auto)
  ultimately show ?case using v by (simp add: add.commute split: prod.splits)
qed simp

lemma draws_length: "length (fst (draws g n s)) = n"
  by (induction n arbitrary: s) (simp_all split: prod.splits, metis fst_conv)

lemma draws_Suc: "draws g (Suc n) s = (case draws g n s of (vs, s') \<Rightarrow> case Uint64 g s' of (v, s'') \<Rightarrow> (vs @ [v], s''))"
proof (induction n arbitrary: s)
  case (Suc n)
  have "draws g (Suc (Suc n)) s =
      (case Uint64 g s of (v, s1) \<Rightarrow> case draws g (Suc n) s1 of (vs, s2) \<Rightarrow> (v # vs, s2))"
    by (rule draws.simps(2))
  also have "\<dots> = (case Uint64 g s of (v, s1) \<Rightarrow>
      case (case draws g n s1 of (vs, s') \<Rightarrow> case Uint64 g s' of (v', s'') \<Rightarrow> (vs @ [v'], s''))
      of (vs, s2) \<Rightarrow> (v # vs, s2))"
    by (simp only: Suc.IH)
  also have "\<dots> = (case draws g (Suc n) s of (vs, s') \<Rightarrow> case Uint64 g s' of (v, s'') \<Rightarrow> (vs @ [v], s''))"
    by (simp add: case_prod_beta)
  finally show ?case .
qed (simp add: case_prod_beta)

lemma put_small_ok:
  assumes "i + n = length bs"
  shows "\<exists>bs' s'. put_small g bs i n s = Inr (bs', s') \<and> length bs' = length bs"
  using assms
proof (induction n arbitrary: bs i s)
  case (Suc n)
  obtain k s' where k: "gen_intN g s 256 = (k, s')" by fastforce
  have "\<exists>bs' s''. put_small g (bs[i := of_nat k]) (i + 1) n s' = Inr (bs', s'') \<and> length bs' = length (bs[i := of_nat k])"
    by (rule Suc.IH) (use Suc.prems in simp)
  then show ?case using k Suc.prems by (simp add: slice_set_def)
qed simp

section \<open>Properties\<close>

text \<open>C38: \<open>BytesN n\<close> never panics and returns \<open>n\<close> bytes (none for \<open>n\<close> not positive). From 32 bytes on they
  are the bytes, low byte first, of the values that \<open>\<lceil>n / 8\<rceil>\<close> calls of \<open>Uint64\<close> give, cut off at \<open>n\<close>:
  every position is filled, and no byte of a value is used twice.
\<close>

theorem BytesN_is_little_endian_stream:
  "\<exists>bs s'. BytesN g s n = Inr (bs, s') \<and> length bs = nat n
     \<and> (32 \<le> n \<longrightarrow> bs = take (nat n) (concat (map le_bytes (fst (draws g ((nat n + 7) div 8) s))))
                  \<and> s' = snd (draws g ((nat n + 7) div 8) s))"
proof -
  consider "n \<le> 0" | "0 < n" "n < 32" | "32 \<le> n" by linarith
  then show ?thesis
  proof cases
    case 2
    then show ?thesis using put_small_ok [of 0 "nat n" "replicate (nat n) 0" g s]
      by (simp add: BytesN_def make_slice_def)
  next
    case 3
    define N c r where "N = nat n" and "c = N div 8" and "r = N mod 8"
    have N: "N = c * 8 + r" "r < 8" by (simp_all add: c_def r_def)
    obtain vs s1 where d: "draws g c s = (vs, s1)" by fastforce
    have lvs: "length (concat (map le_bytes vs)) = c * 8"
      using draws_length [of g c s] d by (simp add: length_concat comp_def sum_list_triv)
    have chunks: "put_chunks g (replicate N 0) 0 c s = Inr (concat (map le_bytes vs) @ replicate r 0, s1)"
      using put_chunks_eq [of "[]" 0 c "replicate N 0" g s] d N by simp
    show ?thesis
    proof (cases "r = 0")
      case True
      then have "(N + 7) div 8 = c" using N by simp
      then show ?thesis using 3 True chunks d lvs N
        by (simp add: BytesN_def make_slice_def N_def [symmetric] c_def [symmetric] r_def [symmetric])
    next
      case False
      obtain v s2 where v: "Uint64 g s1 = (v, s2)" by fastforce
      have "(N + 7) div 8 = Suc c" using N False by simp
      moreover have "draws g (Suc c) s = (vs @ [v], s2)" using d v draws_Suc [of g c s] by simp
      moreover have "put_value (concat (map le_bytes vs) @ replicate r 0) (c * 8) v 0 r
          = Inr (concat (map le_bytes vs) @ map (value_byte v) [0..<r])"
        using put_value_eq [of "concat (map le_bytes vs)" "c * 8" 0 r "replicate r 0" v] lvs by simp
      moreover have "take r (le_bytes v) = map (value_byte v) [0..<r]"
        using N by (simp add: le_bytes_def take_map)
      ultimately show ?thesis using 3 False chunks v lvs N
        by (simp add: BytesN_def make_slice_def N_def [symmetric] c_def [symmetric] r_def [symmetric] del: draws.simps)
    qed
  qed (simp add: BytesN_def)
qed

theorem BytesN_is_little_endian_stream_witness:
  "\<exists>bs s'. BytesN \<lparr>Uint64 = (\<lambda>s. (7, s + 1)), gen_intN = (\<lambda>s n. (0, s))\<rparr> (0 :: nat) 33 = Inr (bs, s')
     \<and> length bs = 33 \<and> s' = 5"
proof -
  let ?g = "\<lparr>Uint64 = (\<lambda>s. (7 :: 64 word, s + 1 :: nat)), gen_intN = (\<lambda>s n. (0 :: nat, s))\<rparr>"
  have "snd (draws ?g n s) = s + n" for n s by (induction n arbitrary: s) (simp_all add: case_prod_beta)
  then have d: "snd (draws ?g ((nat 33 + 7) div 8) 0) = 5" by simp
  obtain bs s' where b: "BytesN ?g 0 33 = Inr (bs, s')" and l: "length bs = nat 33"
    and e: "(32 :: int) \<le> 33 \<longrightarrow> bs = take (nat 33) (concat (map le_bytes (fst (draws ?g ((nat 33 + 7) div 8) 0))))
      \<and> s' = snd (draws ?g ((nat 33 + 7) div 8) 0)"
    using BytesN_is_little_endian_stream [of ?g "0 :: nat" 33] by (elim exE conjE) (rule that)
  have "s' = 5" using e d by (simp del: draws.simps)
  with b l show ?thesis by (intro exI [of _ bs] exI [of _ s']) simp
qed

lemma random_chars_ok:
  "generator_ok g \<Longrightarrow> \<exists>cs s'. random_chars g n s = Inr (cs, s') \<and> length cs = n \<and> set cs \<subseteq> set charset"
proof (induction n arbitrary: s)
  case (Suc n)
  obtain idx s1 where i: "gen_intN g s charsetLen = (idx, s1)" by fastforce
  have "0 < charsetLen" by (simp add: charsetLen_def charset_def)
  then have "idx < length charset" using Suc.prems i unfolding generator_ok_def charsetLen_def by (metis fst_conv)
  moreover obtain cs s2 where "random_chars g n s1 = Inr (cs, s2)" "length cs = n" "set cs \<subseteq> set charset"
    using Suc by blast
  ultimately show ?case using i by simp
qed simp

text \<open>  \<open>RandAlphaNumString\<close> fails exactly on lengths that are not positive, never panics, and returns a
  string of the length asked for with characters of the character set only.
\<close>

theorem RandAlphaNumString_ok:
  assumes "generator_ok g"
  shows "\<exists>r. RandAlphaNumString g s len = Inr r \<and> (r = None \<longleftrightarrow> len \<le> 0)
     \<and> (\<forall>str s'. r = Some (str, s') \<longrightarrow> int (length str) = len \<and> set str \<subseteq> set charset)"
  using random_chars_ok [OF assms, of "nat len" s] by (auto simp: RandAlphaNumString_def)

theorem RandAlphaNumString_ok_witness:
  "\<exists>r. RandAlphaNumString \<lparr>Uint64 = (\<lambda>s. (0, s)), gen_intN = (\<lambda>s n. (n - 1, s))\<rparr> () 3 = Inr r \<and> r \<noteq> None"
  using RandAlphaNumString_ok [of "\<lparr>Uint64 = (\<lambda>s. (0, s)), gen_intN = (\<lambda>s n. (n - 1, s))\<rparr>" "()" 3]
  by (auto simp: generator_ok_def)

end
