(* ===== verification/Security_Model.thy ===== *)
theory Security_Model
  imports Prelude
begin

text \<open>
  The wrappers of the cryptographic packages: AES-GCM (\<open>security/aes/aes.go\<close>), RSA
  (\<open>security/rsa/rsa.go\<close>) and Curve25519 (\<open>security/ecdh/curve25519.go\<close>). The primitives are
  parameters: functions with the laws that their documentation promises as named hypotheses.
  Byte slices are lists of \<open>8 word\<close>; a result \<open>(ret, err)\<close> is a pair.
\<close>

type_synonym bytes = "8 word list"

section \<open>AES-GCM\<close>

datatype aes_error =
    InvalidKeySize
  | CipherFailed
  | GCMFailed
  | DataEmpty
  | NonceFailed
  | TooShort
  | OpenFailed

text \<open>An AEAD: nonce size, \<open>Seal\<close> (nonce, plaintext) without its prefix, \<open>Open\<close> (nonce, ciphertext).\<close>

record aead =
  NonceSize :: nat
  seal :: "bytes \<Rightarrow> bytes \<Rightarrow> bytes"
  unseal :: "bytes \<Rightarrow> bytes \<Rightarrow> bytes option"

record aes_cipher =
  key :: bytes
  block :: aead

text \<open>\<open>newCipher\<close> stands for \<open>aes.NewCipher\<close> and \<open>newGCM\<close> for \<open>cipher.NewGCM\<close>.\<close>

definition NewAESCipher ::
    "(bytes \<Rightarrow> 'b option) \<Rightarrow> ('b \<Rightarrow> aead option) \<Rightarrow> bytes \<Rightarrow> aes_error + aes_cipher" where
  "NewAESCipher newCipher newGCM k =
     (if length k \<noteq> 16 \<and> length k \<noteq> 24 \<and> length k \<noteq> 32 then Inl InvalidKeySize
      else case newCipher k of
          None \<Rightarrow> Inl CipherFailed
        | Some b \<Rightarrow> (case newGCM b of
            None \<Rightarrow> Inl GCMFailed
          | Some a \<Rightarrow> Inr \<lparr>key = k, block = a\<rparr>))"

text \<open>\<open>entropy\<close> is what \<open>rand.Reader\<close> gives for the nonce, \<open>None\<close> when reading it fails.\<close>

definition Encrypt :: "bytes option \<Rightarrow> aes_cipher \<Rightarrow> bytes \<Rightarrow> bytes \<times> aes_error option" where
  "Encrypt entropy c data =
     (if data = [] then ([], Some DataEmpty)
      else case entropy of
          None \<Rightarrow> ([], Some NonceFailed)
        | Some nonce \<Rightarrow> (nonce @ seal (block c) nonce data, None))"

definition EncryptAllowEmpty :: "bytes option \<Rightarrow> aes_cipher \<Rightarrow> bytes \<Rightarrow> bytes \<times> aes_error option" where
  "EncryptAllowEmpty entropy c data = (if data = [] then (data, None) else Encrypt entropy c data)"

definition Decrypt :: "aes_cipher \<Rightarrow> bytes \<Rightarrow> bytes \<times> aes_error option" where
  "Decrypt c data =
     (if data = [] then ([], Some DataEmpty)
      else if length data < NonceSize (block c) then (data, Some TooShort)
      else let nonce = take (NonceSize (block c)) data
        in case unseal (block c) nonce (drop (NonceSize (block c)) data) of
            None \<Rightarrow> ([], Some OpenFailed)
          | Some plaintext \<Rightarrow> (plaintext, None))"

definition DecryptAllowEmpty :: "aes_cipher \<Rightarrow> bytes \<Rightarrow> bytes \<times> aes_error option" where
  "DecryptAllowEmpty c data = (if data = [] then (data, None) else Decrypt c data)"

text \<open>
  Authenticated encryption: opening what was sealed with the nonce gives the plaintext, and
  nothing else opens under that nonce. (\<open>seal\<close> is a function of its arguments in GCM.)
\<close>

definition aead_ok :: "aead \<Rightarrow> bool" where
  "aead_ok a \<longleftrightarrow> (\<forall>n p q. unseal a n q = Some p \<longleftrightarrow> q = seal a n p) \<and> 0 < NonceSize a"

lemma Decrypt_sealed:
  "aead_ok (block c) \<Longrightarrow> length n = NonceSize (block c) \<Longrightarrow> Decrypt c (n @ seal (block c) n p) = (p, None)"
proof -
  assume ok: "aead_ok (block c)" and n: "length n = NonceSize (block c)"
  have "unseal (block c) n (seal (block c) n p) = Some p" using ok by (simp add: aead_ok_def)
  moreover have "n \<noteq> []" using ok n by (auto simp: aead_ok_def)
  ultimately show ?thesis using n by (simp add: Decrypt_def)
qed

text \<open>C40: AES-GCM round trip and authenticity of the wrapper: with a nonce of the right size, what
  \<open>EncryptAllowEmpty\<close> makes of any data, empty or not, \<open>DecryptAllowEmpty\<close> turns back; and \<open>Decrypt\<close>
  succeeds only on a nonce followed by the sealed plaintext under it, so any other input is an
  error.
\<close>

theorem aes_roundtrip_and_authenticity:
  assumes "aead_ok (block c)" and "length nonce = NonceSize (block c)"
  shows "DecryptAllowEmpty c (fst (EncryptAllowEmpty (Some nonce) c data)) = (data, None)
       \<and> snd (EncryptAllowEmpty (Some nonce) c data) = None
       \<and> (\<forall>q p. Decrypt c q = (p, None) \<longleftrightarrow>
             (\<exists>n. length n = NonceSize (block c) \<and> q = n @ seal (block c) n p))"
proof -
  have len: "0 < length nonce" using assms by (simp add: aead_ok_def)
  have "DecryptAllowEmpty c (fst (EncryptAllowEmpty (Some nonce) c data)) = (data, None)"
    using assms len by (auto simp: EncryptAllowEmpty_def DecryptAllowEmpty_def Encrypt_def Decrypt_sealed)
  moreover have "\<exists>n. length n = NonceSize (block c) \<and> q = n @ seal (block c) n p"
    if "Decrypt c q = (p, None)" for q p
  proof -
    let ?k = "NonceSize (block c)"
    have "\<not> length q < ?k" and u: "unseal (block c) (take ?k q) (drop ?k q) = Some p"
      using that by (auto simp: Decrypt_def Let_def split: if_splits option.splits)
    moreover have "drop ?k q = seal (block c) (take ?k q) p"
      using u assms(1) by (simp add: aead_ok_def)
    ultimately show ?thesis
      by (intro exI [of _ "take ?k q"]) (metis append_take_drop_id length_take min.absorb2 not_less)
  qed
  ultimately show ?thesis using Decrypt_sealed [OF assms(1)]
    by (auto simp: EncryptAllowEmpty_def Encrypt_def)
qed

text \<open>A toy AEAD: the tag is the nonce.\<close>

definition toy_aead :: aead where
  "toy_aead = \<lparr>NonceSize = 2, seal = (\<lambda>n p. p @ n),
     unseal = (\<lambda>n q. if drop (length q - length n) q = n \<and> length n \<le> length q
                      then Some (take (length q - length n) q) else None)\<rparr>"

lemma toy_aead_ok: "aead_ok toy_aead"
proof -
  have "q = p @ n" if "drop (length q - length n) q = n" "length n \<le> length q" "take (length q - length n) q = p"
    for q p n :: bytes
    using that by (metis append_take_drop_id)
  then show ?thesis by (auto simp: aead_ok_def toy_aead_def split: if_splits)
qed

theorem aes_roundtrip_and_authenticity_witness:
  "DecryptAllowEmpty \<lparr>key = [], block = toy_aead\<rparr>
     (fst (EncryptAllowEmpty (Some [7, 9]) \<lparr>key = [], block = toy_aead\<rparr> [1, 2, 3])) = ([1, 2, 3], None)"
  using aes_roundtrip_and_authenticity [of "\<lparr>key = [], block = toy_aead\<rparr>" "[7, 9]" "[1, 2, 3]"] toy_aead_ok
  by (simp add: toy_aead_def)

section \<open>RSA\<close>

datatype rsa_error =
    NilPublicKey
  | NilPrivateKey
  | RSAEncryptFailed
  | RSADecryptFailed
  | ParseKeyFailed
  | NotRSAKey

text \<open>A key that \<open>crypto/x509\<close> parsed is of the type the caller wants (RSA here) or of another.\<close>

datatype 'k parsed_key = WantedKey 'k | OtherKey

definition RsaEncrypt :: "('p \<Rightarrow> bytes \<Rightarrow> bytes option) \<Rightarrow> 'p option \<Rightarrow> bytes \<Rightarrow> rsa_error + bytes" where
  "RsaEncrypt pkcs1v15 pubKey plaintext = (case pubKey of
     None \<Rightarrow> Inl NilPublicKey
   | Some k \<Rightarrow> (case pkcs1v15 k plaintext of None \<Rightarrow> Inl RSAEncryptFailed | Some x \<Rightarrow> Inr x))"

definition RsaDecrypt :: "('s \<Rightarrow> bytes \<Rightarrow> bytes option) \<Rightarrow> 's option \<Rightarrow> bytes \<Rightarrow> rsa_error + bytes" where
  "RsaDecrypt pkcs1v15 privKey ciphertext = (case privKey of
     None \<Rightarrow> Inl NilPrivateKey
   | Some k \<Rightarrow> (case pkcs1v15 k ciphertext of None \<Rightarrow> Inl RSADecryptFailed | Some x \<Rightarrow> Inr x))"

definition ParsePublicKey :: "(bytes \<Rightarrow> 'p parsed_key option) \<Rightarrow> bytes \<Rightarrow> rsa_error + 'p" where
  "ParsePublicKey parsePKIX derBytes = (case parsePKIX derBytes of
     None \<Rightarrow> Inl ParseKeyFailed
   | Some (WantedKey k) \<Rightarrow> Inr k
   | Some OtherKey \<Rightarrow> Inl NotRSAKey)"

definition ParsePrivateKey ::
    "(bytes \<Rightarrow> 's option) \<Rightarrow> (bytes \<Rightarrow> 's parsed_key option) \<Rightarrow> bytes \<Rightarrow> rsa_error + 's" where
  "ParsePrivateKey parsePKCS1 parsePKCS8 derBytes = (case parsePKCS1 derBytes of
     Some priv \<Rightarrow> Inr priv
   | None \<Rightarrow> (case parsePKCS8 derBytes of
       None \<Rightarrow> Inl ParseKeyFailed
     | Some (WantedKey k) \<Rightarrow> Inr k
     | Some OtherKey \<Rightarrow> Inl NotRSAKey))"

lemma RsaDecrypt_RsaEncrypt:
  assumes "\<And>m c. enc pub m = Some c \<Longrightarrow> dec priv c = Some m" and "RsaEncrypt enc (Some pub) m = Inr c"
  shows "RsaDecrypt dec (Some priv) c = Inr m"
  using assms by (auto simp: RsaEncrypt_def RsaDecrypt_def split: option.splits)

section \<open>Curve25519\<close>

text \<open>
  The primitives are parameters: \<open>base\<close> for \<open>ScalarBaseMult\<close> and \<open>x25519\<close>, which fails on a point
  of low order. Keys are byte lists of length 32.
\<close>

datatype ecdh_error = RandFailed | InvalidKeyLength | SharedKeyFailed

definition GenKeyPair :: "(bytes \<Rightarrow> bytes) \<Rightarrow> bytes option \<Rightarrow> ecdh_error + bytes \<times> bytes" where
  "GenKeyPair base entropy = (case entropy of None \<Rightarrow> Inl RandFailed | Some pri \<Rightarrow> Inr (pri, base pri))"

definition KeyToBytes :: "bytes \<Rightarrow> bytes" where
  "KeyToBytes k = k"

definition ParseKey :: "bytes \<Rightarrow> ecdh_error + bytes" where
  "ParseKey b = (if length b \<noteq> 32 then Inl InvalidKeyLength else Inr b)"

definition ComputeSharedKey :: "(bytes \<Rightarrow> bytes \<Rightarrow> bytes option) \<Rightarrow> bytes \<Rightarrow> bytes \<Rightarrow> ecdh_error + bytes" where
  "ComputeSharedKey x25519 pri pub = (case x25519 pri pub of None \<Rightarrow> Inl SharedKeyFailed | Some secret \<Rightarrow> Inr secret)"

definition ComputePubKey :: "(bytes \<Rightarrow> bytes) \<Rightarrow> bytes \<Rightarrow> bytes" where
  "ComputePubKey base pri = base pri"

text \<open>Both sides of an exchange over the wire compute the same secret, or both fail.\<close>

lemma shared_key_agrees:
  assumes "\<And>a b. x25519 a (base b) = x25519 b (base a)" and "\<And>p. length (base p) = 32"
    and "GenKeyPair base ra = Inr (a, pa)" and "GenKeyPair base rb = Inr (b, pb)"
  shows "\<exists>ka kb. ParseKey (KeyToBytes pa) = Inr ka \<and> ParseKey (KeyToBytes pb) = Inr kb
       \<and> ComputeSharedKey x25519 a kb = ComputeSharedKey x25519 b ka"
  using assms by (auto simp: GenKeyPair_def ParseKey_def KeyToBytes_def ComputeSharedKey_def split: option.splits)

end
