(* ===== verification/Certificate_Model.thy ===== *)
theory Certificate_Model
  imports Security_Model Go_Strings
begin

text \<open>
  Ed25519 keys, signatures and self-signed certificates (\<open>security/certificate/ed25519.go\<close>). The
  signature scheme, \<open>crypto/x509\<close> and \<open>encoding/pem\<close> are parameters; times are nanoseconds.
\<close>

section \<open>Signatures\<close>

definition PrivateKeySize :: nat where "PrivateKeySize = 64"
definition PublicKeySize :: nat where "PublicKeySize = 32"
definition SignatureSize :: nat where "SignatureSize = 64"

record KeyPair =
  Pri :: bytes
  Pub :: bytes

record SignResult =
  Sig :: bytes
  Msg :: bytes
  SigPub :: bytes

datatype cert_error =
    KeyGenFailed
  | CreateFailed
  | ParseFailed
  | InvalidPrivateKeySize
  | InvalidPublicKeySize
  | KeyMismatch
  | NotYetValid
  | Expired
  | MarshalFailed
  | NoPEMBlock
  | NotEd25519

text \<open>The scheme: signing, the public key of a private key, verification.\<close>

record scheme =
  sch_sign :: "bytes \<Rightarrow> bytes \<Rightarrow> bytes"
  sch_public :: "bytes \<Rightarrow> bytes"
  sch_verify :: "bytes \<Rightarrow> bytes \<Rightarrow> bytes \<Rightarrow> bool"

definition cert_GenKeyPair :: "scheme \<Rightarrow> bytes option \<Rightarrow> cert_error + KeyPair" where
  "cert_GenKeyPair sch gen = (case gen of
     None \<Rightarrow> Inl KeyGenFailed
   | Some pri \<Rightarrow> Inr \<lparr>Pri = pri, Pub = sch_public sch pri\<rparr>)"

definition Sign :: "scheme \<Rightarrow> bytes \<Rightarrow> bytes \<Rightarrow> cert_error + SignResult" where
  "Sign sch pri msg =
     (if length pri \<noteq> PrivateKeySize then Inl InvalidPrivateKeySize
      else Inr \<lparr>Sig = sch_sign sch pri msg, Msg = msg, SigPub = sch_public sch pri\<rparr>)"

definition Verify :: "scheme \<Rightarrow> bytes \<Rightarrow> bytes \<Rightarrow> bytes \<Rightarrow> bool" where
  "Verify sch pub msg sign =
     (if length pub \<noteq> PublicKeySize then False
      else if length sign \<noteq> SignatureSize then False
      else sch_verify sch pub msg sign)"

text \<open>The variants for messages that are strings.\<close>

definition SignMessage :: "scheme \<Rightarrow> bytes \<Rightarrow> string \<Rightarrow> cert_error + SignResult" where
  "SignMessage sch pri msg = Sign sch pri (to_bytes msg)"

definition VerifyMessage :: "scheme \<Rightarrow> bytes \<Rightarrow> string \<Rightarrow> bytes \<Rightarrow> bool" where
  "VerifyMessage sch pub msg sign = Verify sch pub (to_bytes msg) sign"

definition VerifySignResult :: "scheme \<Rightarrow> SignResult \<Rightarrow> bool" where
  "VerifySignResult sch r = Verify sch (SigPub r) (Msg r) (Sig r)"

text \<open>The comparison loop of \<open>ValidateKeyPair\<close>, which may run off the end of \<open>pub\<close>.\<close>

fun bytes_match :: "bytes \<Rightarrow> bytes \<Rightarrow> nat \<Rightarrow> bool go" where
  "bytes_match [] pub i = Inr True"
| "bytes_match (b # bs) pub i =
     bindR (slice_get pub (int i)) (\<lambda>x. if b \<noteq> x then Inr False else bytes_match bs pub (i + 1))"

definition ValidateKeyPair :: "scheme \<Rightarrow> KeyPair \<Rightarrow> cert_error option go" where
  "ValidateKeyPair sch pair =
     (if length (Pri pair) \<noteq> PrivateKeySize then Inr (Some InvalidPrivateKeySize)
      else if length (Pub pair) \<noteq> PublicKeySize then Inr (Some InvalidPublicKeySize)
      else bindR (bytes_match (Pub pair) (sch_public sch (Pri pair)) 0)
             (\<lambda>ok. Inr (if ok then None else Some KeyMismatch)))"

text \<open>
  What the documentation of \<open>crypto/ed25519\<close> promises: keys and signatures have their sizes, and
  what a private key signs verifies under its public key.
\<close>

definition scheme_ok :: "scheme \<Rightarrow> bool" where
  "scheme_ok sch \<longleftrightarrow> (\<forall>pri. length pri = PrivateKeySize \<longrightarrow> length (sch_public sch pri) = PublicKeySize
     \<and> (\<forall>msg. length (sch_sign sch pri msg) = SignatureSize
           \<and> sch_verify sch (sch_public sch pri) msg (sch_sign sch pri msg)))"

lemma bytes_match_eq:
  "length bs + i = length pub \<Longrightarrow> bytes_match bs pub i = Inr (bs = drop i pub)"
proof (induction bs arbitrary: i)
  case (Cons b bs)
  then have i: "i < length pub" by simp
  with Cons show ?case by (auto simp: Cons_nth_drop_Suc [symmetric])
qed simp

text \<open>Signing and checking keys. \<open>Sign\<close> fails exactly on private keys of the wrong size; the result of a
  signature verifies, and so does the pair that the key generation makes. \<open>ValidateKeyPair\<close> never
  panics, and accepts a pair exactly when both sizes are right and the public key is that of the
  private one.
\<close>

theorem Sign_Verify_and_ValidateKeyPair:
  assumes "scheme_ok sch"
  shows "(\<forall>pri msg. (\<exists>r. Sign sch pri msg = Inr r) \<longleftrightarrow> length pri = PrivateKeySize)
       \<and> (\<forall>pri msg r. Sign sch pri msg = Inr r \<longrightarrow> VerifySignResult sch r \<and> Msg r = msg)
       \<and> (\<forall>pair. \<exists>e. ValidateKeyPair sch pair = Inr e \<and>
            (e = None \<longleftrightarrow> length (Pri pair) = PrivateKeySize \<and> length (Pub pair) = PublicKeySize
                        \<and> Pub pair = sch_public sch (Pri pair)))"
proof -
  have pub: "length (sch_public sch p) = PublicKeySize" if "length p = PrivateKeySize" for p
    using assms that by (simp add: scheme_ok_def)
  have "\<exists>e. ValidateKeyPair sch pair = Inr e \<and>
            (e = None \<longleftrightarrow> length (Pri pair) = PrivateKeySize \<and> length (Pub pair) = PublicKeySize
                        \<and> Pub pair = sch_public sch (Pri pair))" for pair
    using bytes_match_eq [of "Pub pair" 0 "sch_public sch (Pri pair)"] pub [of "Pri pair"]
    by (simp add: ValidateKeyPair_def)
  then show ?thesis
    using assms by (auto simp: Sign_def VerifySignResult_def Verify_def scheme_ok_def)
qed

definition toy_scheme :: scheme where
  "toy_scheme = \<lparr>sch_sign = (\<lambda>k m. k), sch_public = (\<lambda>k. take 32 k), sch_verify = (\<lambda>p m s. take 32 s = p)\<rparr>"

lemma toy_scheme_ok: "scheme_ok toy_scheme"
  by (simp add: scheme_ok_def toy_scheme_def PrivateKeySize_def PublicKeySize_def SignatureSize_def)

theorem Sign_Verify_and_ValidateKeyPair_witness:
  "\<exists>r. Sign toy_scheme (replicate 64 5) [1] = Inr r \<and> VerifySignResult toy_scheme r"
proof -
  note props = Sign_Verify_and_ValidateKeyPair [OF toy_scheme_ok]
  have "length (replicate 64 (5 :: 8 word)) = PrivateKeySize" by (simp add: PrivateKeySize_def)
  with props obtain r where "Sign toy_scheme (replicate 64 5) [1] = Inr r" by blast
  with props show ?thesis by blast
qed

section \<open>Certificates\<close>

text \<open>
  The fields of \<open>x509.Certificate\<close> that \<open>CreateSelfSignedCert\<close> fills in, and those that it reads from a parsed
  certificate besides. A name (\<open>pkix.Name\<close>) is of a type \<open>'n\<close>.
\<close>

datatype ext_usage = ExtKeyUsageServerAuth | OtherExtKeyUsage int

record 'n template =
  SerialNumber :: int
  Subject :: 'n
  NotBefore :: int
  NotAfter :: int
  KeyUsage :: "32 word"
  ExtKeyUsage :: "ext_usage list"
  BasicConstraintsValid :: bool
  IsCA :: bool

record 'n cert = "'n template" +
  Issuer :: 'n
  PublicKey :: "bytes parsed_key"

definition KeyUsageDigitalSignature :: "32 word" where "KeyUsageDigitalSignature = push_bit 0 1"
definition KeyUsageKeyEncipherment :: "32 word" where "KeyUsageKeyEncipherment = push_bit 2 1"

definition hour :: int where "hour = 3600 * 10 ^ 9"

text \<open>\<open>time.Duration(validDays) * 24 * time.Hour\<close>, products of \<open>int64\<close> that wrap around.\<close>

definition validity :: "int \<Rightarrow> int" where
  "validity validDays = wrap64 (wrap64 (validDays * 24) * hour)"

text \<open>
  \<open>CreateSelfSignedCert\<close>; the clock is read at \<open>t1\<close> and then at \<open>t2\<close>. \<open>create\<close> and \<open>parse\<close> stand for
  \<open>x509.CreateCertificate\<close> (template, parent, public key, private key) and \<open>x509.ParseCertificate\<close>, \<open>pemEncode\<close> for
  \<open>pem.EncodeToMemory\<close>.
\<close>

record 'n Cert =
  CertKeys :: KeyPair
  CertPEM :: bytes
  CertDER :: bytes
  X509Cert :: "'n cert"

type_synonym 'n x509_create = "'n template \<Rightarrow> 'n template \<Rightarrow> bytes \<Rightarrow> bytes \<Rightarrow> bytes option"

definition cert_template :: "'n \<Rightarrow> int \<Rightarrow> int \<Rightarrow> int \<Rightarrow> 'n template" where
  "cert_template subject t1 t2 validDays =
     \<lparr>SerialNumber = 1, Subject = subject, NotBefore = t1, NotAfter = t2 + validity validDays,
      KeyUsage = or KeyUsageKeyEncipherment KeyUsageDigitalSignature, ExtKeyUsage = [ExtKeyUsageServerAuth],
      BasicConstraintsValid = True, IsCA = False\<rparr>"

definition CreateSelfSignedCert ::
    "scheme \<Rightarrow> 'n x509_create \<Rightarrow> (bytes \<Rightarrow> 'n cert option) \<Rightarrow> (string \<Rightarrow> bytes \<Rightarrow> bytes)
     \<Rightarrow> bytes option \<Rightarrow> int \<Rightarrow> int \<Rightarrow> 'n \<Rightarrow> int \<Rightarrow> cert_error + 'n Cert" where
  "CreateSelfSignedCert sch create parse pemEncode gen t1 t2 subject validDays =
     (case cert_GenKeyPair sch gen of
        Inl e \<Rightarrow> Inl e
      | Inr pair \<Rightarrow>
          (let tmpl = cert_template subject t1 t2 validDays
           in case create tmpl tmpl (Pub pair) (Pri pair) of
                None \<Rightarrow> Inl CreateFailed
              | Some der \<Rightarrow> (case parse der of
                  None \<Rightarrow> Inl ParseFailed
                | Some c \<Rightarrow> Inr \<lparr>CertKeys = pair, CertPEM = pemEncode ''CERTIFICATE'' der, CertDER = der, X509Cert = c\<rparr>)))"

definition VerifyCert :: "int \<Rightarrow> 'n cert \<Rightarrow> cert_error option" where
  "VerifyCert now c =
     (if now < NotBefore c then Some NotYetValid
      else if NotAfter c < now then Some Expired
      else None)"

section \<open>PEM\<close>

text \<open>
  The keys that \<open>crypto/x509\<close> parses are Ed25519 keys (\<open>WantedKey\<close>) or others; \<open>pemDecode\<close> gives the bytes of the first block.
\<close>

definition ExportToPEM :: "(bytes \<Rightarrow> bytes option) \<Rightarrow> (string \<Rightarrow> bytes \<Rightarrow> bytes) \<Rightarrow> string \<Rightarrow> bytes \<Rightarrow> cert_error + bytes" where
  "ExportToPEM marshal pemEncode ty k = (case marshal k of
     None \<Rightarrow> Inl MarshalFailed
   | Some der \<Rightarrow> Inr (pemEncode ty der))"

definition ExportPriToPEM :: "(bytes \<Rightarrow> bytes option) \<Rightarrow> (string \<Rightarrow> bytes \<Rightarrow> bytes) \<Rightarrow> bytes \<Rightarrow> cert_error + bytes" where
  "ExportPriToPEM marshalPKCS8 pemEncode pri = ExportToPEM marshalPKCS8 pemEncode ''PRIVATE KEY'' pri"

definition ExportPubToPEM :: "(bytes \<Rightarrow> bytes option) \<Rightarrow> (string \<Rightarrow> bytes \<Rightarrow> bytes) \<Rightarrow> bytes \<Rightarrow> cert_error + bytes" where
  "ExportPubToPEM marshalPKIX pemEncode pub = ExportToPEM marshalPKIX pemEncode ''PUBLIC KEY'' pub"

definition ImportPriFromPEM :: "(bytes \<Rightarrow> bytes option) \<Rightarrow> (bytes \<Rightarrow> bytes parsed_key option) \<Rightarrow> bytes \<Rightarrow> cert_error + bytes" where
  "ImportPriFromPEM pemDecode parsePKCS8 pemData = (case pemDecode pemData of
     None \<Rightarrow> Inl NoPEMBlock
   | Some der \<Rightarrow> (case parsePKCS8 der of
       None \<Rightarrow> Inl ParseFailed
     | Some (WantedKey k) \<Rightarrow> Inr k
     | Some OtherKey \<Rightarrow> Inl NotEd25519))"

definition ImportPubFromPEM :: "(bytes \<Rightarrow> bytes option) \<Rightarrow> (bytes \<Rightarrow> bytes parsed_key option) \<Rightarrow> bytes \<Rightarrow> cert_error + bytes" where
  "ImportPubFromPEM pemDecode parsePKIX pemData = (case pemDecode pemData of
     None \<Rightarrow> Inl NoPEMBlock
   | Some der \<Rightarrow> (case parsePKIX der of
       None \<Rightarrow> Inl ParseFailed
     | Some (WantedKey k) \<Rightarrow> Inr k
     | Some OtherKey \<Rightarrow> Inl NotEd25519))"

definition ImportCertFromPEM :: "(bytes \<Rightarrow> bytes option) \<Rightarrow> (bytes \<Rightarrow> 'n cert option) \<Rightarrow> bytes \<Rightarrow> cert_error + 'n cert" where
  "ImportCertFromPEM pemDecode parse pemData = (case pemDecode pemData of
     None \<Rightarrow> Inl NoPEMBlock
   | Some der \<Rightarrow> (case parse der of None \<Rightarrow> Inl ParseFailed | Some c \<Rightarrow> Inr c))"

definition ExportPubFromCert :: "'n cert \<Rightarrow> cert_error + bytes" where
  "ExportPubFromCert c = (case PublicKey c of WantedKey k \<Rightarrow> Inr k | OtherKey \<Rightarrow> Inl NotEd25519)"

lemma ImportPri_ExportPri:
  assumes "\<And>ty d. pemDecode (pemEncode ty d) = Some d"
    and "\<And>k d. marshal k = Some d \<Longrightarrow> parse d = Some (WantedKey k)"
    and "ExportPriToPEM marshal pemEncode pri = Inr p"
  shows "ImportPriFromPEM pemDecode parse p = Inr pri"
  using assms by (auto simp: ExportPriToPEM_def ExportToPEM_def ImportPriFromPEM_def split: option.splits)

lemma ImportPub_ExportPub:
  assumes "\<And>ty d. pemDecode (pemEncode ty d) = Some d"
    and "\<And>k d. marshal k = Some d \<Longrightarrow> parse d = Some (WantedKey k)"
    and "ExportPubToPEM marshal pemEncode pub = Inr p"
  shows "ImportPubFromPEM pemDecode parse p = Inr pub"
  using assms by (auto simp: ExportPubToPEM_def ExportToPEM_def ImportPubFromPEM_def split: option.splits)

section \<open>The validity of a certificate\<close>

text \<open>The greatest number of days whose nanoseconds fit in an \<open>int64\<close>.\<close>

definition max_valid_days :: int where "max_valid_days = 106751"

lemma validity_in_range: "0 \<le> d \<Longrightarrow> d \<le> max_valid_days \<Longrightarrow> validity d = d * 24 * hour"
  by (simp add: validity_def hour_def max_valid_days_def wrap64_id is_i64_def)

text \<open>The encoding of a certificate has times in whole seconds.\<close>

definition seconds :: "int \<Rightarrow> int" where
  "seconds t = t - t mod 10 ^ 9"

text \<open>
  The documented behaviour of the two functions on the templates of \<open>CreateSelfSignedCert\<close>: a certificate that was
  created for a key of the right size parses to one with the times in whole seconds, the serial number and the
  public key that it was created with. \<open>canon\<close> is what encoding and parsing make of a name: DER sorts the values
  that a part of a name has more than one of, so the name that is parsed need not be the one that was given.
\<close>

definition x509_ok :: "('n \<Rightarrow> 'n) \<Rightarrow> 'n x509_create \<Rightarrow> (bytes \<Rightarrow> 'n cert option) \<Rightarrow> bool" where
  "x509_ok canon create parse \<longleftrightarrow> (\<forall>subject t1 t2 days pub pri der.
     length pub = PublicKeySize \<longrightarrow>
     create (cert_template subject t1 t2 days) (cert_template subject t1 t2 days) pub pri = Some der \<longrightarrow>
     (\<exists>c. parse der = Some c \<and> NotBefore c = seconds t1 \<and> NotAfter c = seconds (t2 + validity days)
        \<and> SerialNumber c = 1 \<and> Subject c = canon subject \<and> Issuer c = canon subject \<and> PublicKey c = WantedKey pub))"

lemma seconds_mono: "a \<le> b \<Longrightarrow> seconds a \<le> seconds b"
  by (simp add: seconds_def minus_mod_eq_div_mult zdiv_mono1)

lemma CreateSelfSignedCert_parts:
  assumes "CreateSelfSignedCert sch create parse pemEncode gen t1 t2 subject days = Inr c" and "x509_ok canon create parse"
    and "\<And>pri. gen = Some pri \<Longrightarrow> length (sch_public sch pri) = PublicKeySize"
  obtains pri where "gen = Some pri" "CertKeys c = \<lparr>Pri = pri, Pub = sch_public sch pri\<rparr>"
    "NotBefore (X509Cert c) = seconds t1" "NotAfter (X509Cert c) = seconds (t2 + validity days)"
    "Subject (X509Cert c) = canon subject" "Issuer (X509Cert c) = canon subject" "SerialNumber (X509Cert c) = 1"
    "PublicKey (X509Cert c) = WantedKey (sch_public sch pri)"
    "CertPEM c = pemEncode ''CERTIFICATE'' (CertDER c)" "parse (CertDER c) = Some (X509Cert c)"
proof -
  let ?t = "cert_template subject t1 t2 days"
  from assms(1) obtain pri der x where g: "gen = Some pri"
    and d: "create ?t ?t (sch_public sch pri) pri = Some der" and x: "parse der = Some x"
    and c: "c = \<lparr>CertKeys = \<lparr>Pri = pri, Pub = sch_public sch pri\<rparr>, CertPEM = pemEncode ''CERTIFICATE'' der,
      CertDER = der, X509Cert = x\<rparr>"
    by (auto simp: CreateSelfSignedCert_def cert_GenKeyPair_def Let_def split: option.splits)
  have "NotBefore x = seconds t1 \<and> NotAfter x = seconds (t2 + validity days) \<and> SerialNumber x = 1
      \<and> Subject x = canon subject \<and> Issuer x = canon subject \<and> PublicKey x = WantedKey (sch_public sch pri)"
    using assms(2) assms(3) [OF g] d x unfolding x509_ok_def by fastforce
  then show ?thesis using x by (intro that [OF g]) (simp_all add: c)
qed

text \<open>The life of a self-signed certificate. The certificate that \<open>CreateSelfSignedCert\<close> makes for 1 to
  106751 days carries the public key of the pair and verifies from (the second of) its creation to
  the end of the last day, and not before or after; for more days (up to twice that many) the
  product of the durations wraps around to a negative one, and the certificate is rejected at
  every time.
\<close>

theorem self_signed_cert_validity:
  assumes "CreateSelfSignedCert sch create parse pemEncode gen t1 t2 subject days = Inr c"
    and "x509_ok canon create parse" and "scheme_ok sch" and "\<And>pri. gen = Some pri \<Longrightarrow> length pri = PrivateKeySize"
    and "t1 \<le> t2" and "t2 - t1 < 10 ^ 9" and "0 < days" and "days \<le> 2 * max_valid_days"
  shows "ExportPubFromCert (X509Cert c) = Inr (Pub (CertKeys c))
       \<and> Issuer (X509Cert c) = Subject (X509Cert c) \<and> Subject (X509Cert c) = canon subject
       \<and> (days \<le> max_valid_days \<longrightarrow>
            (VerifyCert now (X509Cert c) = None \<longleftrightarrow> seconds t1 \<le> now \<and> now \<le> seconds (t2 + days * 24 * hour)))
       \<and> (max_valid_days < days \<longrightarrow> VerifyCert now (X509Cert c) \<noteq> None)"
proof -
  have key: "length (sch_public sch pri) = PublicKeySize" if "gen = Some pri" for pri
    using assms(3) assms(4) [OF that] by (simp add: scheme_ok_def)
  from CreateSelfSignedCert_parts [OF assms(1,2) key] obtain pri where k: "CertKeys c = \<lparr>Pri = pri, Pub = sch_public sch pri\<rparr>"
    and x: "NotBefore (X509Cert c) = seconds t1" "NotAfter (X509Cert c) = seconds (t2 + validity days)"
      "Subject (X509Cert c) = canon subject" "Issuer (X509Cert c) = canon subject" "PublicKey (X509Cert c) = WantedKey (sch_public sch pri)"
    by blast
  have "seconds (t2 + validity days) < seconds t1" if "max_valid_days < days"
  proof -
    have "wrap64 (days * 24) = days * 24"
      by (rule wrap64_id) (use assms(7,8) in \<open>simp add: is_i64_def max_valid_days_def\<close>)
    moreover have "wrap64 (days * 24 * hour) = days * 24 * hour - 2 ^ 64"
      by (rule wrap64_over) (use assms(8) that in \<open>simp_all add: hour_def max_valid_days_def\<close>)
    ultimately have "validity days = days * 24 * hour - 2 ^ 64" by (simp add: validity_def)
    then have "t2 + validity days \<le> t1 - 10 ^ 9" using assms(6,8) by (simp add: hour_def max_valid_days_def)
    from seconds_mono [OF this] show ?thesis by (simp add: seconds_def)
  qed
  moreover have "validity days = days * 24 * hour" if "days \<le> max_valid_days"
    using validity_in_range that assms(7) by simp
  ultimately show ?thesis
    using x k by (auto simp: VerifyCert_def ExportPubFromCert_def)
qed

text \<open>An X.509 code for one template and one public key, which gives names back as \<open>canon\<close> says.\<close>

definition one_create :: "'n template \<Rightarrow> bytes \<Rightarrow> 'n x509_create" where
  "one_create t pub tmpl parent p pri = (if tmpl = t \<and> parent = t \<and> p = pub then Some [1] else None)"

definition one_parse :: "('n \<Rightarrow> 'n) \<Rightarrow> 'n template \<Rightarrow> bytes \<Rightarrow> bytes \<Rightarrow> 'n cert option" where
  "one_parse canon t pub der =
     Some (template.extend (t\<lparr>NotBefore := seconds (NotBefore t), NotAfter := seconds (NotAfter t), Subject := canon (Subject t)\<rparr>)
       (cert.fields (canon (Subject t)) (WantedKey pub)))"

lemma one_x509_ok: "x509_ok canon (one_create t pub) (one_parse canon t pub)"
  by (auto simp: x509_ok_def one_create_def one_parse_def template.defs cert.defs cert_template_def)

definition toy_cert_template :: "int \<Rightarrow> string template" where
  "toy_cert_template days = cert_template ''test'' 0 0 days"

lemma toy_cert_exists:
  "\<exists>c. CreateSelfSignedCert toy_scheme (one_create (toy_cert_template days) (replicate 32 5))
     (one_parse canon (toy_cert_template days) (replicate 32 5)) (\<lambda>ty d. d) (Some (replicate 64 5)) 0 0 ''test'' days = Inr c"
  by (simp add: CreateSelfSignedCert_def cert_GenKeyPair_def toy_scheme_def one_create_def one_parse_def toy_cert_template_def)

theorem self_signed_cert_validity_witness:
  "\<exists>c. CreateSelfSignedCert toy_scheme (one_create (toy_cert_template 106752) (replicate 32 5))
     (one_parse id (toy_cert_template 106752) (replicate 32 5)) (\<lambda>ty d. d) (Some (replicate 64 5)) 0 0 ''test'' 106752 = Inr c
     \<and> VerifyCert 1 (X509Cert c) \<noteq> None"
proof -
  obtain c where c: "CreateSelfSignedCert toy_scheme (one_create (toy_cert_template 106752) (replicate 32 5))
     (one_parse id (toy_cert_template 106752) (replicate 32 5)) (\<lambda>ty d. d) (Some (replicate 64 5)) 0 0 ''test'' 106752 = Inr c"
    using toy_cert_exists by blast
  from self_signed_cert_validity [OF this one_x509_ok toy_scheme_ok] c show ?thesis
    by (auto simp: max_valid_days_def PrivateKeySize_def)
qed

end
