(* ===== verification/Base64_Model.thy ===== *)
theory Base64_Model
  imports Certificate_Model
begin

text \<open>
  Base64 of \<open>security/certificate/ed25519.go\<close>: \<open>EncodeBase64\<close> and \<open>DecodeBase64\<close>, with \<open>StdEncoding\<close> of
  \<open>encoding/base64\<close> written out: groups of three bytes as four digits of six bits, padding with \<open>=\<close>, and
  a decoder that skips line breaks and does not look at the unused bits of the last digit.
\<close>

section \<open>The encoding\<close>

definition b64_alphabet :: string where
  "b64_alphabet = ''ABCDEFGHIJKLMNOPQRSTUVWXYZabcdefghijklmnopqrstuvwxyz0123456789+/''"

definition b64_char :: "nat \<Rightarrow> char" where
  "b64_char n = b64_alphabet ! (n mod 64)"

definition b64_digit :: "char \<Rightarrow> nat option" where
  "b64_digit c = (let i = length (takeWhile (\<lambda>x. x \<noteq> c) b64_alphabet) in if i < 64 then Some i else None)"

fun b64_encode :: "bytes \<Rightarrow> string" where
  "b64_encode [] = []"
| "b64_encode [a] = (let v = unat a * 65536 in
     [b64_char (v div 262144), b64_char (v div 4096), CHR ''='', CHR ''=''])"
| "b64_encode [a, b] = (let v = unat a * 65536 + unat b * 256 in
     [b64_char (v div 262144), b64_char (v div 4096), b64_char (v div 64), CHR ''=''])"
| "b64_encode (a # b # c # bs) = (let v = unat a * 65536 + unat b * 256 + unat c in
     [b64_char (v div 262144), b64_char (v div 4096), b64_char (v div 64), b64_char v] @ b64_encode bs)"

text \<open>The value of four digits, the bytes of a value.\<close>

definition b64_value :: "char \<Rightarrow> char \<Rightarrow> char \<Rightarrow> char \<Rightarrow> nat option" where
  "b64_value p q r s = (case (b64_digit p, b64_digit q, b64_digit r, b64_digit s) of
     (Some i, Some j, Some k, Some l) \<Rightarrow> Some (i * 262144 + j * 4096 + k * 64 + l)
   | _ \<Rightarrow> None)"

definition value_bytes :: "nat \<Rightarrow> bytes" where
  "value_bytes v = [of_nat (v div 65536), of_nat (v div 256), of_nat v]"

text \<open>The decoder, after the line breaks are gone. A padded group is the last.\<close>

fun b64_decode :: "string \<Rightarrow> bytes option" where
  "b64_decode [] = Some []"
| "b64_decode (p # q # r # s # cs) =
     (if r = CHR ''='' then
        (if s = CHR ''='' \<and> cs = [] then map_option (\<lambda>v. take 1 (value_bytes v)) (b64_value p q CHR ''A'' CHR ''A'') else None)
      else if s = CHR ''='' then
        (if cs = [] then map_option (\<lambda>v. take 2 (value_bytes v)) (b64_value p q r CHR ''A'') else None)
      else (case b64_value p q r s of
          None \<Rightarrow> None
        | Some v \<Rightarrow> map_option (\<lambda>bs. value_bytes v @ bs) (b64_decode cs)))"
| "b64_decode _ = None"

definition line_break :: "char \<Rightarrow> bool" where
  "line_break c \<longleftrightarrow> c = CHR 0x0A \<or> c = CHR 0x0D"

definition std_DecodeString :: "string \<Rightarrow> bytes option" where
  "std_DecodeString s = b64_decode (filter (\<lambda>c. \<not> line_break c) s)"

section \<open>The wrappers\<close>

definition EncodeBase64 :: "bytes \<Rightarrow> string" where
  "EncodeBase64 data = b64_encode data"

text \<open>The error is that of the decoder, wrapped; no bytes are returned with it.\<close>

datatype base64_error = CorruptInput

definition DecodeBase64 :: "string \<Rightarrow> base64_error + bytes" where
  "DecodeBase64 encoded = (case std_DecodeString encoded of None \<Rightarrow> Inl CorruptInput | Some ret \<Rightarrow> Inr ret)"

section \<open>Lemmas\<close>

lemma b64_digits: "\<forall>n \<in> set [0..<64]. b64_digit (b64_alphabet ! n) = Some n
    \<and> b64_alphabet ! n \<noteq> CHR ''='' \<and> \<not> line_break (b64_alphabet ! n)"
  by code_simp

lemma b64_digit_char [simp]: "b64_digit (b64_char n) = Some (n mod 64)"
  and b64_char_not_pad [simp]: "b64_char n \<noteq> CHR ''=''" and b64_char_no_break [simp]: "\<not> line_break (b64_char n)"
  using b64_digits by (simp_all add: b64_char_def)

lemma b64_char_0: "CHR ''A'' = b64_char 0"
  by (simp add: b64_char_def b64_alphabet_def)

text \<open>Four digits are a value below \<open>2 ^ 24\<close>, three bytes another.\<close>

lemma four_digits:
  assumes "v < 16777216"
  shows "b64_value (b64_char (v div 262144)) (b64_char (v div 4096)) (b64_char (v div 64)) (b64_char v) = Some v"
proof -
  have d: "v div 4096 = v div 64 div 64" "v div 262144 = v div 64 div 64 div 64"
    by (simp_all add: div_mult2_eq [symmetric])
  have "v div 262144 * 262144 + v div 4096 mod 64 * 4096 + v div 64 mod 64 * 64 + v mod 64 = v"
    using div_mult_mod_eq [of v 64] div_mult_mod_eq [of "v div 64" 64] div_mult_mod_eq [of "v div 64 div 64" 64]
    unfolding d by linarith
  then show ?thesis using assms by (simp add: b64_value_def)
qed

lemma word_256: "(256 :: 8 word) = 0" and word_65536: "(65536 :: 8 word) = 0"
  by simp_all

lemma value_of_bytes: "value_bytes (unat a * 65536 + unat b * 256 + unat c) = [a, b, c]"
proof -
  have l: "unat (x :: 8 word) < 256" for x using unsigned_less [of x, where 'a = nat] by simp
  have z: "x * 256 = 0" "x * 65536 = 0" for x :: "8 word"
    using mult_zero_right [of x] by (metis word_256, metis word_65536)
  let ?v = "unat a * 65536 + unat b * 256 + unat c"
  have "?v div 65536 = unat a" "?v div 256 = unat a * 256 + unat b" using l [of b] l [of c] by simp_all
  moreover have "(of_nat (unat a * 256 + unat b) :: 8 word) = b" "(of_nat ?v :: 8 word) = c"
    using z by simp_all
  ultimately show ?thesis by (simp add: value_bytes_def)
qed

lemma bytes_less: "unat (a :: 8 word) * 65536 + unat (b :: 8 word) * 256 + unat (c :: 8 word) < 16777216"
proof -
  have l: "unat (x :: 8 word) < 256" for x using unsigned_less [of x, where 'a = nat] by simp
  show ?thesis using l [of a] l [of b] l [of c] by simp
qed

text \<open>A group of three bytes, of which the last one or two may be zeros of the padding.\<close>

lemma group_value:
  assumes "v = unat (a :: 8 word) * 65536 + unat (b :: 8 word) * 256 + unat (c :: 8 word)"
  shows "b64_value (b64_char (v div 262144)) (b64_char (v div 4096)) (b64_char (v div 64)) (b64_char v) = Some v"
    and "value_bytes v = [a, b, c]"
  using four_digits [of v] bytes_less [of a b c] value_of_bytes [of a b c] assms by simp_all

lemma b64_decode_encode: "b64_decode (b64_encode bs) = Some bs"
proof (induction bs rule: b64_encode.induct)
  case (2 a)
  let ?v = "unat a * 65536"
  have "b64_char (?v div 64) = CHR ''A''" "b64_char ?v = CHR ''A''"
    unfolding b64_char_0 by (simp_all add: b64_char_def mod_mult_right_eq mult.commute [of _ "65536 :: nat"])
  then show ?case using group_value [of ?v a 0 0] by (simp add: Let_def)
next
  case (3 a b)
  let ?v = "unat a * 65536 + unat b * 256"
  have "b64_char ?v = CHR ''A''"
    unfolding b64_char_0 by (simp add: b64_char_def mult.commute [of _ "65536 :: nat"] mult.commute [of _ "256 :: nat"])
  then show ?case using group_value [of ?v a b 0] by (simp add: Let_def)
next
  case (4 a b c bs)
  then show ?case using group_value [of _ a b c] by (simp add: Let_def)
qed simp

lemma no_break_pad: "\<not> line_break CHR ''=''"
  by (simp add: line_break_def)

lemma b64_encode_no_break: "\<forall>c \<in> set (b64_encode bs). \<not> line_break c"
  by (induction bs rule: b64_encode.induct) (auto simp: Let_def no_break_pad)

lemma b64_encode_length: "length (b64_encode bs) = 4 * ((length bs + 2) div 3)"
proof (induction bs rule: b64_encode.induct)
  case (4 a b c bs)
  have "(length (a # b # c # bs) + 2) div 3 = (length bs + 2) div 3 + 1" by simp
  with 4 show ?case by (simp add: Let_def)
qed (simp_all add: Let_def)

lemma b64_decode_length: "b64_decode s \<noteq> None \<Longrightarrow> length s mod 4 = 0"
  by (induction s rule: b64_decode.induct) (auto split: if_splits option.splits simp: mod_Suc)

text \<open>Two strings may decode to the same bytes: the last digit has bits that are not used.\<close>

lemma unused_bits: "DecodeBase64 ''QQ=='' = Inr [65] \<and> DecodeBase64 ''QR=='' = Inr [65]"
  by (simp add: DecodeBase64_def std_DecodeString_def line_break_def b64_value_def b64_digit_def b64_alphabet_def value_bytes_def)

section \<open>Property\<close>

text \<open>Base64 is undone by decoding: whatever the bytes, and wherever line breaks are put into their
  encoding, \<open>DecodeBase64\<close> gives the bytes back. The encoding has four characters for each three
  bytes begun, and a text of another length, line breaks apart, is rejected.
\<close>

theorem DecodeBase64_EncodeBase64:
  assumes "filter (\<lambda>c. \<not> line_break c) s = EncodeBase64 data"
  shows "DecodeBase64 s = Inr data \<and> length (EncodeBase64 data) = 4 * ((length data + 2) div 3)
       \<and> DecodeBase64 (EncodeBase64 data) = Inr data
       \<and> (length (filter (\<lambda>c. \<not> line_break c) u) mod 4 \<noteq> 0 \<longrightarrow> DecodeBase64 u = Inl CorruptInput)"
proof -
  have "filter (\<lambda>c. \<not> line_break c) (EncodeBase64 data) = EncodeBase64 data"
    using b64_encode_no_break [of data] by (auto simp: EncodeBase64_def intro: filter_True)
  then show ?thesis using assms b64_decode_length [of "filter (\<lambda>c. \<not> line_break c) u"]
    by (auto simp: DecodeBase64_def std_DecodeString_def EncodeBase64_def b64_decode_encode b64_encode_length
        split: option.splits)
qed

theorem DecodeBase64_EncodeBase64_witness:
  "DecodeBase64 (''QU'' @ [CHR 0x0A] @ ''I='') = Inr [65, 66]"
proof -
  have "filter (\<lambda>c. \<not> line_break c) (''QU'' @ [CHR 0x0A] @ ''I='') = EncodeBase64 [65, 66]"
    by (simp add: EncodeBase64_def line_break_def b64_char_def b64_alphabet_def)
  from DecodeBase64_EncodeBase64 [OF this, of "[]"] show ?thesis by blast
qed

end
