(* ===== verification/Crypto_Examples.thy ===== *)
theory Crypto_Examples
  imports Xrand_Model Base64_Model
begin

text \<open>
  The example programs of the cryptographic packages (\<open>security/aes/example/main.go\<close>,
  \<open>security/certificate/example/main.go\<close>), which use several packages of the repository together. A program
  gives what it writes to the standard output, one string for each call that prints, and how it ends: after its last
  line or by \<open>log.Fatal\<close>.
\<close>

datatype 'e program_end = Succeeded | LogFatal 'e

definition println :: "string \<Rightarrow> string" where
  "println s = s @ [CHR 0x0A]"

section \<open>A key from xrand, a message through AES\<close>

datatype aes_example_error = KeyFailed | AesFailed aes_error

definition aes_example ::
    "'s generator \<Rightarrow> 's \<Rightarrow> (bytes \<Rightarrow> 'b option) \<Rightarrow> ('b \<Rightarrow> aead option) \<Rightarrow> bytes option
     \<Rightarrow> (string list \<times> aes_example_error program_end) go" where
  "aes_example g s newCipher newGCM entropy =
     bindR (RandAlphaNumString g s 32) (\<lambda>r. case r of
       None \<Rightarrow> Inr ([], LogFatal KeyFailed)
     | Some (k, s') \<Rightarrow>
         (let out1 = [println k, println (''key: '' @ k)] in
          case NewAESCipher newCipher newGCM (to_bytes k) of
            Inl e \<Rightarrow> Inr (out1, LogFatal (AesFailed e))
          | Inr c \<Rightarrow> (case Encrypt entropy c (to_bytes ''hello world'') of
              (_, Some e) \<Rightarrow> Inr (out1, LogFatal (AesFailed e))
            | (ser, None) \<Rightarrow>
                (let out2 = out1 @ [println (''ser: '' @ of_bytes ser)] in
                 case Decrypt c ser of
                   (_, Some e) \<Rightarrow> Inr (out2, LogFatal (AesFailed e))
                 | (dec, None) \<Rightarrow>
                     Inr (out2 @ [println (''dec: '' @ of_bytes dec), println ''succeed''], Succeeded)))))"

text \<open>
  What the program needs of the libraries: for a key of 32 bytes there is a cipher, with a GCM that is sound and
  has nonces of the length that is read.
\<close>

definition aes_ready :: "(bytes \<Rightarrow> 'b option) \<Rightarrow> ('b \<Rightarrow> aead option) \<Rightarrow> bytes \<Rightarrow> bool" where
  "aes_ready newCipher newGCM nonce \<longleftrightarrow> (\<forall>k. length k = 32 \<longrightarrow>
     (\<exists>b a. newCipher k = Some b \<and> newGCM b = Some a \<and> aead_ok a \<and> NonceSize a = length nonce))"

text \<open>The AES example runs to its end: the random string that \<open>xrand\<close> makes is a key that \<open>NewAESCipher\<close> takes,
  and what comes out of encrypting and decrypting is the message. The key is 32 characters of the character set.\<close>

theorem aes_example_succeeds:
  assumes "generator_ok g" and "aes_ready newCipher newGCM nonce"
  shows "\<exists>k ser. aes_example g s newCipher newGCM (Some nonce) =
      Inr ([println k, println (''key: '' @ k), println (''ser: '' @ ser), println ''dec: hello world'', println ''succeed''], Succeeded)
    \<and> length k = 32 \<and> set k \<subseteq> set charset"
proof -
  obtain k s' where r: "RandAlphaNumString g s 32 = Inr (Some (k, s'))" and k: "length k = 32" "set k \<subseteq> set charset"
    using random_chars_ok [OF assms(1), of 32 s] by (auto simp: RandAlphaNumString_def)
  obtain b a where c: "newCipher (to_bytes k) = Some b" "newGCM b = Some a" and a: "aead_ok a" "NonceSize a = length nonce"
    using assms(2) k(1) unfolding aes_ready_def by (metis to_bytes_simps(1))
  let ?c = "\<lparr>key = to_bytes k, block = a\<rparr>"
  have n: "NewAESCipher newCipher newGCM (to_bytes k) = Inr ?c" using c k(1) by (simp add: NewAESCipher_def)
  have e: "Encrypt (Some nonce) ?c (to_bytes ''hello world'') = (nonce @ seal a nonce (to_bytes ''hello world''), None)"
    by (simp add: Encrypt_def)
  have d: "Decrypt ?c (nonce @ seal a nonce (to_bytes ''hello world'')) = (to_bytes ''hello world'', None)"
    using Decrypt_sealed [of ?c nonce] a by simp
  show ?thesis
    using k by (intro exI [of _ k] exI [of _ "of_bytes (nonce @ seal a nonce (to_bytes ''hello world''))"])
      (simp add: aes_example_def r n e d Let_def)
qed

theorem aes_example_succeeds_witness:
  "\<exists>k ser. aes_example \<lparr>Uint64 = (\<lambda>s. (0, s)), gen_intN = (\<lambda>s n. (n - 1, s))\<rparr> () Some (\<lambda>_. Some toy_aead) (Some [1, 2]) =
      Inr ([println k, println (''key: '' @ k), println (''ser: '' @ ser), println ''dec: hello world'', println ''succeed''], Succeeded)"
  using aes_example_succeeds [of "\<lparr>Uint64 = (\<lambda>s. (0, s)), gen_intN = (\<lambda>s n. (n - 1, s))\<rparr>" Some "\<lambda>_. Some toy_aead" "[1, 2]" "()"]
    toy_aead_ok by (auto simp: generator_ok_def aes_ready_def toy_aead_def)

section \<open>A certificate and a signature\<close>

record pkix_name =
  CommonName :: string
  Country :: "string list"
  Province :: "string list"
  Locality :: "string list"
  Organization :: "string list"

definition example_subject :: pkix_name where
  "example_subject = \<lparr>CommonName = ''janus.go-pantheon.dev'', Country = [''SG''], Province = [''Singapore''],
     Locality = [''Singapore''], Organization = [''Pantheon'', ''Janus'']\<rparr>"

text \<open>\<open>fmt.Printf("\n%s PEM: \n%s\n", ...)\<close>\<close>

definition pem_text :: "string \<Rightarrow> bytes \<Rightarrow> string" where
  "pem_text what pem = [CHR 0x0A] @ println (what @ '' PEM: '') @ println (of_bytes pem)"

definition bool_text :: "bool \<Rightarrow> string" where
  "bool_text b = (if b then ''true'' else ''false'')"

text \<open>\<open>nameString\<close> and \<open>timeString\<close> stand for the \<open>String\<close> methods of \<open>pkix.Name\<close> and \<open>time.Time\<close>.\<close>

definition certificate_example ::
    "scheme \<Rightarrow> pkix_name x509_create \<Rightarrow> (bytes \<Rightarrow> pkix_name cert option) \<Rightarrow> (string \<Rightarrow> bytes \<Rightarrow> bytes)
     \<Rightarrow> (bytes \<Rightarrow> bytes option) \<Rightarrow> (bytes \<Rightarrow> bytes option) \<Rightarrow> (pkix_name \<Rightarrow> string) \<Rightarrow> (int \<Rightarrow> string)
     \<Rightarrow> bytes option \<Rightarrow> int \<Rightarrow> int \<Rightarrow> string list \<times> cert_error program_end" where
  "certificate_example sch create parse pemEncode marshalPKCS8 marshalPKIX nameString timeString gen t1 t2 =
     (case CreateSelfSignedCert sch create parse pemEncode gen t1 t2 example_subject 365 of
        Inl e \<Rightarrow> ([], LogFatal e)
      | Inr c \<Rightarrow> (case ExportPriToPEM marshalPKCS8 pemEncode (Pri (CertKeys c)) of
          Inl e \<Rightarrow> ([], LogFatal e)
        | Inr pri \<Rightarrow>
            (let out1 = [pem_text ''private'' pri, pem_text ''cert'' (CertPEM c)] in
             case ExportPubToPEM marshalPKIX pemEncode (Pub (CertKeys c)) of
               Inl e \<Rightarrow> (out1, LogFatal e)
             | Inr pub \<Rightarrow>
                 (let x = X509Cert c;
                      out2 = out1 @ [pem_text ''public'' pub,
                        println (''subject: '' @ nameString (Subject x)), println (''issuer: '' @ nameString (Issuer x)),
                        println (''not before: '' @ timeString (NotBefore x)), println (''not after: '' @ timeString (NotAfter x)),
                        println (''serial: '' @ itoa (SerialNumber x))];
                      org = to_bytes ''hello world''
                  in case Sign sch (Pri (CertKeys c)) org of
                       Inl e \<Rightarrow> (out2, LogFatal e)
                     | Inr signRet \<Rightarrow>
                         (out2 @ [println (''signature: '' @ EncodeBase64 (Sig signRet)),
                            println (''signature verification result: '' @ bool_text (Verify sch (Pub (CertKeys c)) org (Sig signRet))),
                            println ''succeed''], Succeeded)))))"

text \<open>C39: The certificate example verifies what it signed. With a sound signature scheme and a private key of the right
  size, when the certificate is created and the keys can be marshalled, the program runs to its end: it prints the PEM
  blocks, as the subject and as the issuer the name that encoding and parsing make of the one it gave (\<open>canon\<close>; the two
  organizations are sorted), the serial number 1, the second in which it was made and the one 365 days later, and the
  signature verifies under the key of the certificate.\<close>

theorem certificate_example_verifies:
  assumes "scheme_ok sch" and "x509_ok canon create parse" and "length pri = PrivateKeySize"
    and "create (cert_template example_subject t1 t2 365) (cert_template example_subject t1 t2 365) (sch_public sch pri) pri = Some der"
    and "marshalPKCS8 pri = Some pri_der" and "marshalPKIX (sch_public sch pri) = Some pub_der"
  shows "certificate_example sch create parse pemEncode marshalPKCS8 marshalPKIX nameString timeString (Some pri) t1 t2 =
     ([pem_text ''private'' (pemEncode ''PRIVATE KEY'' pri_der), pem_text ''cert'' (pemEncode ''CERTIFICATE'' der),
       pem_text ''public'' (pemEncode ''PUBLIC KEY'' pub_der),
       println (''subject: '' @ nameString (canon example_subject)), println (''issuer: '' @ nameString (canon example_subject)),
       println (''not before: '' @ timeString (seconds t1)),
       println (''not after: '' @ timeString (seconds (t2 + 365 * 24 * hour))), println (''serial: '' @ itoa 1),
       println (''signature: '' @ EncodeBase64 (sch_sign sch pri (to_bytes ''hello world''))),
       println ''signature verification result: true'', println ''succeed''], Succeeded)"
proof -
  have key: "length (sch_public sch pri) = PublicKeySize" using assms(1,3) by (simp add: scheme_ok_def)
  obtain c where c: "CreateSelfSignedCert sch create parse pemEncode (Some pri) t1 t2 example_subject 365 = Inr c"
    and der: "CertDER c = der" "CertPEM c = pemEncode ''CERTIFICATE'' der"
  proof -
    obtain x where "parse der = Some x" using assms(2,4) key unfolding x509_ok_def by blast
    with that assms(4) show ?thesis by (simp add: CreateSelfSignedCert_def cert_GenKeyPair_def Let_def)
  qed
  from CreateSelfSignedCert_parts [OF c assms(2)] key obtain "CertKeys c = \<lparr>Pri = pri, Pub = sch_public sch pri\<rparr>"
    "NotBefore (X509Cert c) = seconds t1" "NotAfter (X509Cert c) = seconds (t2 + validity 365)"
    "Subject (X509Cert c) = canon example_subject" "Issuer (X509Cert c) = canon example_subject" "SerialNumber (X509Cert c) = 1"
    by (metis option.inject)
  moreover have "validity 365 = 365 * 24 * hour" by (rule validity_in_range) (simp_all add: max_valid_days_def)
  moreover have "Sign sch pri m = Inr \<lparr>Sig = sch_sign sch pri m, Msg = m, SigPub = sch_public sch pri\<rparr>"
    "Verify sch (sch_public sch pri) m (sch_sign sch pri m)" for m
    using assms(1,3) by (simp_all add: Sign_def Verify_def scheme_ok_def)
  ultimately show ?thesis
    using assms(5,6) der by (simp add: certificate_example_def c ExportPriToPEM_def ExportPubToPEM_def ExportToPEM_def
        bool_text_def Let_def)
qed

text \<open>Names as DER gives them back: of two values the shorter comes first.\<close>

definition shorter_first :: "pkix_name \<Rightarrow> pkix_name" where
  "shorter_first n = n\<lparr>Organization := sort_key length (Organization n)\<rparr>"

theorem certificate_example_verifies_witness:
  "\<exists>out. certificate_example toy_scheme (one_create (cert_template example_subject 0 0 365) (replicate 32 5))
     (one_parse shorter_first (cert_template example_subject 0 0 365) (replicate 32 5)) (\<lambda>ty d. d) Some Some
     (\<lambda>n. concat (Organization n)) (\<lambda>t. itoa t) (Some (replicate 64 5)) 0 0
     = (out @ [println ''signature verification result: true'', println ''succeed''], Succeeded)
   \<and> println ''subject: JanusPantheon'' \<in> set out"
proof -
  let ?t = "cert_template example_subject 0 0 365"
  have "one_create ?t (replicate 32 5) ?t ?t (sch_public toy_scheme (replicate 64 5)) (replicate 64 5) = Some [1]"
    by (simp add: one_create_def toy_scheme_def)
  moreover have "concat (Organization (shorter_first example_subject)) = ''JanusPantheon''"
    by (simp add: shorter_first_def example_subject_def)
  ultimately show ?thesis
    using certificate_example_verifies [OF toy_scheme_ok one_x509_ok, of "replicate 64 5" ?t "replicate 32 5" 0 0 "[1]" Some _ Some _
        shorter_first "\<lambda>ty d. d" "\<lambda>n. concat (Organization n)" "\<lambda>t. itoa t"]
    by (simp add: PrivateKeySize_def)
qed

end
