(* ===== verification/Tag_Model.thy ===== *)
theory Tag_Model
  imports Camel_Model
begin

text \<open>
  The \<open>orm\<close> tags of struct fields (\<open>data/db/pg/migrate/tag_parser.go\<close>): parsing a tag into a column
  configuration, inferring the column type from the Go type, the validators, and the SQL
  definition of the column. Strings are ASCII.
\<close>

section \<open>Fields\<close>

text \<open>What \<open>reflect\<close> tells of a type: its kind and, for pointers and slices, the element type.\<close>

datatype kind =
    KInt | KInt8 | KInt16 | KInt32 | KInt64
  | KUint | KUint8 | KUint16 | KUint32 | KUint64
  | KFloat32 | KFloat64 | KBool | KString | KStruct | KPtr | KSlice | KOther

datatype gotype =
    GBasic kind
  | GTime
  | GStruct nat
  | GPtr gotype
  | GSlice gotype
  | GOther nat

fun kind_of :: "gotype \<Rightarrow> kind" where
  "kind_of (GBasic k) = k"
| "kind_of GTime = KStruct"
| "kind_of (GStruct _) = KStruct"
| "kind_of (GPtr _) = KPtr"
| "kind_of (GSlice _) = KSlice"
| "kind_of (GOther _) = KOther"

text \<open>\<open>if fieldType.Kind() == reflect.Ptr { fieldType = fieldType.Elem() }\<close>\<close>

fun deref :: "gotype \<Rightarrow> gotype" where
  "deref (GPtr t) = t"
| "deref t = t"

text \<open>A struct field with the values of the tags that are read; an absent tag is empty.\<close>

record field =
  fname :: string
  exported :: bool
  ftype :: gotype
  orm :: string
  pgname :: string
  pgtype :: string
  primarykey :: string

section \<open>Column configurations\<close>

record ColumnTag =
  Column :: string
  CType :: string
  IsPrimaryKey :: bool
  IsAutoIncr :: bool
  IsNotNull :: bool
  IsUnique :: bool
  IsIndex :: bool
  DefaultValue :: string
  CSize :: int
  Precision :: int
  Scale :: int
  Comment :: string
  Extra :: "string \<rightharpoonup> string"

definition empty_tag :: ColumnTag where
  "empty_tag = \<lparr>Column = [], CType = [], IsPrimaryKey = False, IsAutoIncr = False, IsNotNull = False,
     IsUnique = False, IsIndex = False, DefaultValue = [], CSize = 0, Precision = 0, Scale = 0,
     Comment = [], Extra = Map.empty\<rparr>"

datatype tag_error =
    ColumnEmpty | ColumnNotIdentifier | ColumnReserved
  | TypeEmpty | TypeUnsupported
  | SizeInvalid | SizeNotPositive | SizeTooLarge
  | PrecisionInvalid | PrecisionNotPositive | PrecisionTooLarge
  | ScaleInvalid | ScaleNegative | ScaleTooLarge
  | DefaultEmpty | DefaultDangerous string
  | CommentTooLong
  | ScaleAbovePrecision | AutoIncrNotPrimary

definition supportedTypes :: "string list" where
  "supportedTypes = [
     ''BOOLEAN'', ''BOOL'',
     ''SMALLINT'', ''INT2'', ''INTEGER'', ''INT'', ''INT4'', ''BIGINT'', ''INT8'',
     ''SMALLSERIAL'', ''SERIAL2'', ''SERIAL'', ''SERIAL4'', ''BIGSERIAL'', ''SERIAL8'',
     ''DECIMAL'', ''NUMERIC'', ''REAL'', ''FLOAT4'', ''DOUBLE PRECISION'', ''FLOAT8'',
     ''CHAR'', ''CHARACTER'', ''VARCHAR'', ''CHARACTER VARYING'', ''TEXT'',
     ''BYTEA'', ''TIMESTAMP'', ''TIMESTAMPTZ'', ''DATE'', ''TIME'', ''TIMETZ'',
     ''INTERVAL'', ''UUID'', ''JSON'', ''JSONB'', ''XML'',
     ''INET'', ''CIDR'', ''MACADDR'', ''MACADDR8'',
     ''POINT'', ''LINE'', ''LSEG'', ''BOX'', ''PATH'', ''POLYGON'', ''CIRCLE'',
     ''TSVECTOR'', ''TSQUERY'']"

definition reservedWords :: "string list" where
  "reservedWords = [
     ''SELECT'', ''INSERT'', ''UPDATE'', ''DELETE'', ''FROM'', ''WHERE'', ''ORDER'', ''BY'',
     ''GROUP'', ''HAVING'', ''JOIN'', ''INNER'', ''LEFT'', ''RIGHT'', ''FULL'', ''OUTER'',
     ''UNION'', ''ALL'', ''DISTINCT'', ''AS'', ''ON'', ''IN'', ''EXISTS'', ''BETWEEN'',
     ''LIKE'', ''IS'', ''NULL'', ''NOT'', ''AND'', ''OR'', ''TRUE'', ''FALSE'',
     ''CREATE'', ''ALTER'', ''DROP'', ''TABLE'', ''INDEX'', ''VIEW'', ''DATABASE'',
     ''SCHEMA'', ''GRANT'', ''REVOKE'', ''COMMIT'', ''ROLLBACK'', ''TRANSACTION'']"

section \<open>Validators\<close>

definition upper :: "string \<Rightarrow> string" where
  "upper s = map to_upper s"

definition ident_start :: "char \<Rightarrow> bool" where
  "ident_start c \<longleftrightarrow> is_lower c \<or> is_upper c \<or> c = CHR ''_''"

definition ident_char :: "char \<Rightarrow> bool" where
  "ident_char c \<longleftrightarrow> ident_start c \<or> is_digit c"

text \<open>The pattern \<open>^[a-zA-Z_][a-zA-Z0-9_]*$\<close>\<close>

fun is_identifier :: "string \<Rightarrow> bool" where
  "is_identifier [] = False"
| "is_identifier (c # cs) = (ident_start c \<and> list_all ident_char cs)"

definition validateColumnName :: "string \<Rightarrow> tag_error option" where
  "validateColumnName name =
     (if name = [] then Some ColumnEmpty
      else if \<not> is_identifier name then Some ColumnNotIdentifier
      else if upper name \<in> set reservedWords then Some ColumnReserved
      else None)"

definition base_type :: "string \<Rightarrow> string" where
  "base_type colType = trim_suffix (takeWhile (\<lambda>c. c \<noteq> CHR ''('') (upper colType)) ''[]''"

definition validateColumnType :: "string \<Rightarrow> tag_error option" where
  "validateColumnType colType =
     (if colType = [] then Some TypeEmpty
      else if base_type colType \<notin> set supportedTypes then Some TypeUnsupported
      else None)"

definition validateSize :: "string \<Rightarrow> tag_error option" where
  "validateSize sz = (case parse_int sz of
     Inl _ \<Rightarrow> Some SizeInvalid
   | Inr s \<Rightarrow> if s \<le> 0 then Some SizeNotPositive else if s > 65535 then Some SizeTooLarge else None)"

definition validatePrecision :: "string \<Rightarrow> tag_error option" where
  "validatePrecision precision = (case parse_int precision of
     Inl _ \<Rightarrow> Some PrecisionInvalid
   | Inr p \<Rightarrow> if p \<le> 0 then Some PrecisionNotPositive else if p > 1000 then Some PrecisionTooLarge else None)"

definition validateScale :: "string \<Rightarrow> tag_error option" where
  "validateScale scale = (case parse_int scale of
     Inl _ \<Rightarrow> Some ScaleInvalid
   | Inr s \<Rightarrow> if s < 0 then Some ScaleNegative else if s > 1000 then Some ScaleTooLarge else None)"

definition dangerous :: "string list" where
  "dangerous = ['';'', ''--'', ''/*'', ''*/'', ''xp_'', ''sp_'']"

definition validateDefault :: "string \<Rightarrow> tag_error option" where
  "validateDefault defaultVal =
     (if defaultVal = [] then Some DefaultEmpty
      else map_option DefaultDangerous (find (contains (map to_lower defaultVal)) dangerous))"

definition validateComment :: "string \<Rightarrow> tag_error option" where
  "validateComment comment = (if length comment > 1024 then Some CommentTooLong else None)"

definition validator :: "string \<Rightarrow> (string \<Rightarrow> tag_error option) option" where
  "validator key =
     (if key = ''column'' then Some validateColumnName
      else if key = ''type'' then Some validateColumnType
      else if key = ''size'' then Some validateSize
      else if key = ''precision'' then Some validatePrecision
      else if key = ''scale'' then Some validateScale
      else if key = ''default'' then Some validateDefault
      else if key = ''comment'' then Some validateComment
      else None)"

definition validateColumnTag :: "ColumnTag \<Rightarrow> tag_error option" where
  "validateColumnTag tag =
     (case validateColumnName (Column tag) of Some e \<Rightarrow> Some e
      | None \<Rightarrow> (case validateColumnType (CType tag) of Some e \<Rightarrow> Some e
      | None \<Rightarrow> if Scale tag > 0 \<and> Precision tag > 0 \<and> Scale tag > Precision tag then Some ScaleAbovePrecision
               else if IsAutoIncr tag \<and> \<not> IsPrimaryKey tag then Some AutoIncrNotPrimary
               else None))"

end
