(* ===== verification/Tag_Parser.thy ===== *)
theory Tag_Parser
  imports Tag_Model
begin

text \<open>
  Parsing a tag and building the column definition (\<open>ParseTag\<close>, \<open>BuildColumnDefinition\<close> of
  \<open>data/db/pg/migrate/tag_parser.go\<close>), and the properties of the parser.
\<close>

section \<open>Parsing the parameters\<close>

text \<open>\<open>strings.SplitN(part, ":", 2)\<close> of a part that contains a colon.\<close>

definition split_colon :: "string \<Rightarrow> string \<times> string" where
  "split_colon part = (takeWhile (\<lambda>c. c \<noteq> CHR '':'') part, tl (dropWhile (\<lambda>c. c \<noteq> CHR '':'') part))"

text \<open>One part of the tag: nothing, a parameter, or the name and the error of a bad one.\<close>

definition parse_part :: "string \<Rightarrow> (string \<rightharpoonup> string) \<Rightarrow> (string \<times> tag_error) + (string \<rightharpoonup> string)" where
  "parse_part part0 params =
     (let part = trim_space part0 in
      if part = [] then Inr params
      else if CHR '':'' \<in> set part then
        (case split_colon part of (k, v) \<Rightarrow>
          (let key = trim_space k; val = trim_space v in
           case validator key of
             None \<Rightarrow> Inr (params(key \<mapsto> val))
           | Some check \<Rightarrow> (case check val of
               Some e \<Rightarrow> Inl (key, e)
             | None \<Rightarrow> Inr (params(key \<mapsto> val)))))
      else Inr (params(part \<mapsto> ''true'')))"

definition parseTagParameters :: "string \<Rightarrow> (string \<times> tag_error) + (string \<rightharpoonup> string)" where
  "parseTagParameters tag = foldR (\<lambda>params part. parse_part part params) Map.empty (split_on CHR '';'' tag)"

definition hasFlag :: "(string \<rightharpoonup> string) \<Rightarrow> string list \<Rightarrow> bool" where
  "hasFlag params names = list_ex (\<lambda>name. params name = Some ''true'') names"

definition knownParams :: "string list" where
  "knownParams = [''column'', ''type'', ''size'', ''precision'', ''scale'', ''default'', ''comment'',
     ''primaryKey'', ''primary_key'', ''autoIncrement'', ''auto_increment'',
     ''notNull'', ''not_null'', ''unique'', ''index'']"

definition isKnownParameter :: "string \<Rightarrow> bool" where
  "isKnownParameter key \<longleftrightarrow> key \<in> set knownParams"

text \<open>\<open>strconv.Atoi\<close> of a parameter, ignored when it is absent or no number.\<close>

definition int_param :: "(string \<rightharpoonup> string) \<Rightarrow> string \<Rightarrow> int" where
  "int_param params key = (case params key of
     None \<Rightarrow> 0
   | Some v \<Rightarrow> (case parse_int v of Inl _ \<Rightarrow> 0 | Inr i \<Rightarrow> i))"

definition str_param :: "(string \<rightharpoonup> string) \<Rightarrow> string \<Rightarrow> string" where
  "str_param params key = (case params key of None \<Rightarrow> [] | Some v \<Rightarrow> v)"

section \<open>Types\<close>

definition shouldIncludeField :: "field \<Rightarrow> bool" where
  "shouldIncludeField f =
     (let t = deref (ftype f) in
      if kind_of t \<in> {KInt, KInt8, KInt16, KInt32, KInt64, KUint, KUint8, KUint16, KUint32, KUint64,
                      KFloat32, KFloat64, KBool, KString} then True
      else if kind_of t = KStruct then t = GTime
      else False)"

definition inferTypeFromField :: "field \<Rightarrow> ColumnTag \<Rightarrow> string" where
  "inferTypeFromField f tag =
     (let t = deref (ftype f); k = kind_of t in
      if IsPrimaryKey tag \<and> IsAutoIncr tag then
        (if k \<in> {KInt, KInt32, KUint, KUint32} then ''SERIAL''
         else if k \<in> {KInt64, KUint64} then ''BIGSERIAL''
         else ''SERIAL'')
      else if k \<in> {KInt, KInt8, KInt16, KInt32, KUint, KUint8, KUint16, KUint32} then ''INTEGER''
      else if k \<in> {KInt64, KUint64} then ''BIGINT''
      else if k = KFloat32 then ''REAL''
      else if k = KFloat64 then
        (if Precision tag > 0 then
           (if Scale tag > 0 then ''NUMERIC('' @ itoa (Precision tag) @ '','' @ itoa (Scale tag) @ '')''
            else ''NUMERIC('' @ itoa (Precision tag) @ '')'')
         else ''DOUBLE PRECISION'')
      else if k = KBool then ''BOOLEAN''
      else if k = KString then (if CSize tag > 0 then ''VARCHAR('' @ itoa (CSize tag) @ '')'' else ''TEXT'')
      else if k = KStruct then (if t = GTime then ''TIMESTAMPTZ'' else ''JSONB'')
      else (case t of GSlice e \<Rightarrow> if kind_of e = KUint8 then ''BYTEA'' else ''JSONB'' | _ \<Rightarrow> ''JSONB''))"

definition createDefaultColumn :: "field \<Rightarrow> ColumnTag" where
  "createDefaultColumn f = empty_tag\<lparr>Column := ToUnderScore (fname f), CType := inferTypeFromField f empty_tag\<rparr>"

definition createDefaultTimeColumn :: "field \<Rightarrow> ColumnTag" where
  "createDefaultTimeColumn f = empty_tag\<lparr>Column := ToUnderScore (fname f), CType := ''TIMESTAMPTZ''\<rparr>"

section \<open>The tag\<close>

datatype parse_error = InvalidParameter string tag_error | ValidationFailed tag_error

definition tag_of_params :: "field \<Rightarrow> (string \<rightharpoonup> string) \<Rightarrow> ColumnTag" where
  "tag_of_params f params =
     (let tag = \<lparr>Column = (case params ''column'' of Some c \<Rightarrow> c | None \<Rightarrow> ToUnderScore (fname f)),
            CType = str_param params ''type'',
            IsPrimaryKey = hasFlag params [''primaryKey'', ''primary_key''],
            IsAutoIncr = hasFlag params [''autoIncrement'', ''auto_increment''],
            IsNotNull = hasFlag params [''notNull'', ''not_null''],
            IsUnique = hasFlag params [''unique''],
            IsIndex = hasFlag params [''index''],
            DefaultValue = str_param params ''default'',
            CSize = int_param params ''size'',
            Precision = int_param params ''precision'',
            Scale = int_param params ''scale'',
            Comment = str_param params ''comment'',
            Extra = (\<lambda>key. if isKnownParameter key then None else params key)\<rparr>
      in if CType tag = [] then tag\<lparr>CType := inferTypeFromField f tag\<rparr> else tag)"

text \<open>\<open>ParseTag\<close> returns an error, no column (\<open>None\<close>) or a column.\<close>

definition ParseTag :: "field \<Rightarrow> parse_error + ColumnTag option" where
  "ParseTag f =
     (if \<not> exported f then Inr None
      else if orm f = [] then
        (if ftype f = GTime \<or> ftype f = GPtr GTime then Inr (Some (createDefaultTimeColumn f))
         else if shouldIncludeField f then Inr (Some (createDefaultColumn f))
         else Inr None)
      else case parseTagParameters (orm f) of
          Inl (key, e) \<Rightarrow> Inl (InvalidParameter key e)
        | Inr params \<Rightarrow>
            (let columnTag = tag_of_params f params in
             case validateColumnTag columnTag of
               Some e \<Rightarrow> Inl (ValidationFailed e)
             | None \<Rightarrow> Inr (Some columnTag)))"

section \<open>The SQL definition\<close>

definition sized_type :: "ColumnTag \<Rightarrow> string" where
  "sized_type tag =
     (let ty = CType tag in
      if CSize tag > 0 then
        (if upper ty = ''VARCHAR'' then ''VARCHAR('' @ itoa (CSize tag) @ '')''
         else if upper ty = ''CHAR'' \<or> upper ty = ''CHARACTER'' then ''CHAR('' @ itoa (CSize tag) @ '')''
         else ty)
      else ty)"

definition column_type :: "ColumnTag \<Rightarrow> string" where
  "column_type tag =
     (let ty = sized_type tag in
      if Precision tag > 0 \<and> (upper ty = ''NUMERIC'' \<or> upper ty = ''DECIMAL'') then
        (if Scale tag > 0 then ''NUMERIC('' @ itoa (Precision tag) @ '','' @ itoa (Scale tag) @ '')''
         else ''NUMERIC('' @ itoa (Precision tag) @ '')'')
      else ty)"

definition quoted :: "string \<Rightarrow> string" where
  "quoted s = CHR 0x22 # s @ [CHR 0x22]"

definition BuildColumnDefinition :: "ColumnTag \<Rightarrow> string" where
  "BuildColumnDefinition tag =
     join '' '' ([quoted (Column tag), column_type tag]
       @ (if IsPrimaryKey tag then [''PRIMARY KEY''] else [])
       @ (if IsNotNull tag then [''NOT NULL''] else [])
       @ (if IsUnique tag then [''UNIQUE''] else [])
       @ (if DefaultValue tag \<noteq> [] then [''DEFAULT '' @ DefaultValue tag] else []))"

section \<open>Lemmas\<close>

text \<open>Every parameter passed its validator or is a flag, and has no semicolon.\<close>

definition params_ok :: "(string \<rightharpoonup> string) \<Rightarrow> bool" where
  "params_ok params \<longleftrightarrow> (\<forall>k v. params k = Some v \<longrightarrow> CHR '';'' \<notin> set v
     \<and> (\<forall>check. validator k = Some check \<longrightarrow> check v = None \<or> v = ''true''))"

lemma params_ok_upd:
  assumes "params_ok params" and "CHR '';'' \<notin> set v"
    and "\<And>check. validator k = Some check \<Longrightarrow> check v = None \<or> v = ''true''"
  shows "params_ok (params(k \<mapsto> v))"
  using assms by (auto simp: params_ok_def)

lemma set_trim: "c \<notin> set s \<Longrightarrow> c \<notin> set (trim_space s)"
  using set_trim_space [of s] by blast

lemma split_colon_set: "split_colon part = (k, v) \<Longrightarrow> set k \<subseteq> set part \<and> set v \<subseteq> set part"
proof -
  have tl: "set (tl xs) \<subseteq> set xs" for xs :: string by (cases xs) auto
  show "split_colon part = (k, v) \<Longrightarrow> set k \<subseteq> set part \<and> set v \<subseteq> set part"
    using tl [of "dropWhile (\<lambda>c. c \<noteq> CHR '':'') part"]
    by (auto simp: split_colon_def dest: set_takeWhileD set_dropWhileD)
qed

lemma parse_part_ok:
  assumes "params_ok params" and "CHR '';'' \<notin> set part0" and "parse_part part0 params = Inr params'"
  shows "params_ok params'"
proof -
  let ?part = "trim_space part0"
  have no: "CHR '';'' \<notin> set ?part" using assms(2) by (rule set_trim)
  show ?thesis
  proof (cases "?part = [] \<or> CHR '':'' \<notin> set ?part")
    case True
    then show ?thesis using assms by (auto simp: parse_part_def Let_def intro!: params_ok_upd split: if_splits)
  next
    case False
    obtain k v where kv: "split_colon ?part = (k, v)" by fastforce
    then have v: "CHR '';'' \<notin> set (trim_space v)"
      using split_colon_set no by (intro set_trim) blast
    show ?thesis
    proof (cases "validator (trim_space k)")
      case None
      then show ?thesis using assms(1,3) False kv v
        by (auto simp: parse_part_def Let_def intro!: params_ok_upd)
    next
      case (Some check)
      then show ?thesis using assms(1,3) False kv v
        by (auto simp: parse_part_def Let_def intro!: params_ok_upd split: option.splits)
    qed
  qed
qed

lemma parseTagParameters_ok:
  assumes "parseTagParameters tag = Inr params"
  shows "params_ok params"
  using assms unfolding parseTagParameters_def
proof (rule foldR_invariant [where P = params_ok])
  show "params_ok Map.empty" by (simp add: params_ok_def)
next
  fix s x t assume "params_ok s" "x \<in> set (split_on CHR '';'' tag)" "parse_part x s = Inr t"
  then show "params_ok t" using parse_part_ok split_no_sep by blast
qed

lemma validators [simp]:
  "validator ''column'' = Some validateColumnName" "validator ''type'' = Some validateColumnType"
  "validator ''size'' = Some validateSize" "validator ''precision'' = Some validatePrecision"
  "validator ''scale'' = Some validateScale" "validator ''default'' = Some validateDefault"
  by (simp_all add: validator_def)

lemma parse_true [simp]: "parse_int ''true'' = Inl ErrSyntax"
  by (simp add: parse_int_def is_digit_def)

text \<open>The numbers of a parsed tag are in the range of their validators, or 0.\<close>

lemma int_param_range:
  assumes "params_ok params" and "validator key = Some check"
    and "\<And>v i. check v = None \<Longrightarrow> parse_int v = Inr i \<Longrightarrow> 0 \<le> i \<and> i \<le> m" and "0 \<le> m"
  shows "0 \<le> int_param params key \<and> int_param params key \<le> m"
proof (cases "params key")
  case (Some v)
  then have "check v = None \<or> v = ''true''" using assms(1,2) by (auto simp: params_ok_def)
  then show ?thesis using Some assms(3,4) by (auto simp: int_param_def split: sum.splits)
qed (use assms(4) in \<open>simp add: int_param_def\<close>)

lemma size_range: "params_ok params \<Longrightarrow> 0 \<le> int_param params ''size'' \<and> int_param params ''size'' \<le> 65535"
  by (rule int_param_range [of _ _ validateSize]) (auto simp: validateSize_def split: if_splits)

lemma precision_range: "params_ok params \<Longrightarrow> 0 \<le> int_param params ''precision'' \<and> int_param params ''precision'' \<le> 1000"
  by (rule int_param_range [of _ _ validatePrecision]) (auto simp: validatePrecision_def split: if_splits)

lemma scale_range: "params_ok params \<Longrightarrow> 0 \<le> int_param params ''scale'' \<and> int_param params ''scale'' \<le> 1000"
  by (rule int_param_range [of _ _ validateScale]) (auto simp: validateScale_def split: if_splits)

text \<open>The default value passed the check for dangerous patterns.\<close>

definition default_ok :: "string \<Rightarrow> bool" where
  "default_ok d \<longleftrightarrow> d = [] \<or> (\<forall>p \<in> set dangerous. \<not> contains (map to_lower d) p)"

lemma default_param:
  assumes "params_ok params"
  shows "default_ok (str_param params ''default'')"
proof (cases "params ''default''")
  case (Some v)
  then have "validateDefault v = None \<or> v = ''true''" using assms by (auto simp: params_ok_def)
  moreover have "default_ok ''true''"
    by (simp add: default_ok_def dangerous_def to_lower_def is_upper_def)
  moreover have "default_ok v" if "validateDefault v = None"
    using that by (auto simp: validateDefault_def default_ok_def find_None_iff split: if_splits)
  ultimately show ?thesis using Some by (auto simp: str_param_def)
qed (simp add: str_param_def default_ok_def)

lemma tag_of_params_fields [simp]:
  "CSize (tag_of_params f ps) = int_param ps ''size''" "Precision (tag_of_params f ps) = int_param ps ''precision''"
  "Scale (tag_of_params f ps) = int_param ps ''scale''" "DefaultValue (tag_of_params f ps) = str_param ps ''default''"
  by (simp_all add: tag_of_params_def Let_def)

text \<open>How a tag that is not empty is parsed.\<close>

lemma ParseTag_orm:
  assumes "ParseTag f = Inr (Some t)" and "orm f \<noteq> []"
  obtains params where "parseTagParameters (orm f) = Inr params" "params_ok params"
    "t = tag_of_params f params" "validateColumnTag t = None"
proof (cases "parseTagParameters (orm f)")
  case (Inl e)
  then show ?thesis using assms by (cases e) (auto simp: ParseTag_def split: if_splits)
next
  case (Inr params)
  with assms have "t = tag_of_params f params" "validateColumnTag t = None"
    by (auto simp: ParseTag_def Let_def split: if_splits option.splits)
  with Inr show ?thesis using that parseTagParameters_ok by blast
qed

lemma valid_name: "validateColumnName n = None \<Longrightarrow> is_identifier n \<and> upper n \<notin> set reservedWords"
  by (auto simp: validateColumnName_def split: if_splits)

lemma identifier_chars: "is_identifier n \<Longrightarrow> c \<in> set n \<Longrightarrow> ident_char c"
  by (cases n) (auto simp: ident_char_def list_all_iff)

section \<open>Properties\<close>

text \<open>C14: A column that comes out of an \<open>orm\<close> tag is sound: its name is an identifier and no reserved word,
  its base type is supported, its size, precision and scale are in range, the scale is not above a
  precision, auto increment implies primary key, and its default value has none of the dangerous
  patterns.
\<close>

theorem ParseTag_sound:
  assumes "ParseTag f = Inr (Some t)" and "orm f \<noteq> []"
  shows "is_identifier (Column t) \<and> upper (Column t) \<notin> set reservedWords
       \<and> base_type (CType t) \<in> set supportedTypes
       \<and> 0 \<le> CSize t \<and> CSize t \<le> 65535 \<and> 0 \<le> Precision t \<and> Precision t \<le> 1000 \<and> 0 \<le> Scale t \<and> Scale t \<le> 1000
       \<and> (Scale t \<le> Precision t \<or> Precision t = 0)
       \<and> (IsPrimaryKey t \<or> \<not> IsAutoIncr t)
       \<and> default_ok (DefaultValue t)"
proof -
  from assms obtain params where p: "params_ok params" "t = tag_of_params f params" and v: "validateColumnTag t = None"
    by (rule ParseTag_orm)
  have "validateColumnName (Column t) = None" "validateColumnType (CType t) = None"
    and scale: "Scale t \<le> Precision t \<or> Precision t = 0 \<or> Scale t = 0 \<or> Precision t < 0 \<or> Scale t < 0"
    and ai: "IsPrimaryKey t \<or> \<not> IsAutoIncr t"
    using v by (auto simp: validateColumnTag_def split: option.splits if_splits)
  then have "is_identifier (Column t) \<and> upper (Column t) \<notin> set reservedWords \<and> base_type (CType t) \<in> set supportedTypes"
    using valid_name by (auto simp: validateColumnType_def split: if_splits)
  then show ?thesis
    using ai scale size_range [OF p(1)] precision_range [OF p(1)] scale_range [OF p(1)] default_param [OF p(1)]
    unfolding p(2) by auto
qed

definition size_field :: field where
  "size_field = \<lparr>fname = ''UserName'', exported = True, ftype = GBasic KString,
     orm = ''size:64; not_null'', pgname = [], pgtype = [], primarykey = []\<rparr>"

lemma size_field_params: "parseTagParameters (orm size_field) = Inr [''size'' \<mapsto> ''64'', ''not_null'' \<mapsto> ''true'']"
  by (simp add: parseTagParameters_def size_field_def parse_part_def split_colon_def trim_space_def trim_left_def is_space_def
      validator_def validateSize_def parse_int_def is_digit_def digit_val_def)

lemma size_field_parsed:
  "\<exists>t. ParseTag size_field = Inr (Some t) \<and> Column t = ''user_name'' \<and> CType t = ''VARCHAR(64)'' \<and> IsNotNull t \<and> CSize t = 64"
proof -
  have name: "ToUnderScore ''UserName'' = ''user_name''"
    by (simp add: ToUnderScore_def abbrCommonReplace_def pairs_eval is_case_def char_eval)
  have num: "itoa 64 = ''64''" "parse_int ''64'' = Inr 64"
    by (simp_all add: itoa_def show_nat.simps [of 64] show_nat.simps [of 6] digit_def char_eval
        parse_int_def digit_val_def)
  let ?t = "tag_of_params size_field [''size'' \<mapsto> ''64'', ''not_null'' \<mapsto> ''true'']"
  have t: "Column ?t = ''user_name''" "CType ?t = ''VARCHAR(64)''" "IsNotNull ?t" "CSize ?t = 64"
    "Scale ?t = 0" "\<not> IsAutoIncr ?t"
    by (simp_all add: tag_of_params_def str_param_def hasFlag_def int_param_def inferTypeFromField_def
        name num size_field_def Let_def)
  have "validateColumnName ''user_name'' = None" "validateColumnType ''VARCHAR(64)'' = None"
    by (simp_all add: validateColumnName_def validateColumnType_def ident_char_def ident_start_def
        upper_def reservedWords_def supportedTypes_def base_type_def trim_suffix_def char_eval)
  with t have "validateColumnTag ?t = None" by (simp add: validateColumnTag_def)
  then have "ParseTag size_field = Inr (Some ?t)"
    by (simp add: ParseTag_def size_field_params Let_def) (simp add: size_field_def)
  with t show ?thesis by blast
qed

theorem ParseTag_sound_witness:
  "\<exists>t. ParseTag size_field = Inr (Some t) \<and> CSize t \<le> 65535 \<and> base_type (CType t) \<in> set supportedTypes"
proof -
  obtain t where t: "ParseTag size_field = Inr (Some t)" using size_field_parsed by blast
  have "orm size_field \<noteq> []" by (simp add: size_field_def)
  from ParseTag_sound [OF t this] t show ?thesis by blast
qed

text \<open>The pieces of a definition and their semicolons.\<close>

lemma itoa_chars: "c \<in> set (itoa i) \<Longrightarrow> is_digit c \<or> c = CHR ''-''"
  using show_nat_digits by (auto simp: itoa_def split: if_splits)

lemma semicolon_no_digit [simp]: "\<not> is_digit CHR '';''"
  by (simp add: is_digit_def)

lemma itoa_no_semicolon [simp]: "CHR '';'' \<notin> set (itoa i)"
  using itoa_chars [of "CHR '';''" i] by auto

lemma inferred_no_semicolon: "CHR '';'' \<notin> set (inferTypeFromField f t)"
  by (auto simp: inferTypeFromField_def Let_def split: gotype.splits)

lemma column_type_no_semicolon: "CHR '';'' \<notin> set (CType t) \<Longrightarrow> CHR '';'' \<notin> set (column_type t)"
  by (simp add: column_type_def sized_type_def Let_def)

lemma join_absent: "c \<notin> set sep \<Longrightarrow> \<forall>p \<in> set ps. c \<notin> set p \<Longrightarrow> c \<notin> set (join sep ps)"
  by (induction sep ps rule: join.induct) auto

lemma tag_type_no_semicolon:
  assumes "params_ok ps"
  shows "CHR '';'' \<notin> set (CType (tag_of_params f ps))"
proof -
  have "CHR '';'' \<notin> set (str_param ps ''type'')"
    using assms by (auto simp: str_param_def params_ok_def split: option.splits)
  then show ?thesis using inferred_no_semicolon by (auto simp: tag_of_params_def Let_def)
qed

text \<open>C24: The SQL definition that \<open>BuildColumnDefinition\<close> makes of a column from an \<open>orm\<close> tag begins with
  the column name between double quotes, which has no quote in it, and the definition contains no
  semicolon, so the statement it is put into cannot be ended by it.
\<close>

theorem column_definition_stays_in_statement:
  assumes "ParseTag f = Inr (Some t)" and "orm f \<noteq> []"
  shows "CHR '';'' \<notin> set (BuildColumnDefinition t)
       \<and> CHR 0x22 \<notin> set (Column t)
       \<and> (\<exists>rest. BuildColumnDefinition t = [CHR 0x22] @ Column t @ [CHR 0x22] @ '' '' @ column_type t @ rest)"
proof -
  from assms obtain params where p: "params_ok params" "t = tag_of_params f params" and v: "validateColumnTag t = None"
    by (rule ParseTag_orm)
  have id: "is_identifier (Column t)"
    using v valid_name by (auto simp: validateColumnTag_def split: option.splits)
  then have col: "CHR '';'' \<notin> set (Column t)" "CHR 0x22 \<notin> set (Column t)"
    using identifier_chars [OF id, of "CHR '';''"] identifier_chars [OF id, of "CHR 0x22"]
    by (auto simp: ident_char_def ident_start_def is_lower_def is_upper_def is_digit_def)
  have "CHR '';'' \<notin> set (DefaultValue t)"
    using p by (auto simp: str_param_def params_ok_def split: option.splits)
  moreover have "CHR '';'' \<notin> set (column_type t)"
    using tag_type_no_semicolon [OF p(1)] p(2) by (simp add: column_type_no_semicolon)
  ultimately have "CHR '';'' \<notin> set (BuildColumnDefinition t)"
    unfolding BuildColumnDefinition_def
    by (intro join_absent) (auto simp: quoted_def col)
  moreover have "\<exists>rest. join '' '' ([a, b] @ xs) = a @ '' '' @ b @ rest" for a b xs
    by (cases xs) simp_all
  then have "\<exists>rest. BuildColumnDefinition t = quoted (Column t) @ '' '' @ column_type t @ rest"
    unfolding BuildColumnDefinition_def by (simp only: append_assoc)
  ultimately show ?thesis using col(2) by (simp add: quoted_def)
qed

theorem column_definition_stays_in_statement_witness:
  "\<exists>t. ParseTag size_field = Inr (Some t) \<and> CHR '';'' \<notin> set (BuildColumnDefinition t)"
proof -
  obtain t where t: "ParseTag size_field = Inr (Some t)" using size_field_parsed by blast
  have "orm size_field \<noteq> []" by (simp add: size_field_def)
  from column_definition_stays_in_statement [OF t this] t show ?thesis by blast
qed

lemma join_starts: "\<exists>pre post. join '' '' ([a, b] @ xs) = pre @ b @ post"
proof -
  have "\<exists>post. join '' '' ([a, b] @ xs) = (a @ '' '') @ b @ post" by (cases xs) simp_all
  then show ?thesis by blast
qed

text \<open>What the code does not promise: everything from the first parenthesis of a type on is dropped before
  the type is looked up, so an accepted type may end in any text, and that text reaches the statement.\<close>

theorem type_suffix_is_not_checked:
  "validateColumnType (''TEXT('' @ rest) = None
   \<and> (\<exists>pre post. BuildColumnDefinition (t\<lparr>CType := ''TEXT('' @ rest\<rparr>) = pre @ ''TEXT('' @ rest @ post)"
proof
  have up: "upper (''TEXT('' @ r) = ''TEXT('' @ upper r" for r
    by (simp add: upper_def char_eval)
  then have "base_type (''TEXT('' @ rest) = ''TEXT''"
    unfolding base_type_def by (simp add: trim_suffix_def)
  then show "validateColumnType (''TEXT('' @ rest) = None"
    unfolding validateColumnType_def by (simp add: supportedTypes_def)
  let ?t = "t\<lparr>CType := ''TEXT('' @ rest\<rparr>"
  have "column_type ?t = ''TEXT('' @ rest"
    using up [of rest] by (simp add: column_type_def sized_type_def Let_def)
  then show "\<exists>pre post. BuildColumnDefinition ?t = pre @ ''TEXT('' @ rest @ post"
    using join_starts [of "quoted (Column ?t)" "''TEXT('' @ rest"]
    unfolding BuildColumnDefinition_def by (simp only: append_assoc)
qed

end
