(* ===== verification/Calendar.thy ===== *)
theory Calendar
  imports Prelude
begin

text \<open>
  The calendar of the package \<open>time\<close>, as far as \<open>xtime\<close> uses it: the proleptic Gregorian calendar on
  days counted from Monday, 1 January of year 1 (the zero \<open>time.Time\<close>), with the normalisation of
  months and days that \<open>time.Date\<close> documents, and locations with their offset transitions.
\<close>

section \<open>Years\<close>

definition is_leap :: "int \<Rightarrow> bool" where
  "is_leap y \<longleftrightarrow> y mod 4 = 0 \<and> (y mod 100 \<noteq> 0 \<or> y mod 400 = 0)"

definition year_days :: "int \<Rightarrow> int" where
  "year_days y = (if is_leap y then 366 else 365)"

text \<open>The day of 1 January.\<close>

definition year_start :: "int \<Rightarrow> int" where
  "year_start y = 365 * (y - 1) + (y - 1) div 4 - (y - 1) div 100 + (y - 1) div 400"

text \<open>The year of a day, by an estimate that is at most one off.\<close>

definition year_of :: "int \<Rightarrow> int" where
  "year_of n = (let y = (400 * n) div 146097 + 1
     in if n < year_start y then y - 1 else if year_start (y + 1) \<le> n then y + 1 else y)"

lemma div_pred: "0 < k \<Longrightarrow> y div k = (y - 1) div k + (if y mod k = 0 then 1 else 0)" for y k :: int
proof -
  assume k: "0 < k"
  define q r where "q = y div k" and "r = y mod k"
  have y: "y = k * q + r" "0 \<le> r" "r < k" using k by (simp_all add: q_def r_def)
  show ?thesis
  proof (cases "r = 0")
    case True
    then have "(y - 1) div k = q - 1"
      using y k by (intro int_div_pos_eq [where r = "k - 1"]) (simp_all add: algebra_simps)
    then show ?thesis using True by (simp add: q_def r_def)
  next
    case False
    then have "(y - 1) div k = q" using y by (intro int_div_pos_eq [where r = "r - 1"]) simp_all
    then show ?thesis using False by (simp add: q_def r_def)
  qed
qed

lemma year_start_Suc: "year_start (y + 1) = year_start y + year_days y"
proof -
  have m: "(y mod 100 = 0 \<longrightarrow> y mod 4 = 0) \<and> (y mod 400 = 0 \<longrightarrow> y mod 100 = 0)"
    using dvd_trans [of 4 100 y] dvd_trans [of 100 400 y] by (simp add: dvd_eq_mod_eq_0)
  have "year_start (y + 1) = 365 * y + y div 4 - y div 100 + y div 400"
    "year_start y = 365 * y - 365 + (y - 1) div 4 - (y - 1) div 100 + (y - 1) div 400"
    by (simp_all add: year_start_def)
  note ends = this
  have "s1 = s0 + (if p \<and> (\<not> q \<or> r) then 366 else 365)"
    if "a' = a + (if p then 1 else 0)" "b' = b + (if q then 1 else 0)" "c' = c + (if r then 1 else 0)"
      "(q \<longrightarrow> p) \<and> (r \<longrightarrow> q)" "s1 = 365 * y + a' - b' + c'" "s0 = 365 * y - 365 + a - b + c"
    for a a' b b' c c' s0 s1 :: int and p q r
    using that by (cases p; cases q; cases r; simp only: if_True if_False simp_thms; linarith)
  from this [OF div_pred div_pred div_pred _ ends] show ?thesis
    using m unfolding year_days_def is_leap_def by simp
qed

lemma year_days_bounds: "365 \<le> year_days y" "year_days y \<le> 366"
  by (simp_all add: year_days_def)

lemma year_start_mono: "x \<le> y \<Longrightarrow> year_start x \<le> year_start y"
proof (induction y rule: int_ge_induct)
  case (step y)
  then show ?case using year_start_Suc [of y] year_days_bounds [of y] by simp
qed simp

lemma year_of_bounds: "year_start (year_of n) \<le> n \<and> n < year_start (year_of n + 1)"
proof -
  define y where "y = (400 * n) div 146097 + 1"
  have e: "146097 * (y - 1) \<le> 400 * n" "400 * n < 146097 * (y - 1) + 146097"
    by (simp_all add: y_def)
  have b: "4 * (x div 4) \<le> x" "x < 4 * (x div 4) + 4" "100 * (x div 100) \<le> x" "x < 100 * (x div 100) + 100"
    "400 * (x div 400) \<le> x" "x < 400 * (x div 400) + 400" for x :: int by linarith+
  have lo: "365 * (y - 2) + p - q + r \<le> n" if "4 * p \<le> y - 2" "y - 2 < 100 * q + 100" "400 * r \<le> y - 2" for p q r
    using e that by (simp add: algebra_simps)
  have hi: "n < 365 * (y + 1) + p - q + r" if "y + 1 < 4 * p + 4" "100 * q \<le> y + 1" "y + 1 < 400 * r + 400" for p q r
    using e that by (simp add: algebra_simps)
  have "year_start (y - 1) \<le> n" using lo [OF b(1,4,5)] by (simp add: year_start_def)
  moreover have "n < year_start (y + 2)" using hi [OF b(2,3,6)] by (simp add: year_start_def add.commute)
  ultimately show ?thesis unfolding year_of_def Let_def y_def [symmetric] by (auto simp: algebra_simps)
qed

lemma year_of_unique:
  assumes "year_start y \<le> n" and "n < year_start (y + 1)"
  shows "year_of n = y"
proof (rule ccontr)
  assume "year_of n \<noteq> y"
  then consider "year_of n + 1 \<le> y" | "y + 1 \<le> year_of n" by linarith
  then show False
    using year_of_bounds [of n] assms year_start_mono [of "year_of n + 1" y] year_start_mono [of "y + 1" "year_of n"]
    by cases linarith+
qed

section \<open>Months\<close>

text \<open>The first day of a month within its year, months counted from 0; number 12 is the next year.\<close>

definition month_start :: "bool \<Rightarrow> int \<Rightarrow> int" where
  "month_start leap i = (let l = if leap then 1 else 0 in
     if i \<le> 0 then 0 else if i = 1 then 31 else if i = 2 then 59 + l else if i = 3 then 90 + l
     else if i = 4 then 120 + l else if i = 5 then 151 + l else if i = 6 then 181 + l
     else if i = 7 then 212 + l else if i = 8 then 243 + l else if i = 9 then 273 + l
     else if i = 10 then 304 + l else if i = 11 then 334 + l else 365 + l)"

text \<open>The last month that starts on the day of the year or before it.\<close>

fun month_search :: "bool \<Rightarrow> int \<Rightarrow> nat \<Rightarrow> int" where
  "month_search leap yday 0 = 0"
| "month_search leap yday (Suc k) =
     (if month_start leap (1 + int k) \<le> yday then 1 + int k else month_search leap yday k)"

definition month_index :: "bool \<Rightarrow> int \<Rightarrow> int" where
  "month_index leap yday = month_search leap yday 11"

lemma month_search_bounds:
  "0 \<le> yday \<Longrightarrow> yday < month_start leap (int k + 1) \<Longrightarrow>
     0 \<le> month_search leap yday k \<and> month_search leap yday k \<le> int k
     \<and> month_start leap (month_search leap yday k) \<le> yday \<and> yday < month_start leap (month_search leap yday k + 1)"
proof (induction k)
  case 0
  then show ?case by (simp add: month_start_def [of leap 0])
next
  case (Suc k)
  then show ?case by (cases "month_start leap (1 + int k) \<le> yday") (simp_all add: add.commute)
qed

lemma month_index_bounds:
  assumes "0 \<le> yday" and "yday < month_start leap 12"
  shows "0 \<le> month_index leap yday" "month_index leap yday \<le> 11"
    "month_start leap (month_index leap yday) \<le> yday" "yday < month_start leap (month_index leap yday + 1)"
  using month_search_bounds [of yday leap 11] assms by (simp_all add: month_index_def)

lemma months: "[0..11 :: int] = [0, 1, 2, 3, 4, 5, 6, 7, 8, 9, 10, 11]"
  by (simp add: upto.simps)

lemma month_start_Suc:
  shows "0 \<le> i \<Longrightarrow> i \<le> 11 \<Longrightarrow> month_start leap i < month_start leap (i + 1)"
    and "month_start leap i \<le> month_start leap (i + 1)"
proof -
  show less: "month_start leap i < month_start leap (i + 1)" if "0 \<le> i" "i \<le> 11"
  proof -
    from that have "i \<in> set [0..11]" by (simp only: set_upto atLeastAtMost_iff simp_thms)
    then have "i = 0 \<or> i = 1 \<or> i = 2 \<or> i = 3 \<or> i = 4 \<or> i = 5 \<or> i = 6 \<or> i = 7 \<or> i = 8 \<or> i = 9 \<or> i = 10 \<or> i = 11"
      unfolding months list.set insert_iff empty_iff by blast
    then show ?thesis by (elim disjE) (simp_all add: month_start_def)
  qed
  show "month_start leap i \<le> month_start leap (i + 1)"
    using less by (cases "0 \<le> i \<and> i \<le> 11") (auto simp: month_start_def)
qed

lemma month_start_mono: "i \<le> j \<Longrightarrow> month_start leap i \<le> month_start leap j"
proof (induction j rule: int_ge_induct)
  case (step j)
  then show ?case using month_start_Suc(2) [of leap j] by simp
qed simp

lemma month_index_unique:
  assumes "0 \<le> i" and "i \<le> 11" and "month_start leap i \<le> yday" and "yday < month_start leap (i + 1)"
  shows "month_index leap yday = i"
proof (rule ccontr)
  have "0 \<le> yday" "yday < month_start leap 12"
    using assms month_start_mono [of 0 i leap] month_start_mono [of "i + 1" 12 leap]
    by (auto simp: month_start_def [of leap 0])
  note b = month_index_bounds [OF this]
  assume "month_index leap yday \<noteq> i"
  then consider "month_index leap yday + 1 \<le> i" | "i + 1 \<le> month_index leap yday" by linarith
  then show False
    using b assms month_start_mono [of "month_index leap yday + 1" i leap]
      month_start_mono [of "i + 1" "month_index leap yday" leap] by cases linarith+
qed

section \<open>Dates\<close>

text \<open>\<open>t.Date()\<close> of a day: year, month (1 to 12) and day of the month (from 1).\<close>

definition date_of :: "int \<Rightarrow> int \<times> int \<times> int" where
  "date_of n = (let y = year_of n; yday = n - year_start y; i = month_index (is_leap y) yday
     in (y, i + 1, yday - month_start (is_leap y) i + 1))"

text \<open>The day that \<open>time.Date\<close> gives for a year, month and day, which need not be in range.\<close>

definition day_of :: "int \<Rightarrow> int \<Rightarrow> int \<Rightarrow> int" where
  "day_of y m d = (let y' = y + (m - 1) div 12; i = (m - 1) mod 12
     in year_start y' + month_start (is_leap y') i + (d - 1))"

lemma month_start_12: "month_start (is_leap y) 12 = year_days y"
  by (simp add: month_start_def year_days_def)

lemma date_of_parts:
  assumes "date_of n = (y, m, d)"
  shows "1 \<le> m" "m \<le> 12" "1 \<le> d" "day_of y m d = n" "n < day_of y (m + 1) 1"
proof -
  define i where "i = month_index (is_leap (year_of n)) (n - year_start (year_of n))"
  have p: "y = year_of n" "m = i + 1" "d = n - year_start y - month_start (is_leap y) i + 1"
    using assms by (auto simp: date_of_def i_def Let_def)
  have "0 \<le> n - year_start (year_of n)" "n - year_start (year_of n) < month_start (is_leap (year_of n)) 12"
    using year_of_bounds [of n] year_start_Suc [of "year_of n"] by (auto simp: month_start_12)
  note b = month_index_bounds [OF this, folded i_def]
  show "1 \<le> m" "m \<le> 12" "1 \<le> d" using b p by auto
  show "day_of y m d = n" using b p by (simp add: day_of_def)
  show "n < day_of y (m + 1) 1"
  proof (cases "i = 11")
    case True
    then have "day_of y (m + 1) 1 = year_start (y + 1)"
      using p by (simp add: day_of_def month_start_def)
    then show ?thesis using year_of_bounds [of n] p by simp
  next
    case False
    then have "day_of y (m + 1) 1 = year_start y + month_start (is_leap y) (i + 1)"
      using b(1,2) p by (simp add: day_of_def Let_def add.commute)
    then show ?thesis using b(4) p(1) by simp
  qed
qed

lemma day_of_date_of: "date_of n = (y, m, d) \<Longrightarrow> day_of y m d = n"
  by (rule date_of_parts(4))

lemma day_of_add: "day_of y m (d + k) = day_of y m d + k"
  by (simp add: day_of_def Let_def)

lemma date_of_day_of:
  assumes "1 \<le> m" and "m \<le> 12" and "1 \<le> d" and "day_of y m d < day_of y (m + 1) 1"
  shows "date_of (day_of y m d) = (y, m, d)"
proof -
  let ?s = "month_start (is_leap y)"
  have n: "day_of y m d = year_start y + ?s (m - 1) + (d - 1)" using assms by (simp add: day_of_def)
  have e: "year_start y + ?s (m - 1) + (d - 1) < year_start y + ?s m"
  proof (cases "m = 12")
    case True
    then have "day_of y (m + 1) 1 = year_start (y + 1)" by (simp add: day_of_def month_start_def)
    then show ?thesis using assms(4) n True year_start_Suc [of y] by (simp add: month_start_12)
  next
    case False
    then show ?thesis using assms n by (simp add: day_of_def)
  qed
  have "0 \<le> ?s (m - 1)" using month_start_mono [of 0 "m - 1"] assms by (simp add: month_start_def [of _ 0])
  moreover have "?s m \<le> ?s 12" using month_start_mono assms by simp
  ultimately have y: "year_of (day_of y m d) = y"
    using year_of_unique [of y "day_of y m d"] assms(3) e n year_start_Suc [of y] by (simp add: month_start_12)
  have "month_index (is_leap y) (day_of y m d - year_start y) = m - 1"
    using month_index_unique [of "m - 1" "is_leap y"] e n assms by simp
  with y n show ?thesis by (simp add: date_of_def)
qed

lemma day_of_month_less: "day_of y m 1 < day_of y (m + 1) 1"
proof -
  let ?y = "y + (m - 1) div 12" and ?i = "(m - 1) mod 12"
  have i: "0 \<le> ?i" "?i \<le> 11" by (simp, presburger)
  have this_month: "day_of y m 1 = year_start ?y + month_start (is_leap ?y) ?i" by (simp add: day_of_def Let_def)
  have next_month: "day_of y (m + 1) 1 = year_start (y + m div 12) + month_start (is_leap (y + m div 12)) (m mod 12)"
    by (simp add: day_of_def Let_def)
  show ?thesis
  proof (cases "?i = 11")
    case True
    then have "m div 12 = (m - 1) div 12 + 1 \<and> m mod 12 = 0" by presburger
    then have "day_of y (m + 1) 1 = year_start (?y + 1)" unfolding next_month by (simp add: month_start_def add.assoc)
    moreover have "day_of y m 1 \<le> year_start ?y + 335" using True unfolding this_month by (simp add: month_start_def)
    ultimately show ?thesis using year_start_Suc [of ?y] year_days_bounds [of ?y] by linarith
  next
    case False
    then have "m = 12 * ((m - 1) div 12) + (?i + 1)" "0 \<le> ?i + 1" "?i + 1 < 12"
      using i mult_div_mod_eq [of 12 "m - 1"] by linarith+
    then have e: "m div 12 = (m - 1) div 12" "m mod 12 = ?i + 1"
      by (rule int_div_pos_eq, rule int_mod_pos_eq)
    then have "day_of y (m + 1) 1 = year_start ?y + month_start (is_leap ?y) (?i + 1)" by (simp only: next_month e)
    then show ?thesis using month_start_Suc(1) [OF i, of "is_leap ?y"] this_month by linarith
  qed
qed

lemma date_of_first: "1 \<le> m \<Longrightarrow> m \<le> 12 \<Longrightarrow> date_of (day_of y m 1) = (y, m, 1)"
  using date_of_day_of [of m 1 y] day_of_month_less by simp

text \<open>Between the firsts of two months there is no other first.\<close>

lemma no_first_between:
  assumes "1 \<le> m" and "m \<le> 12" and "day_of y m 1 < n" and "n < day_of y (m + 1) 1"
  shows "snd (snd (date_of n)) \<noteq> 1"
proof -
  have "n = day_of y m (n - day_of y m 1 + 1)" using day_of_add [of y m 1 "n - day_of y m 1"] by (simp add: algebra_simps)
  then have "date_of n = (y, m, n - day_of y m 1 + 1)"
    using date_of_day_of [of m "n - day_of y m 1 + 1" y] assms by simp
  then show ?thesis using assms(3) by simp
qed

text \<open>\<open>t.Weekday()\<close> of a day, Sunday being 0.\<close>

definition weekday_of :: "int \<Rightarrow> int" where
  "weekday_of n = (n + 1) mod 7"

section \<open>Locations\<close>

text \<open>
  An offset in seconds east of UTC before the first transition, and the transitions in order: the
  second (UTC, from the start of year 1) and the offset from then on.
\<close>

datatype location = Location int "(int \<times> int) list"

abbreviation UTC :: location where "UTC \<equiv> Location 0 []"

text \<open>\<open>Location.lookup\<close>: the offset at a second, and the start and end of its validity.\<close>

fun lookup_from :: "int \<Rightarrow> int option \<Rightarrow> (int \<times> int) list \<Rightarrow> int \<Rightarrow> int \<times> int option \<times> int option" where
  "lookup_from off start [] sec = (off, start, None)"
| "lookup_from off start ((at, off') # ts) sec =
     (if sec < at then (off, start, Some at) else lookup_from off' (Some at) ts sec)"

fun zone_lookup :: "location \<Rightarrow> int \<Rightarrow> int \<times> int option \<times> int option" where
  "zone_lookup (Location off ts) sec = lookup_from off None ts sec"

definition zone_offset :: "location \<Rightarrow> int \<Rightarrow> int" where
  "zone_offset l sec = fst (zone_lookup l sec)"

text \<open>
  The end of \<open>time.Date\<close>: the second of a local time. The offset is looked up as if the local time
  were UTC, and again when the result is outside the validity of that offset.
\<close>

definition local_to_utc :: "location \<Rightarrow> int \<Rightarrow> int" where
  "local_to_utc l s = (case zone_lookup l s of (off, start, stop) \<Rightarrow>
     if off = 0 then s
     else let utc = s - off in
       if (case start of None \<Rightarrow> False | Some a \<Rightarrow> utc < a) \<or> (case stop of None \<Rightarrow> False | Some b \<Rightarrow> b \<le> utc)
       then s - zone_offset l utc else utc)"

lemma fixed_zone [simp]:
  "zone_offset (Location off []) s = off"
  "local_to_utc (Location off []) s = s - off"
  by (simp_all add: zone_offset_def local_to_utc_def)

end
