(* ===== verification/Time_Model.thy ===== *)
theory Time_Model
  imports Calendar
begin

text \<open>
  The time periods of \<open>xtime/time.go\<close>: the starts of days, weeks and months and the next daily,
  weekly and monthly times, on the model of the package \<open>time\<close> in \<open>Calendar\<close>. An instant is a number
  of nanoseconds from the zero \<open>time.Time\<close>; a \<open>Duration\<close> is an \<open>int64\<close>, so negating one wraps.
\<close>

section \<open>Instants\<close>

record gotime =
  ns :: int
  zone :: location

definition second_ns :: int where "second_ns = 10 ^ 9"
definition day_secs :: int where "day_secs = 86400"
definition day_ns :: int where "day_ns = day_secs * second_ns"

definition zero_time :: gotime where
  "zero_time = \<lparr>ns = 0, zone = UTC\<rparr>"

text \<open>The second of the local clock, and with it the day (\<open>t.Date\<close>) and the second of the day (\<open>t.Clock\<close>).\<close>

definition local_sec :: "gotime \<Rightarrow> int" where
  "local_sec t = (let s = ns t div second_ns in s + zone_offset (zone t) s)"

definition local_day :: "gotime \<Rightarrow> int" where
  "local_day t = local_sec t div day_secs"

text \<open>\<open>time.Date\<close>, the time of the day given in seconds and nanoseconds.\<close>

definition time_Date :: "int \<Rightarrow> int \<Rightarrow> int \<Rightarrow> int \<Rightarrow> int \<Rightarrow> location \<Rightarrow> gotime" where
  "time_Date y m d sec nsec l =
     \<lparr>ns = local_to_utc l (day_of y m d * day_secs + sec) * second_ns + nsec, zone = l\<rparr>"

definition time_Add :: "gotime \<Rightarrow> int \<Rightarrow> gotime" where
  "time_Add t d = t\<lparr>ns := ns t + d\<rparr>"

definition AddDate :: "gotime \<Rightarrow> int \<Rightarrow> int \<Rightarrow> int \<Rightarrow> gotime" where
  "AddDate t years months days = (case date_of (local_day t) of (y, m, d) \<Rightarrow>
     time_Date (y + years) (m + months) (d + days) (local_sec t mod day_secs) (ns t mod second_ns) (zone t))"

section \<open>Timestamps and locations\<close>

text \<open>1 January 1970.\<close>

definition unix_epoch :: int where
  "unix_epoch = day_of 1970 1 1 * day_secs"

definition Time :: "int \<Rightarrow> gotime" where
  "Time timestamp =
     (if timestamp = 0 then zero_time else \<lparr>ns = (unix_epoch + timestamp) * second_ns, zone = UTC\<rparr>)"

text \<open>\<open>time.LoadLocation\<close> is a parameter; a name it does not know is an error.\<close>

definition InTimezone :: "(string \<Rightarrow> location option) \<Rightarrow> gotime \<Rightarrow> string \<Rightarrow> gotime option" where
  "InTimezone load t tz = (case load tz of None \<Rightarrow> None | Some l \<Rightarrow> Some (t\<lparr>zone := l\<rparr>))"

definition GetLocation :: "location option \<Rightarrow> location" where
  "GetLocation v = (case v of None \<Rightarrow> UTC | Some l \<Rightarrow> l)"

section \<open>Periods\<close>

definition StartOfDay :: "gotime \<Rightarrow> gotime" where
  "StartOfDay t = (case date_of (local_day t) of (y, m, d) \<Rightarrow> time_Date y m d 0 0 (zone t))"

definition StartOfWeek :: "gotime \<Rightarrow> gotime" where
  "StartOfWeek t =
     (let w = weekday_of (local_day t);
          weekday = (if w = 0 then 7 else w);
          daysToSubtract = weekday - 1
      in StartOfDay (AddDate t 0 0 (- daysToSubtract)))"

definition StartOfMonth :: "gotime \<Rightarrow> gotime" where
  "StartOfMonth t = (case date_of (local_day t) of (y, m, _) \<Rightarrow> time_Date y m 1 0 0 (zone t))"

definition NextDailyTime :: "gotime \<Rightarrow> int \<Rightarrow> gotime" where
  "NextDailyTime t delay = time_Add (AddDate (StartOfDay (time_Add t (wrap64 (- delay)))) 0 0 1) delay"

definition NextWeeklyTime :: "gotime \<Rightarrow> int \<Rightarrow> gotime" where
  "NextWeeklyTime t delay = time_Add (AddDate (StartOfWeek (time_Add t (wrap64 (- delay)))) 0 0 7) delay"

definition NextMonthlyTime :: "gotime \<Rightarrow> int \<Rightarrow> gotime" where
  "NextMonthlyTime t delay = time_Add (AddDate (StartOfMonth (time_Add t (wrap64 (- delay)))) 0 1 0) delay"

section \<open>Locations with one offset\<close>

text \<open>The local clock in nanoseconds, and the instant of a local midnight.\<close>

definition local_ns :: "int \<Rightarrow> int \<Rightarrow> int" where
  "local_ns off x = x + off * second_ns"

definition midnight_of :: "int \<Rightarrow> int \<Rightarrow> gotime" where
  "midnight_of off n = \<lparr>ns = n * day_ns - off * second_ns, zone = Location off []\<rparr>"

lemma units_pos: "0 < second_ns" "0 < day_secs" "0 < day_ns"
  by (simp_all add: second_ns_def day_secs_def day_ns_def)

lemma local_day_fixed: "zone t = Location off [] \<Longrightarrow> local_day t = local_ns off (ns t) div day_ns"
proof -
  assume z: "zone t = Location off []"
  have "local_ns off (ns t) div day_ns = (ns t + off * second_ns) div second_ns div day_secs"
    using units_pos by (simp add: local_ns_def day_ns_def zdiv_zmult2_eq mult.commute [of day_secs])
  also have "(ns t + off * second_ns) div second_ns = ns t div second_ns + off"
    using units_pos by simp
  finally show ?thesis using z by (simp add: local_day_def local_sec_def Let_def)
qed

lemma midnight_of_simps [simp]:
  "zone (midnight_of off n) = Location off []"
  "local_day (midnight_of off n) = n"
  "local_sec (midnight_of off n) mod day_secs = 0"
  "ns (midnight_of off n) mod second_ns = 0"
proof -
  have e: "n * day_ns - off * second_ns = (n * day_secs - off) * second_ns"
    by (simp add: day_ns_def algebra_simps)
  show "ns (midnight_of off n) mod second_ns = 0" by (simp add: midnight_of_def e)
  have "local_sec (midnight_of off n) = n * day_secs"
    using units_pos by (simp add: local_sec_def midnight_of_def e Let_def)
  then show "local_day (midnight_of off n) = n" "local_sec (midnight_of off n) mod day_secs = 0"
    using units_pos by (simp_all add: local_day_def)
qed (simp add: midnight_of_def)

lemma time_Date_fixed: "time_Date y m d 0 0 (Location off []) = midnight_of off (day_of y m d)"
  by (simp add: time_Date_def midnight_of_def day_ns_def algebra_simps)

lemma StartOfDay_fixed:
  assumes "zone t = Location off []"
  shows "StartOfDay t = midnight_of off (local_ns off (ns t) div day_ns)"
  using day_of_date_of [of "local_day t"] assms
  by (cases "date_of (local_day t)") (simp add: StartOfDay_def time_Date_fixed local_day_fixed)

lemma AddDate_days: "AddDate (midnight_of off n) 0 0 k = midnight_of off (n + k)"
  using day_of_date_of [of n] by (cases "date_of n") (simp add: AddDate_def time_Date_fixed day_of_add)

lemma StartOfWeek_fixed:
  assumes z: "zone t = Location off []"
  shows "StartOfWeek t = midnight_of off (local_ns off (ns t) div day_ns - (local_ns off (ns t) div day_ns) mod 7)"
proof -
  let ?n = "local_day t"
  have e: "(if weekday_of ?n = 0 then 7 else weekday_of ?n) - 1 = ?n mod 7"
    unfolding weekday_of_def by (auto, presburger+)
  have s: "StartOfWeek t = StartOfDay (AddDate t 0 0 (- (?n mod 7)))" unfolding StartOfWeek_def Let_def e ..
  obtain y m d where d: "date_of ?n = (y, m, d)" by (metis prod_cases3)
  let ?u = "AddDate t 0 0 (- (?n mod 7))"
  have u: "zone ?u = Location off []" and
    ns: "ns ?u = ((?n - ?n mod 7) * day_secs + local_sec t mod day_secs - off) * second_ns + ns t mod second_ns"
    using z d day_of_date_of [OF d] day_of_add [of y m d "- (?n mod 7)"] by (simp_all add: AddDate_def time_Date_def)
  let ?e = "((?n - ?n mod 7) * day_secs + local_sec t mod day_secs) * second_ns + ns t mod second_ns"
  have "local_ns off (ns ?u) = ?e" by (simp add: local_ns_def ns algebra_simps)
  moreover have "?e div day_ns = ?e div second_ns div day_secs"
    using units_pos by (simp add: day_ns_def zdiv_zmult2_eq mult.commute [of day_secs])
  moreover have "\<dots> = ?n - ?n mod 7" using units_pos by simp
  ultimately have "local_ns off (ns ?u) div day_ns = ?n - ?n mod 7" by simp
  with s show ?thesis using StartOfDay_fixed [OF u] local_day_fixed [OF z] by simp
qed

lemma StartOfMonth_fixed:
  assumes "zone t = Location off []" and "date_of (local_ns off (ns t) div day_ns) = (y, m, d)"
  shows "StartOfMonth t = midnight_of off (day_of y m 1)"
  using assms by (simp add: StartOfMonth_def time_Date_fixed local_day_fixed)

lemma AddDate_month: "1 \<le> m \<Longrightarrow> m \<le> 12 \<Longrightarrow> AddDate (midnight_of off (day_of y m 1)) 0 1 0 = midnight_of off (day_of y (m + 1) 1)"
  by (simp add: AddDate_def date_of_first time_Date_fixed)

section \<open>The next time of a kind\<close>

text \<open>The specification: the first instant after \<open>t\<close> with a property.\<close>

definition next_instant :: "(int \<Rightarrow> bool) \<Rightarrow> int \<Rightarrow> int \<Rightarrow> bool" where
  "next_instant P t r \<longleftrightarrow> t < r \<and> P r \<and> (\<forall>x. t < x \<longrightarrow> x < r \<longrightarrow> \<not> P x)"

text \<open>Instants at which a local day, a week (Monday) or a month begins.\<close>

definition day_begins :: "int \<Rightarrow> int \<Rightarrow> bool" where
  "day_begins off x \<longleftrightarrow> local_ns off x mod day_ns = 0"

definition week_begins :: "int \<Rightarrow> int \<Rightarrow> bool" where
  "week_begins off x \<longleftrightarrow> day_begins off x \<and> weekday_of (local_ns off x div day_ns) = 1"

definition month_begins :: "int \<Rightarrow> int \<Rightarrow> bool" where
  "month_begins off x \<longleftrightarrow> day_begins off x \<and> snd (snd (date_of (local_ns off x div day_ns))) = 1"

lemma div_less_mult: "0 < b \<Longrightarrow> a div b < n \<longleftrightarrow> a < n * b" for a b n :: int
proof -
  assume b: "0 < b"
  have a: "a = a div b * b + a mod b" "0 \<le> a mod b" "a mod b < b" using b by simp_all
  show ?thesis
  proof
    assume "a div b < n"
    then have "(a div b + 1) * b \<le> n * b" using b by (intro mult_right_mono) simp_all
    then have "a div b * b + b \<le> n * b" by (simp add: distrib_right)
    with a show "a < n * b" by linarith
  next
    assume "a < n * b"
    then have "a div b * b < n * b" using a by linarith
    then show "a div b < n" using b by (simp add: mult_less_cancel_right)
  qed
qed

lemma next_monday:
  fixes n :: int
  shows "n < n - n mod 7 + 7" "weekday_of (n - n mod 7 + 7) = 1"
    "n < k \<Longrightarrow> k < n - n mod 7 + 7 \<Longrightarrow> weekday_of k \<noteq> 1"
proof -
  show "n < n - n mod 7 + 7" by simp
  have "n - n mod 7 = 7 * (n div 7)" by (simp add: minus_mod_eq_mult_div)
  then show "weekday_of (n - n mod 7 + 7) = 1" by (simp add: weekday_of_def)
  assume "n < k" "k < n - n mod 7 + 7"
  then show "weekday_of k \<noteq> 1" unfolding weekday_of_def by presburger
qed

text \<open>Midnights are at the multiples of a day: the next instant of a set of days is that of the next such day.\<close>

lemma next_instant_days:
  assumes lo: "local_ns off (t - delay) div day_ns < n" and n: "Q n"
    and between: "\<And>k. local_ns off (t - delay) div day_ns < k \<Longrightarrow> k < n \<Longrightarrow> \<not> Q k"
  shows "next_instant (\<lambda>x. day_begins off (x - delay) \<and> Q (local_ns off (x - delay) div day_ns)) t
    (ns (midnight_of off n) + delay)"
proof -
  let ?L = "local_ns off (t - delay)" and ?r = "ns (midnight_of off n) + delay"
  have r: "local_ns off (?r - delay) = n * day_ns" by (simp add: local_ns_def midnight_of_def)
  have "?L < n * day_ns" using lo units_pos(3) by (simp add: div_less_mult)
  then have "t < ?r" by (simp add: local_ns_def midnight_of_def)
  moreover have "\<not> (day_begins off (x - delay) \<and> Q (local_ns off (x - delay) div day_ns))"
    if "t < x" "x < ?r" for x
  proof
    assume x: "day_begins off (x - delay) \<and> Q (local_ns off (x - delay) div day_ns)"
    define k where "k = local_ns off (x - delay) div day_ns"
    have k: "local_ns off (x - delay) = k * day_ns"
      using x div_mult_mod_eq [of "local_ns off (x - delay)" day_ns] by (simp add: day_begins_def k_def)
    have "?L < k * day_ns" "k * day_ns < n * day_ns" using that k r by (auto simp: local_ns_def)
    then have "?L div day_ns < k" "k < n" using units_pos(3) by (simp_all add: div_less_mult)
    with between x show False by (auto simp: k_def)
  qed
  ultimately show ?thesis using n r units_pos(3) by (auto simp: next_instant_def day_begins_def)
qed

lemma negate_delay: "is_i64 delay \<Longrightarrow> delay \<noteq> - (2 ^ 63) \<Longrightarrow> wrap64 (- delay) = - delay"
  by (rule wrap64_id) (auto simp: is_i64_def)

lemma time_Add_simps [simp]: "ns (time_Add t d) = ns t + d" "zone (time_Add t d) = zone t"
  by (simp_all add: time_Add_def)

text \<open>In a location with one offset \<open>NextDailyTime t delay\<close> is the first instant after \<open>t\<close> that lies
  \<open>delay\<close> after a local midnight, at most a day later, and keeps the location; it works for negative
  delays and delays longer than a day too. (The least \<open>Duration\<close> is excluded: its negation wraps.)\<close>

theorem NextDailyTime_is_next:
  assumes z: "zone t = Location off []" and d: "is_i64 delay" "delay \<noteq> - (2 ^ 63)"
  shows "next_instant (\<lambda>x. day_begins off (x - delay)) (ns t) (ns (NextDailyTime t delay))
    \<and> ns (NextDailyTime t delay) \<le> ns t + day_ns \<and> zone (NextDailyTime t delay) = zone t"
proof -
  let ?n = "local_ns off (ns t - delay) div day_ns"
  have u: "zone (time_Add t (- delay)) = Location off []" using z by simp
  have r: "NextDailyTime t delay = time_Add (midnight_of off (?n + 1)) delay"
    using StartOfDay_fixed [OF u] by (simp add: NextDailyTime_def negate_delay [OF d] AddDate_days)
  have "next_instant (\<lambda>x. day_begins off (x - delay)) (ns t) (ns (NextDailyTime t delay))"
    using next_instant_days [of off "ns t" delay "?n + 1" "\<lambda>_. True"] by (simp add: r)
  moreover have "?n * day_ns \<le> local_ns off (ns t - delay)" using units_pos(3) by (simp add: minus_mod_eq_div_mult [symmetric])
  then have "ns (NextDailyTime t delay) \<le> ns t + day_ns"
    by (simp add: r midnight_of_def local_ns_def algebra_simps)
  ultimately show ?thesis using z r by simp
qed

theorem NextDailyTime_is_next_witness:
  "next_instant (\<lambda>x. day_begins 28800 (x - 5 * 3600 * 10 ^ 9)) (10 ^ 15)
     (ns (NextDailyTime \<lparr>ns = 10 ^ 15, zone = Location 28800 []\<rparr> (5 * 3600 * 10 ^ 9)))"
  using NextDailyTime_is_next [of "\<lparr>ns = 10 ^ 15, zone = Location 28800 []\<rparr>" 28800 "5 * 3600 * 10 ^ 9"]
  by (simp add: is_i64_def)

text \<open>C25: In a location with one offset, and for every delay but the least \<open>Duration\<close>, \<open>NextWeeklyTime t delay\<close> is the first instant after \<open>t\<close> that lies
  \<open>delay\<close> after the beginning of a Monday, at most seven days later.\<close>

theorem NextWeeklyTime_is_next:
  assumes z: "zone t = Location off []" and d: "is_i64 delay" "delay \<noteq> - (2 ^ 63)"
  shows "next_instant (\<lambda>x. week_begins off (x - delay)) (ns t) (ns (NextWeeklyTime t delay))
    \<and> ns (NextWeeklyTime t delay) \<le> ns t + 7 * day_ns \<and> zone (NextWeeklyTime t delay) = zone t"
proof -
  let ?n = "local_ns off (ns t - delay) div day_ns"
  let ?w = "?n - ?n mod 7 + 7"
  have u: "zone (time_Add t (- delay)) = Location off []" using z by simp
  have r: "NextWeeklyTime t delay = time_Add (midnight_of off ?w) delay"
    using StartOfWeek_fixed [OF u] by (simp add: NextWeeklyTime_def negate_delay [OF d] AddDate_days)
  have "next_instant (\<lambda>x. week_begins off (x - delay)) (ns t) (ns (NextWeeklyTime t delay))"
    using next_instant_days [of off "ns t" delay ?w "\<lambda>n. weekday_of n = 1"] next_monday [of ?n] by (simp add: r week_begins_def)
  moreover have "?n * day_ns \<le> local_ns off (ns t - delay)" using units_pos(3) by (simp add: minus_mod_eq_div_mult [symmetric])
  moreover have "?w * day_ns \<le> (?n + 7) * day_ns" using units_pos(3) by (simp add: mult_right_mono)
  ultimately show ?thesis using z r by (simp add: midnight_of_def local_ns_def algebra_simps)
qed

theorem NextWeeklyTime_is_next_witness:
  "next_instant (\<lambda>x. week_begins 0 (x - 0)) (10 ^ 15) (ns (NextWeeklyTime \<lparr>ns = 10 ^ 15, zone = UTC\<rparr> 0))"
  using NextWeeklyTime_is_next [of "\<lparr>ns = 10 ^ 15, zone = UTC\<rparr>" 0 0] by (simp add: is_i64_def)

text \<open>In a location with one offset \<open>NextMonthlyTime t delay\<close> is the first instant after \<open>t\<close> that lies
  \<open>delay\<close> after the beginning of the first day of a month, whatever the lengths of the months.\<close>

theorem NextMonthlyTime_is_next:
  assumes z: "zone t = Location off []" and d: "is_i64 delay" "delay \<noteq> - (2 ^ 63)"
  shows "next_instant (\<lambda>x. month_begins off (x - delay)) (ns t) (ns (NextMonthlyTime t delay))
    \<and> zone (NextMonthlyTime t delay) = zone t"
proof -
  let ?n = "local_ns off (ns t - delay) div day_ns"
  obtain y m k where n: "date_of ?n = (y, m, k)" by (metis prod_cases3)
  note p = date_of_parts [OF n]
  let ?f = "day_of y (m + 1) 1"
  have u: "zone (time_Add t (- delay)) = Location off []" using z by simp
  have r: "NextMonthlyTime t delay = time_Add (midnight_of off ?f) delay"
    using StartOfMonth_fixed [OF u, of y m k] n p(1,2)
    by (simp add: NextMonthlyTime_def negate_delay [OF d] AddDate_month)
  have "day_of y m 1 \<le> ?n" using day_of_add [of y m 1 "k - 1"] p by simp
  then have "snd (snd (date_of j)) \<noteq> 1" if "?n < j" "j < ?f" for j
    using no_first_between [OF p(1,2), of y j] that by linarith
  moreover have "snd (snd (date_of ?f)) = 1"
  proof (cases "m = 12")
    case True
    then have "?f = day_of (y + 1) 1 1" by (simp add: day_of_def)
    then show ?thesis using date_of_first [of 1 "y + 1"] by simp
  next
    case False
    then show ?thesis using date_of_first [of "m + 1" y] p by simp
  qed
  ultimately show ?thesis
    using next_instant_days [of off "ns t" delay ?f "\<lambda>n. snd (snd (date_of n)) = 1"] p(5) z
    by (simp add: r month_begins_def)
qed

theorem NextMonthlyTime_is_next_witness:
  "next_instant (\<lambda>x. month_begins 0 (x - 0)) (10 ^ 15) (ns (NextMonthlyTime \<lparr>ns = 10 ^ 15, zone = UTC\<rparr> 0))"
  using NextMonthlyTime_is_next [of "\<lparr>ns = 10 ^ 15, zone = UTC\<rparr>" 0 0] by (simp add: is_i64_def)

section \<open>A location that skips a midnight\<close>

text \<open>
  Sao Paulo before and after 4 November 2018, 00:00, when the clocks went from UTC-3 to UTC-2: the
  first hour of that day does not exist there.
\<close>

definition skip_at :: int where
  "skip_at = day_of 2018 11 4 * day_secs + 10800"

definition sao_paulo :: location where
  "sao_paulo = Location (- 10800) [(skip_at, - 7200)]"

text \<open>In a location that skips a midnight the next daily time may lie in the past: half an hour before
  the clocks go forward in Sao Paulo, \<open>NextDailyTime\<close> without a delay gives the instant half an hour
  before its argument, so a caller that waits for it does not wait at all.\<close>

theorem NextDailyTime_not_after_in_gap:
  "ns (NextDailyTime \<lparr>ns = (skip_at - 1800) * second_ns, zone = sao_paulo\<rparr> 0)
     = (skip_at - 1800) * second_ns - 1800 * second_ns"
  by code_simp

end
