(* ===== verification/Locale_Model.thy ===== *)
theory Locale_Model
  imports Time_Model Go_Strings
begin

text \<open>
  The locales of \<open>xtime\<close> (\<open>locale.go\<close>, and \<open>Init\<close> of \<open>time.go\<close>): the package variables as a state, the
  functions that load and select a locale, and the path of a language file. Files, the working
  directory, the JSON decoder and the time zone database are an environment. Strings are bytes, so
  the UTF-8 texts of the language files pass through.
\<close>

section \<open>Languages\<close>

text \<open>The pattern \<open>^[a-z]{2}(-[A-Z]{2})?$\<close>\<close>

fun languageCodePattern :: "string \<Rightarrow> bool" where
  "languageCodePattern [a, b] = (is_lower a \<and> is_lower b)"
| "languageCodePattern [a, b, h, c, d] = (is_lower a \<and> is_lower b \<and> h = CHR ''-'' \<and> is_upper c \<and> is_upper d)"
| "languageCodePattern _ = False"

definition validLanguageCodes :: "string list" where
  "validLanguageCodes = [''en'', ''zh-CN'', ''zh-TW'', ''jp'', ''kr'']"

definition parseLanguageCode :: "string \<Rightarrow> string option" where
  "parseLanguageCode language =
     (if \<not> languageCodePattern language then None
      else if language \<in> set validLanguageCodes then Some language
      else None)"

section \<open>Locales\<close>

record Locale =
  Language :: string
  Months :: "string list"
  MonthsShort :: "string list"
  Weeks :: "string list"
  WeeksShort :: "string list"
  Constellations :: "string list"
  Formats :: "string \<rightharpoonup> string"
  Year :: string
  Month :: string
  Week :: string
  Day :: string
  Hour :: string
  Minute :: string
  Second :: string
  Now :: string
  Ago :: string
  FromNow :: string
  Before :: string
  After :: string

text \<open>What \<open>json.Unmarshal\<close> gives: the lists are still texts separated by bars.\<close>

record localeData =
  jMonths :: string
  jMonthsShort :: string
  jWeeks :: string
  jWeeksShort :: string
  jConstellations :: string
  jFormat :: "string \<rightharpoonup> string"
  jYear :: string
  jMonth :: string
  jWeek :: string
  jDay :: string
  jHour :: string
  jMinute :: string
  jSecond :: string
  jNow :: string
  jAgo :: string
  jFromNow :: string
  jBefore :: string
  jAfter :: string

definition defaultLocale :: Locale where
  "defaultLocale = \<lparr>Language = ''en'',
     Months = [''January'', ''February'', ''March'', ''April'', ''May'', ''June'', ''July'', ''August'',
       ''September'', ''October'', ''November'', ''December''],
     MonthsShort = [''Jan'', ''Feb'', ''Mar'', ''Apr'', ''May'', ''Jun'', ''Jul'', ''Aug'', ''Sep'', ''Oct'', ''Nov'', ''Dec''],
     Weeks = [''Sunday'', ''Monday'', ''Tuesday'', ''Wednesday'', ''Thursday'', ''Friday'', ''Saturday''],
     WeeksShort = [''Sun'', ''Mon'', ''Tue'', ''Wed'', ''Thu'', ''Fri'', ''Sat''],
     Constellations = [''Aries'', ''Taurus'', ''Gemini'', ''Cancer'', ''Leo'', ''Virgo'', ''Libra'', ''Scorpio'',
       ''Sagittarius'', ''Capricorn'', ''Aquarius'', ''Pisces''],
     Formats = [''date'' \<mapsto> ''{%w}, {%M} {%d}, {%y}'',
       ''datetime'' \<mapsto> ''{%w}, {%M} {%d}, {%y} {%h}:{%m}:{%s}'',
       ''time'' \<mapsto> ''{%h}:{%m}:{%s}''],
     Year = ''1 year|%d years'', Month = ''1 month|%d months'', Week = ''1 week|%d weeks'',
     Day = ''1 day|%d days'', Hour = ''1 hour|%d hours'', Minute = ''1 minute|%d minutes'',
     Second = ''1 second|%d seconds'', Now = ''just now'', Ago = ''%s ago'', FromNow = ''%s from now'',
     Before = ''%s before'', After = ''%s after''\<rparr>"

text \<open>A key that is absent from the JSON map reads as the empty string.\<close>

definition map_text :: "(string \<rightharpoonup> string) \<Rightarrow> string \<Rightarrow> string" where
  "map_text m k = (case m k of None \<Rightarrow> [] | Some v \<Rightarrow> v)"

definition locale_of_data :: "string \<Rightarrow> localeData \<Rightarrow> Locale" where
  "locale_of_data language j = \<lparr>Language = language,
     Months = split_on CHR ''|'' (jMonths j), MonthsShort = split_on CHR ''|'' (jMonthsShort j),
     Weeks = split_on CHR ''|'' (jWeeks j), WeeksShort = split_on CHR ''|'' (jWeeksShort j),
     Constellations = split_on CHR ''|'' (jConstellations j),
     Formats = [''date'' \<mapsto> map_text (jFormat j) ''date'', ''datetime'' \<mapsto> map_text (jFormat j) ''datetime'',
       ''time'' \<mapsto> map_text (jFormat j) ''time''],
     Year = jYear j, Month = jMonth j, Week = jWeek j, Day = jDay j, Hour = jHour j, Minute = jMinute j,
     Second = jSecond j, Now = jNow j, Ago = jAgo j, FromNow = jFromNow j, Before = jBefore j, After = jAfter j\<rparr>"

definition getFormat :: "Locale \<Rightarrow> string \<Rightarrow> string option" where
  "getFormat l formatType = Formats l formatType"

section \<open>State and environment\<close>

record xtime =
  currentLocale :: "Locale option"
  locales :: "string \<rightharpoonup> Locale"
  location_var :: "location option"
  localOnce :: bool

text \<open>
  \<open>file_exists\<close>: \<open>os.Stat\<close> without an error; \<open>getwd\<close>: the working directory, empty on an error;
  \<open>read_file\<close>, \<open>unmarshal\<close> and \<open>load_zone\<close>: \<open>None\<close> on an error.
\<close>

record env =
  file_exists :: "string \<Rightarrow> bool"
  getwd :: string
  read_file :: "string \<Rightarrow> string option"
  unmarshal :: "string \<Rightarrow> localeData option"
  load_zone :: "string \<Rightarrow> location option"

datatype locale_error =
    InvalidLanguage string
  | FileNotFound string
  | ReadFailed string
  | ParseFailed string
  | TimezoneFailed string

text \<open>The path of the language file, empty when there is none; \<open>filepath.Join\<close> leaves out an empty directory.\<close>

definition local_path :: "string \<Rightarrow> string" where
  "local_path language = ''lang/'' @ language @ ''.json''"

definition package_path :: "string \<Rightarrow> string \<Rightarrow> string" where
  "package_path dir language =
     (if dir = [] then [] else dir @ ''/'') @ ''deps/fabrica-util/xtime/lang/'' @ language @ ''.json''"

definition sanitizeAndBuildPath :: "env \<Rightarrow> string \<Rightarrow> string" where
  "sanitizeAndBuildPath e language =
     (if parseLanguageCode language = None then []
      else if file_exists e (local_path language) then local_path language
      else if file_exists e (package_path (getwd e) language) then package_path (getwd e) language
      else [])"

definition initDefaultLocale :: "xtime \<Rightarrow> xtime" where
  "initDefaultLocale s = s\<lparr>locales := (locales s)(''en'' \<mapsto> defaultLocale), currentLocale := Some defaultLocale\<rparr>"

text \<open>The package variables after \<open>init()\<close>.\<close>

definition xtime_init :: xtime where
  "xtime_init = initDefaultLocale \<lparr>currentLocale = None, locales = Map.empty, location_var = None, localOnce = False\<rparr>"

definition LoadLocale :: "env \<Rightarrow> string \<Rightarrow> xtime \<Rightarrow> locale_error option \<times> xtime" where
  "LoadLocale e language s = (case locales s language of
     Some l \<Rightarrow> (None, s\<lparr>currentLocale := Some l\<rparr>)
   | None \<Rightarrow>
       if parseLanguageCode language = None then (Some (InvalidLanguage language), s)
       else let langFile = sanitizeAndBuildPath e language in
         if langFile = [] then (Some (FileNotFound language), s)
         else case read_file e langFile of
             None \<Rightarrow> (Some (ReadFailed langFile), s)
           | Some text_ \<Rightarrow> (case unmarshal e text_ of
               None \<Rightarrow> (Some (ParseFailed langFile), s)
             | Some j \<Rightarrow> (let l = locale_of_data language j
                 in (None, s\<lparr>locales := (locales s)(language \<mapsto> l), currentLocale := Some l\<rparr>))))"

definition SetLocale :: "env \<Rightarrow> string \<Rightarrow> xtime \<Rightarrow> locale_error option \<times> xtime" where
  "SetLocale e language s = (case locales s language of
     Some l \<Rightarrow> (None, s\<lparr>currentLocale := Some l\<rparr>)
   | None \<Rightarrow> LoadLocale e language s)"

text \<open>
  The type assertion is on the value loaded before, so it panics when that was \<open>nil\<close>, also when
  \<open>localOnce\<close> has just set the default locale.
\<close>

definition GetCurrentLocale :: "xtime \<Rightarrow> Locale go \<times> xtime" where
  "GetCurrentLocale s = (case currentLocale s of
     None \<Rightarrow> (Inl (PanicMsg ''interface conversion: interface is nil, not *Locale''),
              if localOnce s then s else initDefaultLocale s\<lparr>localOnce := True\<rparr>)
   | Some l \<Rightarrow> (Inr l, s))"

definition GetAvailableLanguages :: "xtime \<Rightarrow> string set" where
  "GetAvailableLanguages s = dom (locales s)"

record Config =
  CLanguage :: string
  Timezone :: string

definition Init :: "env \<Rightarrow> Config \<Rightarrow> xtime \<Rightarrow> locale_error option \<times> xtime" where
  "Init e cfg s0 =
     (let tz = (if Timezone cfg = [] then ''UTC'' else Timezone cfg);
          lang = (if CLanguage cfg = [] then ''en'' else CLanguage cfg)
      in case load_zone e tz of
          None \<Rightarrow> (Some (TimezoneFailed tz), s0)
        | Some l \<Rightarrow> (let s = s0\<lparr>location_var := Some l\<rparr> in
            case parseLanguageCode lang of
              None \<Rightarrow> (Some (InvalidLanguage lang), s)
            | Some code \<Rightarrow> (case SetLocale e code s of
                (None, s') \<Rightarrow> (None, s')
              | (Some _, s') \<Rightarrow> (None, initDefaultLocale s'))))"

definition InitSimple :: "env \<Rightarrow> string \<Rightarrow> xtime \<Rightarrow> locale_error option \<times> xtime" where
  "InitSimple e language s = Init e \<lparr>CLanguage = language, Timezone = []\<rparr> s"

section \<open>Calls\<close>

text \<open>The calls that change the package variables, each with the environment it meets.\<close>

datatype pkg_call = InitCall Config | InitSimpleCall string | SetCall string | LoadCall string

fun xtime_call :: "xtime \<Rightarrow> env \<times> pkg_call \<Rightarrow> xtime" where
  "xtime_call s (e, InitCall cfg) = snd (Init e cfg s)"
| "xtime_call s (e, InitSimpleCall l) = snd (InitSimple e l s)"
| "xtime_call s (e, SetCall l) = snd (SetLocale e l s)"
| "xtime_call s (e, LoadCall l) = snd (LoadLocale e l s)"

definition xtime_ok :: "xtime \<Rightarrow> bool" where
  "xtime_ok s \<longleftrightarrow> (\<exists>l. currentLocale s = Some l \<and> locales s (Language l) = Some l)
     \<and> dom (locales s) \<subseteq> set validLanguageCodes
     \<and> (\<forall>k l. locales s k = Some l \<longrightarrow> Language l = k)
     \<and> ''en'' \<in> dom (locales s)"

lemma parse_valid: "parseLanguageCode l = Some c \<longleftrightarrow> c = l \<and> l \<in> set validLanguageCodes"
proof
  assume "parseLanguageCode l = Some c"
  then show "c = l \<and> l \<in> set validLanguageCodes" by (auto simp: parseLanguageCode_def split: if_splits)
next
  assume a: "c = l \<and> l \<in> set validLanguageCodes"
  then have "languageCodePattern l" by (auto simp: validLanguageCodes_def is_lower_def is_upper_def)
  with a show "parseLanguageCode l = Some c" by (simp add: parseLanguageCode_def)
qed

lemma parse_invalid: "parseLanguageCode l = None \<longleftrightarrow> l \<notin> set validLanguageCodes"
  using parse_valid [of l l] by (cases "parseLanguageCode l") (auto simp: parse_valid)

lemma initDefault_ok: "xtime_ok s \<Longrightarrow> xtime_ok (initDefaultLocale s)"
  by (auto simp: xtime_ok_def initDefaultLocale_def defaultLocale_def validLanguageCodes_def)

lemma select_ok: "xtime_ok s \<Longrightarrow> locales s k = Some l \<Longrightarrow> xtime_ok (s\<lparr>currentLocale := Some l\<rparr>)"
  by (auto simp: xtime_ok_def)

lemma LoadLocale_ok:
  assumes "xtime_ok s"
  shows "xtime_ok (snd (LoadLocale e k s))"
proof (cases "locales s k")
  case (Some l)
  then show ?thesis using select_ok [OF assms Some] by (simp add: LoadLocale_def)
next
  case None
  have "xtime_ok (s\<lparr>locales := (locales s)(k \<mapsto> locale_of_data k j), currentLocale := Some (locale_of_data k j)\<rparr>)"
    if "k \<in> set validLanguageCodes" for j
    using assms that by (auto simp: xtime_ok_def locale_of_data_def)
  then show ?thesis using None assms
    by (auto simp: LoadLocale_def parse_invalid Let_def split: option.splits)
qed

lemma SetLocale_ok: "xtime_ok s \<Longrightarrow> xtime_ok (snd (SetLocale e k s))"
  using select_ok LoadLocale_ok by (auto simp: SetLocale_def split: option.splits)

lemma Init_ok:
  assumes "xtime_ok s"
  shows "xtime_ok (snd (Init e cfg s))"
proof -
  have "xtime_ok (s\<lparr>location_var := l\<rparr>)" for l using assms by (simp add: xtime_ok_def)
  then have "xtime_ok (snd (SetLocale e c (s\<lparr>location_var := l\<rparr>)))" for l c by (rule SetLocale_ok)
  then have "SetLocale e c (s\<lparr>location_var := l\<rparr>) = (r, s') \<Longrightarrow> xtime_ok s'" for l c r s' by (metis snd_conv)
  with assms \<open>\<And>l. xtime_ok (s\<lparr>location_var := l\<rparr>)\<close> initDefault_ok show ?thesis
    unfolding Init_def Let_def by (auto split: option.splits prod.splits)
qed

lemma call_ok: "xtime_ok s \<Longrightarrow> xtime_ok (xtime_call s c)"
  by (cases "(s, c)" rule: xtime_call.cases) (auto simp: Init_ok InitSimple_def SetLocale_ok LoadLocale_ok)

lemma calls_ok: "xtime_ok s \<Longrightarrow> xtime_ok (foldl xtime_call s cs)"
  by (induction cs arbitrary: s) (auto simp: call_ok)

lemma ok_current:
  "xtime_ok s \<Longrightarrow> \<exists>l. GetCurrentLocale s = (Inr l, s) \<and> locales s (Language l) = Some l
     \<and> ''en'' \<in> GetAvailableLanguages s \<and> GetAvailableLanguages s \<subseteq> set validLanguageCodes"
proof -
  assume ok: "xtime_ok s"
  then obtain l where l: "currentLocale s = Some l" "locales s (Language l) = Some l" unfolding xtime_ok_def by blast
  have "GetCurrentLocale s = (Inr l, s)" by (simp only: GetCurrentLocale_def l option.case)
  with l(2) ok show ?thesis unfolding GetAvailableLanguages_def xtime_ok_def by blast
qed

lemma xtime_init_ok: "xtime_ok xtime_init"
  by (auto simp: xtime_ok_def xtime_init_def initDefaultLocale_def defaultLocale_def validLanguageCodes_def)

text \<open>Whatever calls of \<open>Init\<close>, \<open>InitSimple\<close>, \<open>SetLocale\<close> and \<open>LoadLocale\<close> are made, whatever their
  arguments and however files, decoder and time zones behave, there is always a current locale:
  \<open>GetCurrentLocale\<close> does not panic and changes nothing. It is one of the loaded locales, only supported languages are
  loaded, each under its own code, and English stays available.
\<close>

theorem current_locale_always_set:
  "\<exists>l. GetCurrentLocale (foldl xtime_call xtime_init cs) = (Inr l, foldl xtime_call xtime_init cs)
     \<and> locales (foldl xtime_call xtime_init cs) (Language l) = Some l
     \<and> ''en'' \<in> GetAvailableLanguages (foldl xtime_call xtime_init cs)
     \<and> GetAvailableLanguages (foldl xtime_call xtime_init cs) \<subseteq> set validLanguageCodes"
  by (rule ok_current [OF calls_ok [OF xtime_init_ok]])

text \<open>A language name reaches the file system only if it is one of the five supported codes, so no
  name can leave the language directories: the path that is built is empty or one of the two fixed
  ones for that code, and an unsupported name fails in \<open>LoadLocale\<close> with the package variables unchanged.
\<close>

theorem language_path_is_fixed:
  assumes "xtime_ok s" and "language \<notin> set validLanguageCodes"
  shows "sanitizeAndBuildPath e code
      \<in> insert [] ((\<lambda>c. local_path c) ` set validLanguageCodes \<union> (\<lambda>c. package_path (getwd e) c) ` set validLanguageCodes)
    \<and> sanitizeAndBuildPath e language = [] \<and> LoadLocale e language s = (Some (InvalidLanguage language), s)"
proof -
  have "locales s language = None" using assms by (auto simp: xtime_ok_def)
  then show ?thesis using assms(2) parse_invalid [of language] parse_invalid [of code]
    by (auto simp: sanitizeAndBuildPath_def LoadLocale_def)
qed

theorem language_path_is_fixed_witness:
  "LoadLocale \<lparr>file_exists = \<lambda>_. True, getwd = [], read_file = \<lambda>_. None, unmarshal = \<lambda>_. None, load_zone = \<lambda>_. None\<rparr>
     ''../../etc/passwd'' xtime_init = (Some (InvalidLanguage ''../../etc/passwd''), xtime_init)"
proof -
  have "''../../etc/passwd'' \<notin> set validLanguageCodes" by (simp add: validLanguageCodes_def)
  from language_path_is_fixed [OF xtime_init_ok this] show ?thesis by blast
qed

end
