(* ===== verification/Locale_Data.thy ===== *)
theory Locale_Data
  imports Locale_Model
begin

text \<open>
  The language files of the repository (\<open>xtime/lang/*.json\<close>), as the values that decoding them gives, and the
  locales made of them. The texts are UTF-8; \<open>utf8\<close> gives the bytes of code points.
\<close>

section \<open>UTF-8\<close>

text \<open>The encoding of the code points below \<open>0x10000\<close>, in one to three bytes.\<close>

definition utf8_char :: "nat \<Rightarrow> string" where
  "utf8_char n =
     (if n < 0x80 then [char_of n]
      else if n < 0x800 then [char_of (0xC0 + n div 64), char_of (0x80 + n mod 64)]
      else [char_of (0xE0 + n div 4096), char_of (0x80 + n div 64 mod 64), char_of (0x80 + n mod 64)])"

definition utf8 :: "nat list \<Rightarrow> string" where
  "utf8 points = concat (map utf8_char points)"

definition bars :: "string list \<Rightarrow> string" where
  "bars parts = join ''|'' parts"

section \<open>The files\<close>

definition en_data :: localeData where
  "en_data = \<lparr>
   jMonths = bars [
     ''January'', ''February'', ''March'', ''April'', ''May'', ''June'', ''July'', ''August'', ''September'',
     ''October'', ''November'', ''December''],
   jMonthsShort = bars [
     ''Jan'', ''Feb'', ''Mar'', ''Apr'', ''May'', ''Jun'', ''Jul'', ''Aug'', ''Sep'', ''Oct'', ''Nov'', ''Dec''],
   jWeeks = bars [
     ''Sunday'', ''Monday'', ''Tuesday'', ''Wednesday'', ''Thursday'', ''Friday'', ''Saturday''],
   jWeeksShort = bars [
     ''Sun'', ''Mon'', ''Tue'', ''Wed'', ''Thu'', ''Fri'', ''Sat''],
   jConstellations = bars [
     ''Aries'', ''Taurus'', ''Gemini'', ''Cancer'', ''Leo'', ''Virgo'', ''Libra'', ''Scorpio'',
     ''Sagittarius'', ''Capricorn'', ''Aquarius'', ''Pisces''],
   jFormat = [''date'' \<mapsto> ''{%w}, {%M} {%d}, {%y}'',
     ''datetime'' \<mapsto> ''{%w}, {%M} {%d}, {%y} {%h}:{%m}:{%s}'',
     ''time'' \<mapsto> ''{%h}:{%m}:{%s}''],
   jYear = ''1 year|%d years'',
   jMonth = ''1 month|%d months'',
   jWeek = ''1 week|%d weeks'',
   jDay = ''1 day|%d days'',
   jHour = ''1 hour|%d hours'',
   jMinute = ''1 minute|%d minutes'',
   jSecond = ''1 second|%d seconds'',
   jNow = ''just now'',
   jAgo = ''%s ago'',
   jFromNow = ''%s from now'',
   jBefore = ''%s before'',
   jAfter = ''%s after''\<rparr>"

definition zh_CN_data :: localeData where
  "zh_CN_data = \<lparr>
   jMonths = bars [
     utf8 [0x4E00, 0x6708], utf8 [0x4E8C, 0x6708], utf8 [0x4E09, 0x6708], utf8 [0x56DB, 0x6708],
     utf8 [0x4E94, 0x6708], utf8 [0x516D, 0x6708], utf8 [0x4E03, 0x6708], utf8 [0x516B, 0x6708],
     utf8 [0x4E5D, 0x6708], utf8 [0x5341, 0x6708], utf8 [0x5341, 0x4E00, 0x6708], utf8 [0x5341, 0x4E8C, 0x6708]],
   jMonthsShort = bars [
     ''1'' @ utf8 [0x6708], ''2'' @ utf8 [0x6708], ''3'' @ utf8 [0x6708], ''4'' @ utf8 [0x6708],
     ''5'' @ utf8 [0x6708], ''6'' @ utf8 [0x6708], ''7'' @ utf8 [0x6708], ''8'' @ utf8 [0x6708],
     ''9'' @ utf8 [0x6708], ''10'' @ utf8 [0x6708], ''11'' @ utf8 [0x6708], ''12'' @ utf8 [0x6708]],
   jWeeks = bars [
     utf8 [0x661F, 0x671F, 0x65E5], utf8 [0x661F, 0x671F, 0x4E00], utf8 [0x661F, 0x671F, 0x4E8C],
     utf8 [0x661F, 0x671F, 0x4E09], utf8 [0x661F, 0x671F, 0x56DB], utf8 [0x661F, 0x671F, 0x4E94],
     utf8 [0x661F, 0x671F, 0x516D]],
   jWeeksShort = bars [
     utf8 [0x5468, 0x65E5], utf8 [0x5468, 0x4E00], utf8 [0x5468, 0x4E8C], utf8 [0x5468, 0x4E09],
     utf8 [0x5468, 0x56DB], utf8 [0x5468, 0x4E94], utf8 [0x5468, 0x516D]],
   jConstellations = bars [
     utf8 [0x767D, 0x7F8A, 0x5EA7], utf8 [0x91D1, 0x725B, 0x5EA7], utf8 [0x53CC, 0x5B50, 0x5EA7],
     utf8 [0x5DE8, 0x87F9, 0x5EA7], utf8 [0x72EE, 0x5B50, 0x5EA7], utf8 [0x5904, 0x5973, 0x5EA7],
     utf8 [0x5929, 0x79E4, 0x5EA7], utf8 [0x5929, 0x874E, 0x5EA7], utf8 [0x5C04, 0x624B, 0x5EA7],
     utf8 [0x6469, 0x7FAF, 0x5EA7], utf8 [0x6C34, 0x74F6, 0x5EA7], utf8 [0x53CC, 0x9C7C, 0x5EA7]],
   jFormat = [''date'' \<mapsto> ''{%y}'' @ utf8 [0x5E74] @ ''{%M}{%d}'' @ utf8 [0x65E5] @ '' {%w}'',
     ''datetime'' \<mapsto> ''{%y}'' @ utf8 [0x5E74] @ ''{%M}{%d}'' @ utf8 [0x65E5] @ '' {%w} {%h}:{%m}:{%s}'',
     ''time'' \<mapsto> ''{%h}:{%m}:{%s}''],
   jYear = ''%d '' @ utf8 [0x5E74],
   jMonth = ''%d '' @ utf8 [0x4E2A, 0x6708],
   jWeek = ''%d '' @ utf8 [0x5468],
   jDay = ''%d '' @ utf8 [0x5929],
   jHour = ''%d '' @ utf8 [0x5C0F, 0x65F6],
   jMinute = ''%d '' @ utf8 [0x5206, 0x949F],
   jSecond = ''%d '' @ utf8 [0x79D2],
   jNow = utf8 [0x521A, 0x521A],
   jAgo = ''%s'' @ utf8 [0x524D],
   jFromNow = ''%s'' @ utf8 [0x540E],
   jBefore = ''%s'' @ utf8 [0x524D],
   jAfter = ''%s'' @ utf8 [0x540E]\<rparr>"

definition zh_TW_data :: localeData where
  "zh_TW_data = \<lparr>
   jMonths = bars [
     utf8 [0x4E00, 0x6708], utf8 [0x4E8C, 0x6708], utf8 [0x4E09, 0x6708], utf8 [0x56DB, 0x6708],
     utf8 [0x4E94, 0x6708], utf8 [0x516D, 0x6708], utf8 [0x4E03, 0x6708], utf8 [0x516B, 0x6708],
     utf8 [0x4E5D, 0x6708], utf8 [0x5341, 0x6708], utf8 [0x5341, 0x4E00, 0x6708], utf8 [0x5341, 0x4E8C, 0x6708]],
   jMonthsShort = bars [
     ''1'' @ utf8 [0x6708], ''2'' @ utf8 [0x6708], ''3'' @ utf8 [0x6708], ''4'' @ utf8 [0x6708],
     ''5'' @ utf8 [0x6708], ''6'' @ utf8 [0x6708], ''7'' @ utf8 [0x6708], ''8'' @ utf8 [0x6708],
     ''9'' @ utf8 [0x6708], ''10'' @ utf8 [0x6708], ''11'' @ utf8 [0x6708], ''12'' @ utf8 [0x6708]],
   jWeeks = bars [
     utf8 [0x661F, 0x671F, 0x65E5], utf8 [0x661F, 0x671F, 0x4E00], utf8 [0x661F, 0x671F, 0x4E8C],
     utf8 [0x661F, 0x671F, 0x4E09], utf8 [0x661F, 0x671F, 0x56DB], utf8 [0x661F, 0x671F, 0x4E94],
     utf8 [0x661F, 0x671F, 0x516D]],
   jWeeksShort = bars [
     utf8 [0x9031, 0x65E5], utf8 [0x9031, 0x4E00], utf8 [0x9031, 0x4E8C], utf8 [0x9031, 0x4E09],
     utf8 [0x9031, 0x56DB], utf8 [0x9031, 0x4E94], utf8 [0x9031, 0x516D]],
   jConstellations = bars [
     utf8 [0x767D, 0x7F8A, 0x5EA7], utf8 [0x91D1, 0x725B, 0x5EA7], utf8 [0x96D9, 0x5B50, 0x5EA7],
     utf8 [0x5DE8, 0x87F9, 0x5EA7], utf8 [0x7345, 0x5B50, 0x5EA7], utf8 [0x8655, 0x5973, 0x5EA7],
     utf8 [0x5929, 0x79E4, 0x5EA7], utf8 [0x5929, 0x880D, 0x5EA7], utf8 [0x5C04, 0x624B, 0x5EA7],
     utf8 [0x6469, 0x7FAF, 0x5EA7], utf8 [0x6C34, 0x74F6, 0x5EA7], utf8 [0x96D9, 0x9B5A, 0x5EA7]],
   jFormat = [''date'' \<mapsto> ''{%y}'' @ utf8 [0x5E74] @ ''{%M}{%d}'' @ utf8 [0x65E5] @ '' {%w}'',
     ''datetime'' \<mapsto> ''{%y}'' @ utf8 [0x5E74] @ ''{%M}{%d}'' @ utf8 [0x65E5] @ '' {%w} {%h}:{%m}:{%s}'',
     ''time'' \<mapsto> ''{%h}:{%m}:{%s}''],
   jYear = ''%d '' @ utf8 [0x5E74],
   jMonth = ''%d '' @ utf8 [0x500B, 0x6708],
   jWeek = ''%d '' @ utf8 [0x9031],
   jDay = ''%d '' @ utf8 [0x5929],
   jHour = ''%d '' @ utf8 [0x5C0F, 0x6642],
   jMinute = ''%d '' @ utf8 [0x5206, 0x9418],
   jSecond = ''%d '' @ utf8 [0x79D2],
   jNow = utf8 [0x525B, 0x525B],
   jAgo = ''%s'' @ utf8 [0x524D],
   jFromNow = ''%s'' @ utf8 [0x5F8C],
   jBefore = ''%s'' @ utf8 [0x524D],
   jAfter = ''%s'' @ utf8 [0x5F8C]\<rparr>"

definition jp_data :: localeData where
  "jp_data = \<lparr>
   jMonths = bars [
     utf8 [0x4E00, 0x6708], utf8 [0x4E8C, 0x6708], utf8 [0x4E09, 0x6708], utf8 [0x56DB, 0x6708],
     utf8 [0x4E94, 0x6708], utf8 [0x516D, 0x6708], utf8 [0x4E03, 0x6708], utf8 [0x516B, 0x6708],
     utf8 [0x4E5D, 0x6708], utf8 [0x5341, 0x6708], utf8 [0x5341, 0x4E00, 0x6708], utf8 [0x5341, 0x4E8C, 0x6708]],
   jMonthsShort = bars [
     ''1'' @ utf8 [0x6708], ''2'' @ utf8 [0x6708], ''3'' @ utf8 [0x6708], ''4'' @ utf8 [0x6708],
     ''5'' @ utf8 [0x6708], ''6'' @ utf8 [0x6708], ''7'' @ utf8 [0x6708], ''8'' @ utf8 [0x6708],
     ''9'' @ utf8 [0x6708], ''10'' @ utf8 [0x6708], ''11'' @ utf8 [0x6708], ''12'' @ utf8 [0x6708]],
   jWeeks = bars [
     utf8 [0x65E5, 0x66DC, 0x65E5], utf8 [0x6708, 0x66DC, 0x65E5], utf8 [0x706B, 0x66DC, 0x65E5],
     utf8 [0x6C34, 0x66DC, 0x65E5], utf8 [0x6728, 0x66DC, 0x65E5], utf8 [0x91D1, 0x66DC, 0x65E5],
     utf8 [0x571F, 0x66DC, 0x65E5]],
   jWeeksShort = bars [
     utf8 [0x9031, 0x65E5], utf8 [0x9031, 0x4E00], utf8 [0x9031, 0x4E8C], utf8 [0x9031, 0x4E09],
     utf8 [0x9031, 0x56DB], utf8 [0x9031, 0x4E94], utf8 [0x9031, 0x516D]],
   jConstellations = bars [
     utf8 [0x304A, 0x3072, 0x3064, 0x3058, 0x3056], utf8 [0x304A, 0x3046, 0x3057, 0x3056],
     utf8 [0x3075, 0x305F, 0x3054, 0x3056], utf8 [0x304B, 0x306B, 0x3056], utf8 [0x3057, 0x3057, 0x3056],
     utf8 [0x304A, 0x3068, 0x3081, 0x3056], utf8 [0x3066, 0x3093, 0x3073, 0x3093, 0x3056],
     utf8 [0x3055, 0x305D, 0x308A, 0x3056], utf8 [0x3044, 0x3066, 0x3056], utf8 [0x3084, 0x304E, 0x3056],
     utf8 [0x307F, 0x305A, 0x304C, 0x3081, 0x3056], utf8 [0x3046, 0x304A, 0x3056]],
   jFormat = [''date'' \<mapsto> ''{%y}'' @ utf8 [0x5E74] @ ''{%M}{%d}'' @ utf8 [0x65E5] @ '' {%w}'',
     ''datetime'' \<mapsto> ''{%y}'' @ utf8 [0x5E74] @ ''{%M}{%d}'' @ utf8 [0x65E5] @ '' {%w} {%h}:{%m}:{%s}'',
     ''time'' \<mapsto> ''{%h}:{%m}:{%s}''],
   jYear = ''%d '' @ utf8 [0x5E74],
   jMonth = ''%d '' @ utf8 [0x30F6, 0x6708],
   jWeek = ''%d '' @ utf8 [0x9031, 0x9593],
   jDay = ''%d '' @ utf8 [0x65E5],
   jHour = ''%d '' @ utf8 [0x6642, 0x9593],
   jMinute = ''%d '' @ utf8 [0x5206, 0x949F],
   jSecond = ''%d '' @ utf8 [0x79D2],
   jNow = utf8 [0x305F, 0x3063, 0x305F, 0x4ECA],
   jAgo = ''%s'' @ utf8 [0x524D],
   jFromNow = ''%s'' @ utf8 [0x5F8C],
   jBefore = ''%s'' @ utf8 [0x524D],
   jAfter = ''%s'' @ utf8 [0x5F8C]\<rparr>"

definition kr_data :: localeData where
  "kr_data = \<lparr>
   jMonths = bars [
     utf8 [0xC77C, 0xC6D4], utf8 [0xC774, 0xC6D4], utf8 [0xC0BC, 0xC6D4], utf8 [0xC0AC, 0xC6D4],
     utf8 [0xC624, 0xC6D4], utf8 [0xC720, 0xC6D4], utf8 [0xCE60, 0xC6D4], utf8 [0xD314, 0xC6D4],
     utf8 [0xAD6C, 0xC6D4], utf8 [0xC2DC, 0xC6D4], utf8 [0xC2ED, 0xC77C, 0xC6D4], utf8 [0xC2ED, 0xC774, 0xC6D4]],
   jMonthsShort = bars [
     ''1'' @ utf8 [0xC6D4], ''2'' @ utf8 [0xC6D4], ''3'' @ utf8 [0xC6D4], ''4'' @ utf8 [0xC6D4],
     ''5'' @ utf8 [0xC6D4], ''6'' @ utf8 [0xC6D4], ''7'' @ utf8 [0xC6D4], ''8'' @ utf8 [0xC6D4],
     ''9'' @ utf8 [0xC6D4], ''10'' @ utf8 [0xC6D4], ''11'' @ utf8 [0xC6D4], ''12'' @ utf8 [0xC6D4]],
   jWeeks = bars [
     utf8 [0xC77C, 0xC694, 0xC77C], utf8 [0xC6D4, 0xC694, 0xC77C], utf8 [0xD654, 0xC694, 0xC77C],
     utf8 [0xC218, 0xC694, 0xC77C], utf8 [0xBAA9, 0xC694, 0xC77C], utf8 [0xAE08, 0xC694, 0xC77C],
     utf8 [0xD1A0, 0xC694, 0xC77C]],
   jWeeksShort = bars [
     utf8 [0xC77C, 0xC694, 0xC77C], utf8 [0xC6D4, 0xC694, 0xC77C], utf8 [0xD654, 0xC694, 0xC77C],
     utf8 [0xC218, 0xC694, 0xC77C], utf8 [0xBAA9, 0xC694, 0xC77C], utf8 [0xAE08, 0xC694, 0xC77C],
     utf8 [0xD1A0, 0xC694, 0xC77C]],
   jConstellations = bars [
     utf8 [0xC591, 0xC790, 0xB9AC], utf8 [0xD669, 0xC18C, 0xC790, 0xB9AC],
     utf8 [0xC30D, 0xB465, 0xC774, 0xC790, 0xB9AC],
     utf8 [0xAC8C, 0xC790, 0xB9AC, 0xC0AC, 0xC790, 0xC790, 0xB9AC], utf8 [0xCC98, 0xB140, 0xC790, 0xB9AC],
     utf8 [0xCC9C, 0xCE6D, 0xC790, 0xB9AC], utf8 [0xC804, 0xAC08, 0xC790, 0xB9AC],
     utf8 [0xC0AC, 0xC218, 0xC790, 0xB9AC], utf8 [0xC5FC, 0xC18C, 0xC790, 0xB9AC],
     utf8 [0xBB3C, 0xBCD1, 0xC790, 0xB9AC], utf8 [0xBB3C, 0xACE0, 0xAE30, 0xC790, 0xB9AC]],
   jFormat = [''date'' \<mapsto> ''{%y}'' @ utf8 [0xB144] @ '' {%M} {%d}'' @ utf8 [0xC77C] @ '' {%w}'',
     ''datetime'' \<mapsto> ''{%y}'' @ utf8 [0xB144] @ '' {%M} {%d}'' @ utf8 [0xC77C] @ '' {%w} {%h}:{%m}:{%s}'',
     ''time'' \<mapsto> ''{%h}:{%m}:{%s}''],
   jYear = ''%d '' @ utf8 [0xB144],
   jMonth = ''%d '' @ utf8 [0xC6D4],
   jWeek = ''%d '' @ utf8 [0xC694, 0xC77C],
   jDay = ''%d '' @ utf8 [0xC77C],
   jHour = ''%d '' @ utf8 [0xC2DC],
   jMinute = ''%d '' @ utf8 [0xBD84],
   jSecond = ''%d '' @ utf8 [0xCD08],
   jNow = utf8 [0xBC29, 0xAE08],
   jAgo = ''%s'' @ utf8 [0xC55E],
   jFromNow = ''%s'' @ utf8 [0xB4A4],
   jBefore = ''%s'' @ utf8 [0xC55E],
   jAfter = ''%s'' @ utf8 [0xB4A4]\<rparr>"

end
