(* ===== verification/Format_Model.thy ===== *)
theory Format_Model
  imports Locale_Model
begin

text \<open>
  Formatting of times and durations (\<open>xtime/format.go\<close> and \<open>formatPlural\<close> of \<open>locale.go\<close>), with what it
  uses of \<open>fmt.Sprintf\<close>: the verbs \<open>%d\<close>, \<open>%s\<close> and \<open>%%\<close> without flags, applied to one argument.
\<close>

section \<open>Sprintf\<close>

datatype fmt_arg = ArgInt int | ArgStr string

fun arg_text :: "fmt_arg \<Rightarrow> string" where
  "arg_text (ArgInt i) = itoa i"
| "arg_text (ArgStr s) = s"

fun arg_type :: "fmt_arg \<Rightarrow> string" where
  "arg_type (ArgInt _) = ''int''"
| "arg_type (ArgStr _) = ''string''"

fun verb_of :: "fmt_arg \<Rightarrow> char" where
  "verb_of (ArgInt _) = CHR ''d''"
| "verb_of (ArgStr _) = CHR ''s''"

text \<open>
  A verb for another type, a missing argument, an argument too many and a percent sign at the end
  leave the notes that the package documents.
\<close>

fun sprintf :: "string \<Rightarrow> fmt_arg option \<Rightarrow> string" where
  "sprintf [] None = []"
| "sprintf [] (Some a) = ''%!(EXTRA '' @ arg_type a @ ''='' @ arg_text a @ '')''"
| "sprintf (c # cs) a =
     (if c \<noteq> CHR ''%'' then c # sprintf cs a
      else case cs of
          [] \<Rightarrow> ''%!(NOVERB)'' @ sprintf [] a
        | v # rest \<Rightarrow>
            if v = CHR ''%'' then CHR ''%'' # sprintf rest a
            else case a of
                None \<Rightarrow> ''%!'' @ v # ''(MISSING)'' @ sprintf rest None
              | Some x \<Rightarrow>
                  if v = verb_of x then arg_text x @ sprintf rest None
                  else ''%!'' @ v # ''('' @ arg_type x @ ''='' @ arg_text x @ '')'' @ sprintf rest None)"

definition pad2 :: "int \<Rightarrow> string" where
  "pad2 n = (if 0 \<le> n \<and> n < 10 then CHR ''0'' # itoa n else itoa n)"

section \<open>The parts of a time\<close>

definition t_year :: "gotime \<Rightarrow> int" where "t_year t = fst (date_of (local_day t))"
definition t_month :: "gotime \<Rightarrow> int" where "t_month t = fst (snd (date_of (local_day t)))"
definition t_day :: "gotime \<Rightarrow> int" where "t_day t = snd (snd (date_of (local_day t)))"
definition t_weekday :: "gotime \<Rightarrow> int" where "t_weekday t = weekday_of (local_day t)"
definition t_hour :: "gotime \<Rightarrow> int" where "t_hour t = local_sec t mod day_secs div 3600"
definition t_minute :: "gotime \<Rightarrow> int" where "t_minute t = local_sec t mod 3600 div 60"
definition t_second :: "gotime \<Rightarrow> int" where "t_second t = local_sec t mod 60"

text \<open>The English names of \<open>Month.String\<close> and \<open>Weekday.String\<close>, and their text for another number,
  which is printed unsigned.\<close>

definition month_string :: "int \<Rightarrow> string" where
  "month_string m = (if 1 \<le> m \<and> m \<le> 12 then Months defaultLocale ! nat (m - 1) else ''%!Month('' @ itoa (m mod 2 ^ 64) @ '')'')"

definition weekday_string :: "int \<Rightarrow> string" where
  "weekday_string w = (if 0 \<le> w \<and> w \<le> 6 then Weeks defaultLocale ! nat w else ''%!Weekday('' @ itoa (w mod 2 ^ 64) @ '')'')"

text \<open>\<open>t.Format("2006-01-02 15:04:05 -0700")\<close>\<close>

definition year4 :: "int \<Rightarrow> string" where
  "year4 y = (let ds = itoa \<bar>y\<bar> in (if y < 0 then ''-'' else []) @ replicate (4 - length ds) CHR ''0'' @ ds)"

definition zone_text :: "gotime \<Rightarrow> string" where
  "zone_text t = (let minutes = zone_offset (zone t) (ns t div second_ns) sdiv 60
     in (if minutes < 0 then ''-'' else ''+'') @ pad2 (\<bar>minutes\<bar> div 60) @ pad2 (\<bar>minutes\<bar> mod 60))"

definition Format :: "gotime \<Rightarrow> string" where
  "Format t = year4 (t_year t) @ ''-'' @ pad2 (t_month t) @ ''-'' @ pad2 (t_day t) @ '' ''
     @ pad2 (t_hour t) @ '':'' @ pad2 (t_minute t) @ '':'' @ pad2 (t_second t) @ '' '' @ zone_text t"

section \<open>Names\<close>

definition l_FormatMonth :: "Locale \<Rightarrow> int \<Rightarrow> bool \<Rightarrow> string go" where
  "l_FormatMonth l month short =
     (let index = month - 1 in
      if short then
        (if 0 \<le> index \<and> index < int (length (MonthsShort l)) then slice_get (MonthsShort l) index
         else Inr (month_string month))
      else
        (if 0 \<le> index \<and> index < int (length (Months l)) then slice_get (Months l) index
         else Inr (month_string month)))"

definition l_FormatWeekday :: "Locale \<Rightarrow> int \<Rightarrow> bool \<Rightarrow> string go" where
  "l_FormatWeekday l weekday short =
     (let index = weekday in
      if short then
        (if 0 \<le> index \<and> index < int (length (WeeksShort l)) then slice_get (WeeksShort l) index
         else Inr (weekday_string weekday))
      else
        (if 0 \<le> index \<and> index < int (length (Weeks l)) then slice_get (Weeks l) index
         else Inr (weekday_string weekday)))"

section \<open>Templates\<close>

definition placeholder :: "char \<Rightarrow> string" where
  "placeholder k = ''{%'' @ [k] @ ''}''"

definition l_FormatTemplate :: "Locale \<Rightarrow> gotime \<Rightarrow> string \<Rightarrow> string go" where
  "l_FormatTemplate l t template =
     (if template = [] then Inr (Format t)
      else let r1 = replace_all template (placeholder CHR ''y'') (itoa (t_year t)) in
        bindR (l_FormatMonth l (t_month t) False) (\<lambda>month.
        let r2 = replace_all r1 (placeholder CHR ''M'') month;
            r3 = replace_all r2 (placeholder CHR ''d'') (itoa (t_day t)) in
        bindR (l_FormatWeekday l (t_weekday t) False) (\<lambda>weekday.
        let r4 = replace_all r3 (placeholder CHR ''w'') weekday;
            r5 = replace_all r4 (placeholder CHR ''h'') (pad2 (t_hour t));
            r6 = replace_all r5 (placeholder CHR ''m'') (pad2 (t_minute t));
            r7 = replace_all r6 (placeholder CHR ''s'') (pad2 (t_second t))
        in Inr r7)))"

section \<open>Durations\<close>

text \<open>\<open>strings.Split\<close> gives at least one part, so the last two cases are for two parts and more.\<close>

definition formatPlural :: "string \<Rightarrow> int \<Rightarrow> string" where
  "formatPlural fmt count =
     (case split_on CHR ''|'' fmt of
        [_] \<Rightarrow> sprintf fmt (Some (ArgInt count))
      | p # q # _ \<Rightarrow> if count = 1 then p else sprintf q (Some (ArgInt count))
      | [] \<Rightarrow> sprintf fmt (Some (ArgInt count)))"

definition hour_ns :: int where "hour_ns = 3600 * second_ns"
definition minute_ns :: int where "minute_ns = 60 * second_ns"

definition l_FormatDuration :: "Locale \<Rightarrow> int \<Rightarrow> string" where
  "l_FormatDuration l d =
     (if d = 0 then Now l
      else let a = (if d < 0 then wrap64 (- d) else d);
        result =
          (if a \<ge> 365 * 24 * hour_ns then formatPlural (Year l) (a sdiv (365 * 24 * hour_ns))
           else if a \<ge> 30 * 24 * hour_ns then formatPlural (Month l) (a sdiv (30 * 24 * hour_ns))
           else if a \<ge> 7 * 24 * hour_ns then formatPlural (Week l) (a sdiv (7 * 24 * hour_ns))
           else if a \<ge> 24 * hour_ns then formatPlural (Day l) (a sdiv (24 * hour_ns))
           else if a \<ge> hour_ns then formatPlural (Hour l) (a sdiv hour_ns)
           else if a \<ge> minute_ns then formatPlural (Minute l) (a sdiv minute_ns)
           else formatPlural (Second l) (a sdiv second_ns))
      in if d < 0 then sprintf (Ago l) (Some (ArgStr result))
         else sprintf (FromNow l) (Some (ArgStr result)))"

text \<open>\<open>t.Sub(u)\<close> saturates at the ends of the range of \<open>Duration\<close>.\<close>

definition time_Sub :: "gotime \<Rightarrow> gotime \<Rightarrow> int" where
  "time_Sub t u = (let d = ns t - ns u in
     if d < - (2 ^ 63) then - (2 ^ 63) else if max_i64 < d then max_i64 else d)"

section \<open>The functions of the package\<close>

definition FormatMonth :: "xtime \<Rightarrow> int \<Rightarrow> bool \<Rightarrow> string go" where
  "FormatMonth s month short = bindR (fst (GetCurrentLocale s)) (\<lambda>l. l_FormatMonth l month short)"

definition FormatWeekday :: "xtime \<Rightarrow> int \<Rightarrow> bool \<Rightarrow> string go" where
  "FormatWeekday s weekday short = bindR (fst (GetCurrentLocale s)) (\<lambda>l. l_FormatWeekday l weekday short)"

definition FormatLocalized :: "xtime \<Rightarrow> gotime \<Rightarrow> string \<Rightarrow> string go" where
  "FormatLocalized s t layout = bindR (fst (GetCurrentLocale s)) (\<lambda>l. l_FormatTemplate l t layout)"

definition FormatDuration :: "xtime \<Rightarrow> int \<Rightarrow> string go" where
  "FormatDuration s d = bindR (fst (GetCurrentLocale s)) (\<lambda>l. Inr (l_FormatDuration l d))"

definition FormatRelative :: "xtime \<Rightarrow> gotime \<Rightarrow> gotime \<Rightarrow> string go" where
  "FormatRelative s now t = FormatDuration s (time_Sub t now)"

definition FormatWithLanguage :: "xtime \<Rightarrow> gotime \<Rightarrow> string \<Rightarrow> string \<Rightarrow> string go" where
  "FormatWithLanguage s t language fmt = bindR (fst (GetCurrentLocale s)) (\<lambda>l.
     l_FormatTemplate (case locales s language of Some loc \<Rightarrow> loc | None \<Rightarrow> l) t fmt)"

definition date_text :: "gotime \<Rightarrow> string" where
  "date_text t = itoa (t_year t) @ ''-'' @ pad2 (t_month t) @ ''-'' @ pad2 (t_day t)"

definition clock_text :: "gotime \<Rightarrow> string" where
  "clock_text t = pad2 (t_hour t) @ '':'' @ pad2 (t_minute t) @ '':'' @ pad2 (t_second t)"

definition FormatDateTime :: "xtime \<Rightarrow> gotime \<Rightarrow> string go" where
  "FormatDateTime s t = bindR (fst (GetCurrentLocale s)) (\<lambda>l. case getFormat l ''datetime'' of
     Some fmt \<Rightarrow> FormatWithLanguage s t (Language l) fmt
   | None \<Rightarrow> Inr (date_text t @ '' '' @ clock_text t))"

definition FormatDate :: "xtime \<Rightarrow> gotime \<Rightarrow> string go" where
  "FormatDate s t = bindR (fst (GetCurrentLocale s)) (\<lambda>l. case getFormat l ''date'' of
     Some fmt \<Rightarrow> FormatWithLanguage s t (Language l) fmt
   | None \<Rightarrow> Inr (date_text t))"

definition FormatTime :: "xtime \<Rightarrow> gotime \<Rightarrow> string go" where
  "FormatTime s t = bindR (fst (GetCurrentLocale s)) (\<lambda>l. case getFormat l ''time'' of
     Some fmt \<Rightarrow> FormatWithLanguage s t (Language l) fmt
   | None \<Rightarrow> Inr (clock_text t))"

end
