(* ===== verification/Format_Props.thy ===== *)
theory Format_Props
  imports Format_Model
begin

text \<open>
  Properties of the formatting functions of \<open>xtime\<close>: the seven replacements of \<open>FormatTemplate\<close> are
  one pass over the template, and \<open>FormatDuration\<close> counts the largest unit that fits.
\<close>

section \<open>One pass over a template\<close>

text \<open>The specification: every placeholder is replaced by its value, everything else is kept.\<close>

function fill :: "(char \<rightharpoonup> string) \<Rightarrow> string \<Rightarrow> string" where
  "fill \<rho> [] = []"
| "fill \<rho> (c # cs) = (case cs of
      p # k # b # rest \<Rightarrow>
        (if c = CHR ''{'' \<and> p = CHR ''%'' \<and> b = CHR ''}'' \<and> \<rho> k \<noteq> None then the (\<rho> k) @ fill \<rho> rest
         else c # fill \<rho> cs)
    | _ \<Rightarrow> c # fill \<rho> cs)"
  by pat_completeness auto
termination by (relation "measure (\<lambda>(_, s). length s)") auto

definition template_keys :: string where "template_keys = ''yMdwhms''"

text \<open>A value that cannot be mistaken for a part of a placeholder.\<close>

definition inert :: "string \<Rightarrow> bool" where
  "inert u \<longleftrightarrow> u \<noteq> [] \<and> CHR ''{'' \<notin> set u \<and> CHR ''%'' \<notin> set u \<and> CHR ''}'' \<notin> set u
     \<and> (\<forall>k \<in> set template_keys. u \<noteq> [k])"

lemma fill_empty: "fill Map.empty s = s"
  by (induction "Map.empty :: char \<rightharpoonup> string" s rule: fill.induct) (auto split: list.splits)

lemma fill_value: "\<rho> k = Some u \<Longrightarrow> fill \<rho> (placeholder k @ rest) = u @ fill \<rho> rest"
  by (simp add: placeholder_def)

lemma fill_char: "\<nexists>k rest. c # cs = placeholder k @ rest \<and> \<rho> k \<noteq> None \<Longrightarrow> fill \<rho> (c # cs) = c # fill \<rho> cs"
  by (auto simp: placeholder_def split: list.splits)

lemma fill_other: "c \<noteq> CHR ''{'' \<Longrightarrow> fill \<rho> (c # cs) = c # fill \<rho> cs"
  by (rule fill_char) (simp add: placeholder_def)

lemma fill_unset:
  assumes "\<rho> k = None" and "k \<noteq> CHR ''{''"
  shows "fill \<rho> (placeholder k @ rest) = placeholder k @ fill \<rho> rest"
proof -
  have "fill \<rho> (CHR ''{'' # CHR ''%'' # k # CHR ''}'' # rest) = CHR ''{'' # fill \<rho> (CHR ''%'' # k # CHR ''}'' # rest)"
    by (rule fill_char) (use assms in \<open>auto simp: placeholder_def\<close>)
  then show ?thesis using assms(2) by (simp add: placeholder_def fill_other del: fill.simps(2))
qed

declare fill.simps(2) [simp del]

text \<open>The first character comes from a value or from the template.\<close>

lemma fill_head:
  assumes "\<And>u. u \<in> ran \<rho> \<Longrightarrow> inert u"
  obtains "s = []" "fill \<rho> s = []"
  | k u rest where "s = placeholder k @ rest" "\<rho> k = Some u" "inert u" "fill \<rho> s = u @ fill \<rho> rest"
  | c cs where "s = c # cs" "fill \<rho> s = c # fill \<rho> cs"
proof (cases s)
  case (Cons c cs)
  show thesis
  proof (cases "\<exists>k rest. s = placeholder k @ rest \<and> \<rho> k \<noteq> None")
    case True
    then obtain k u rest where "s = placeholder k @ rest" "\<rho> k = Some u" by blast
    then show thesis using that(2) [of k rest u] assms [of u] by (simp add: fill_value ranI)
  next
    case False
    then show thesis using that(3) [OF Cons] fill_char [of c cs \<rho>] Cons by blast
  qed
qed (use that(1) in simp)

text \<open>Filling does not make a placeholder: an unfilled one in the result was in the template.\<close>

lemma fill_keeps_tail:
  assumes ran: "\<And>u. u \<in> ran \<rho> \<Longrightarrow> inert u" and k: "k \<in> set template_keys"
    and p: "fill \<rho> s = CHR ''%'' # k # CHR ''}'' # r"
  shows "\<exists>rest. s = CHR ''%'' # k # CHR ''}'' # rest"
proof -
  from ran have "\<exists>s1. s = CHR ''%'' # s1 \<and> fill \<rho> s1 = k # CHR ''}'' # r"
    by (rule fill_head [of \<rho> s]) (use p in \<open>auto simp: inert_def append_eq_Cons_conv Cons_eq_append_conv\<close>)
  then obtain s1 where s1: "s = CHR ''%'' # s1" "fill \<rho> s1 = k # CHR ''}'' # r" by blast
  from ran have "\<exists>s2. s1 = k # s2 \<and> fill \<rho> s2 = CHR ''}'' # r"
    by (rule fill_head [of \<rho> s1]) (use s1(2) k in \<open>auto simp: inert_def append_eq_Cons_conv Cons_eq_append_conv\<close>)
  then obtain s2 where s2: "s1 = k # s2" "fill \<rho> s2 = CHR ''}'' # r" by blast
  from ran have "\<exists>s3. s2 = CHR ''}'' # s3"
    by (rule fill_head [of \<rho> s2]) (use s2(2) in \<open>auto simp: inert_def append_eq_Cons_conv Cons_eq_append_conv\<close>)
  with s1 s2 show ?thesis by blast
qed

lemma replace_skips: "CHR ''{'' \<notin> set u \<Longrightarrow> replace_all (u @ s) (placeholder k) v = u @ replace_all s (placeholder k) v"
  by (induction u) (auto simp: placeholder_def)

lemma replace_placeholder: "replace_all (placeholder k @ s) (placeholder k) v = v @ replace_all s (placeholder k) v"
  by (simp add: placeholder_def)

lemma placeholder_length: "length (placeholder k) = 4"
  by (simp add: placeholder_def)

definition inert_ran :: "(char \<rightharpoonup> string) \<Rightarrow> bool" where
  "inert_ran \<rho> \<longleftrightarrow> (\<forall>u \<in> ran \<rho>. inert u)"

lemma inert_upd: "inert_ran Map.empty" "inert_ran \<rho> \<Longrightarrow> inert v \<Longrightarrow> inert_ran (\<rho>(k \<mapsto> v))"
  by (auto simp: inert_ran_def ran_def)

lemma replace_fill:
  assumes inert_ran: "inert_ran \<rho>" and k: "k \<in> set template_keys" "\<rho> k = None"
  shows "replace_all (fill \<rho> s) (placeholder k) v = fill (\<rho>(k \<mapsto> v)) s"
proof (induction s rule: length_induct)
  case (1 s)
  have ran: "\<And>u. u \<in> ran \<rho> \<Longrightarrow> inert u" using inert_ran by (simp add: inert_ran_def)
  let ?\<sigma> = "\<rho>(k \<mapsto> v)"
  have ih: "length ys < length s \<Longrightarrow> replace_all (fill \<rho> ys) (placeholder k) v = fill ?\<sigma> ys" for ys
    using "1.IH" by blast
  consider "s = []" | j rest where "s = placeholder j @ rest" "?\<sigma> j \<noteq> None"
    | c cs where "s = c # cs" "\<nexists>j rest. s = placeholder j @ rest \<and> ?\<sigma> j \<noteq> None"
    by (cases s) blast+
  then have "replace_all (fill \<rho> s) (placeholder k) v = fill ?\<sigma> s"
  proof cases
    case 1
    then show ?thesis by simp
  next
    case (2 j rest)
    then have len: "length rest < length s" by (simp add: placeholder_length)
    have fs: "fill ?\<sigma> s = the (?\<sigma> j) @ fill ?\<sigma> rest" using 2 by (auto simp: fill_value)
    show ?thesis
    proof (cases "j = k")
      case True
      have "k \<noteq> CHR ''{''" using k by (auto simp: template_keys_def)
      then have "fill \<rho> s = placeholder k @ fill \<rho> rest" using 2 True k by (simp add: fill_unset)
      moreover have "replace_all (fill \<rho> rest) (placeholder k) v = fill ?\<sigma> rest" by (rule ih [OF len])
      ultimately show ?thesis using fs True by (simp add: replace_placeholder)
    next
      case False
      then obtain u where u: "\<rho> j = Some u" "inert u" using 2 ran by (auto intro: ranI)
      then have "fill \<rho> s = u @ fill \<rho> rest" using 2 by (simp add: fill_value)
      then show ?thesis using ih [OF len] fs u False replace_skips [of u] by (simp add: inert_def)
    qed
  next
    case (3 c cs)
    then have nj: "\<nexists>j rest. s = placeholder j @ rest \<and> \<rho> j \<noteq> None" by (auto split: if_splits)
    have f: "fill \<rho> s = c # fill \<rho> cs" "fill ?\<sigma> s = c # fill ?\<sigma> cs"
      using fill_char 3 nj by blast+
    have "\<not> has_prefix (c # fill \<rho> cs) (placeholder k)"
    proof
      assume "has_prefix (c # fill \<rho> cs) (placeholder k)"
      then obtain r where "c = CHR ''{''" "fill \<rho> cs = CHR ''%'' # k # CHR ''}'' # r"
        by (auto simp: has_prefix_iff placeholder_def)
      with fill_keeps_tail [OF ran k(1)] 3 show False by (fastforce simp: placeholder_def)
    qed
    then show ?thesis using ih [of cs] 3(1) f by simp
  qed
  then show ?case .
qed

section \<open>The values are inert\<close>

lemma digits_inert: "u \<noteq> [] \<Longrightarrow> \<forall>c \<in> set u. is_digit c \<or> c = CHR ''-'' \<Longrightarrow> inert u"
proof -
  assume u: "u \<noteq> []" "\<forall>c \<in> set u. is_digit c \<or> c = CHR ''-''"
  have n: "\<not> is_digit c \<and> c \<noteq> CHR ''-''" if "c \<in> set ''{%}yMdwhms''" for c
    using that by (auto simp: is_digit_def)
  show "inert u" unfolding inert_def
  proof (intro conjI ballI)
    fix k assume "k \<in> set template_keys"
    then have "\<not> is_digit k \<and> k \<noteq> CHR ''-''" using n [of k] by (auto simp: template_keys_def)
    then show "u \<noteq> [k]" using u by auto
  qed (use u n in auto)
qed

lemma itoa_inert: "inert (itoa i)"
  by (rule digits_inert) (use show_nat_digits in \<open>auto simp: itoa_def\<close>)

lemma pad2_inert: "inert (pad2 i)"
  by (rule digits_inert) (use show_nat_digits in \<open>auto simp: pad2_def itoa_def is_digit_def split: if_splits\<close>)

text \<open>A locale whose month and weekday names are inert, like the built-in one.\<close>

definition plain_locale :: "Locale \<Rightarrow> bool" where
  "plain_locale l \<longleftrightarrow> (\<forall>u \<in> set (Months l) \<union> set (Weeks l). inert u)"

lemma english_names_inert: "u \<in> set (Months defaultLocale) \<union> set (Weeks defaultLocale) \<Longrightarrow> inert u"
  unfolding defaultLocale_def by (simp, elim disjE) (simp_all add: inert_def template_keys_def)

lemma default_plain: "plain_locale defaultLocale"
  by (simp add: plain_locale_def english_names_inert)

lemma t_month_range: "1 \<le> t_month t \<and> t_month t \<le> 12"
  using date_of_parts(1,2) [of "local_day t"] by (cases "date_of (local_day t)") (auto simp: t_month_def)

lemma month_name:
  assumes "plain_locale l"
  obtains u where "l_FormatMonth l (t_month t) False = Inr u" "inert u"
proof (cases "t_month t - 1 < int (length (Months l))")
  case True
  then have "nat (t_month t - 1) < length (Months l)" using t_month_range [of t] by auto
  then have "inert (Months l ! nat (t_month t - 1))" using assms by (simp add: plain_locale_def)
  then show thesis using that True t_month_range [of t] by (simp add: l_FormatMonth_def slice_get_def)
next
  case False
  have "length (Months defaultLocale) = 12" by (simp add: defaultLocale_def)
  then have "inert (Months defaultLocale ! nat (t_month t - 1))"
    using t_month_range [of t] by (intro english_names_inert) auto
  then show thesis using that False t_month_range [of t] by (simp add: l_FormatMonth_def month_string_def)
qed

lemma weekday_name:
  assumes "plain_locale l"
  obtains u where "l_FormatWeekday l (t_weekday t) False = Inr u" "inert u"
proof -
  have r: "0 \<le> t_weekday t" "t_weekday t \<le> 6" by (simp_all add: t_weekday_def weekday_of_def)
  show thesis
  proof (cases "t_weekday t < int (length (Weeks l))")
    case True
    then have "nat (t_weekday t) < length (Weeks l)" using r by auto
    then have "inert (Weeks l ! nat (t_weekday t))" using assms by (simp add: plain_locale_def)
    then show thesis using that True r by (simp add: l_FormatWeekday_def slice_get_def)
  next
    case False
    have "length (Weeks defaultLocale) = 7" by (simp add: defaultLocale_def)
    then have "inert (Weeks defaultLocale ! nat (t_weekday t))" using r by (intro english_names_inert) auto
    then show thesis using that False r by (simp add: l_FormatWeekday_def weekday_string_def)
  qed
qed

text \<open>The values of the placeholders.\<close>

definition template_values :: "gotime \<Rightarrow> string \<Rightarrow> string \<Rightarrow> char \<rightharpoonup> string" where
  "template_values t month weekday = [CHR ''y'' \<mapsto> itoa (t_year t), CHR ''M'' \<mapsto> month, CHR ''d'' \<mapsto> itoa (t_day t),
     CHR ''w'' \<mapsto> weekday, CHR ''h'' \<mapsto> pad2 (t_hour t), CHR ''m'' \<mapsto> pad2 (t_minute t), CHR ''s'' \<mapsto> pad2 (t_second t)]"

lemma FormatTemplate_fill:
  assumes m: "l_FormatMonth l (t_month t) False = Inr month" "inert month"
    and w: "l_FormatWeekday l (t_weekday t) False = Inr weekday" "inert weekday" and t: "template \<noteq> []"
  shows "l_FormatTemplate l t template = Inr (fill (template_values t month weekday) template)"
proof -
  have keys: "set template_keys = {CHR ''y'', CHR ''M'', CHR ''d'', CHR ''w'', CHR ''h'', CHR ''m'', CHR ''s''}"
    by (simp add: template_keys_def)
  let ?y = "[CHR ''y'' \<mapsto> itoa (t_year t)]" let ?M = "?y(CHR ''M'' \<mapsto> month)" let ?d = "?M(CHR ''d'' \<mapsto> itoa (t_day t))"
  let ?w = "?d(CHR ''w'' \<mapsto> weekday)" let ?h = "?w(CHR ''h'' \<mapsto> pad2 (t_hour t))" let ?m = "?h(CHR ''m'' \<mapsto> pad2 (t_minute t))"
  note ok = inert_upd itoa_inert pad2_inert m(2) w(2)
  have "replace_all template (placeholder CHR ''y'') (itoa (t_year t)) = fill ?y template"
    using replace_fill [OF inert_upd(1), of "CHR ''y''" template] by (simp add: fill_empty keys)
  moreover have "replace_all (fill ?y template) (placeholder CHR ''M'') month = fill ?M template"
    by (rule replace_fill) (simp_all add: keys ok)
  moreover have "replace_all (fill ?M template) (placeholder CHR ''d'') (itoa (t_day t)) = fill ?d template"
    by (rule replace_fill) (simp_all add: keys ok)
  moreover have "replace_all (fill ?d template) (placeholder CHR ''w'') weekday = fill ?w template"
    by (rule replace_fill) (simp_all add: keys ok)
  moreover have "replace_all (fill ?w template) (placeholder CHR ''h'') (pad2 (t_hour t)) = fill ?h template"
    by (rule replace_fill) (simp_all add: keys ok)
  moreover have "replace_all (fill ?h template) (placeholder CHR ''m'') (pad2 (t_minute t)) = fill ?m template"
    by (rule replace_fill) (simp_all add: keys ok)
  moreover have "replace_all (fill ?m template) (placeholder CHR ''s'') (pad2 (t_second t))
      = fill (template_values t month weekday) template"
    unfolding template_values_def by (rule replace_fill) (simp_all add: keys ok)
  ultimately show ?thesis using t m w by (simp add: l_FormatTemplate_def Let_def)
qed

text \<open>\<open>FormatTemplate\<close> replaces its placeholders one kind after the other, yet on a locale whose month
  and weekday names are inert (not empty, without braces and percent signs, not one of the letters
  of the placeholders) the result is that of a single pass over the template: each placeholder gives its
  value, no inserted value is changed by a later replacement, none makes a new placeholder, and all
  other text, unknown placeholders included, is kept. An empty template gives the default format.
\<close>

theorem FormatTemplate_single_pass:
  assumes "plain_locale l" and "template \<noteq> []"
  shows "l_FormatTemplate l t [] = Inr (Format t) \<and>
    (\<exists>month weekday. l_FormatMonth l (t_month t) False = Inr month \<and> l_FormatWeekday l (t_weekday t) False = Inr weekday
      \<and> l_FormatTemplate l t template = Inr (fill (template_values t month weekday) template))"
proof -
  obtain month where m: "l_FormatMonth l (t_month t) False = Inr month" "inert month" using month_name [OF assms(1)] by blast
  obtain weekday where w: "l_FormatWeekday l (t_weekday t) False = Inr weekday" "inert weekday" using weekday_name [OF assms(1)] by blast
  have "l_FormatTemplate l t [] = Inr (Format t)" by (simp add: l_FormatTemplate_def)
  then show ?thesis using FormatTemplate_fill [OF m w assms(2)] m(1) w(1) by blast
qed

theorem FormatTemplate_single_pass_witness:
  "\<exists>month weekday. l_FormatTemplate defaultLocale zero_time ''{%y}-{%x}''
     = Inr (fill (template_values zero_time month weekday) ''{%y}-{%x}'')"
  using FormatTemplate_single_pass [OF default_plain, of "''{%y}-{%x}''" zero_time] by blast

section \<open>Durations\<close>

text \<open>The specification: the largest unit, of a table in decreasing order, that fits; else the second.\<close>

definition duration_units :: "Locale \<Rightarrow> (int \<times> string) list" where
  "duration_units l = [(365 * 24 * hour_ns, Year l), (30 * 24 * hour_ns, Month l), (7 * 24 * hour_ns, Week l),
     (24 * hour_ns, Day l), (hour_ns, Hour l), (minute_ns, Minute l)]"

definition unit_for :: "Locale \<Rightarrow> int \<Rightarrow> int \<times> string" where
  "unit_for l a = (case find (\<lambda>(u, _). u \<le> a) (duration_units l) of
     Some x \<Rightarrow> x | None \<Rightarrow> (second_ns, Second l))"

lemma ns_pos: "0 < hour_ns" "0 < minute_ns"
  by (simp_all add: hour_ns_def minute_ns_def second_ns_def)

lemma unit_pos: "0 < fst (unit_for l a)"
  using ns_pos units_pos(1) by (simp add: unit_for_def duration_units_def)

lemma magnitude: "is_i64 d \<Longrightarrow> d \<noteq> - (2 ^ 63) \<Longrightarrow> (if d < 0 then wrap64 (- d) else d) = \<bar>d\<bar>"
  using negate_delay [of d] by simp

lemma FormatDuration_units:
  assumes "is_i64 d" and "d \<noteq> - (2 ^ 63)" and "d \<noteq> 0"
  shows "l_FormatDuration l d = sprintf (if d < 0 then Ago l else FromNow l)
    (Some (ArgStr (formatPlural (snd (unit_for l \<bar>d\<bar>)) (\<bar>d\<bar> div fst (unit_for l \<bar>d\<bar>)))))"
proof -
  define a where "a = \<bar>d\<bar>"
  have a: "(if d < 0 then wrap64 (- d) else d) = a" unfolding a_def by (rule magnitude [OF assms(1,2)])
  have q: "a sdiv u = a div u" if "0 < u" for u using sdiv_nonneg [of a u] that by (simp add: a_def)
  show ?thesis using assms(3) ns_pos units_pos(1)
    unfolding l_FormatDuration_def Let_def a a_def [symmetric] unit_for_def duration_units_def by (simp add: q)
qed

text \<open>
  The form of the texts of a locale: a unit text is a text around \<open>%d\<close>, before which the text for one unit
  may come with a bar; the texts for the past and the future are texts around \<open>%s\<close>.
\<close>

definition plain_text :: "string \<Rightarrow> bool" where
  "plain_text p \<longleftrightarrow> CHR ''%'' \<notin> set p \<and> CHR ''|'' \<notin> set p"

definition unit_form :: "string \<Rightarrow> string option \<Rightarrow> string \<Rightarrow> string \<Rightarrow> bool" where
  "unit_form fmt one pre post \<longleftrightarrow> plain_text pre \<and> plain_text post
     \<and> (case one of None \<Rightarrow> fmt = pre @ ''%d'' @ post
        | Some p \<Rightarrow> CHR ''|'' \<notin> set p \<and> fmt = p @ ''|'' @ pre @ ''%d'' @ post)"

definition around_form :: "string \<Rightarrow> string \<Rightarrow> string \<Rightarrow> bool" where
  "around_form fmt before after \<longleftrightarrow> plain_text before \<and> plain_text after \<and> fmt = before @ ''%s'' @ after"

text \<open>The number with its unit: the text for one, where there is one, stands for exactly one unit.\<close>

definition unit_text :: "string option \<Rightarrow> string \<Rightarrow> string \<Rightarrow> int \<Rightarrow> string" where
  "unit_text one pre post n = (case one of
     Some p \<Rightarrow> if n = 1 then p else pre @ itoa n @ post
   | None \<Rightarrow> pre @ itoa n @ post)"

lemma sprintf_rest: "CHR ''%'' \<notin> set p \<Longrightarrow> sprintf p None = p"
  by (induction p) auto

lemma sprintf_int: "plain_text pre \<Longrightarrow> plain_text post \<Longrightarrow> sprintf (pre @ ''%d'' @ post) (Some (ArgInt n)) = pre @ itoa n @ post"
  by (induction pre) (auto simp: plain_text_def sprintf_rest)

lemma sprintf_around: "around_form fmt before after \<Longrightarrow> sprintf fmt (Some (ArgStr t)) = before @ t @ after"
  unfolding around_form_def by (induction before arbitrary: fmt) (auto simp: plain_text_def sprintf_rest)

lemma formatPlural_form:
  assumes "unit_form fmt one pre post"
  shows "formatPlural fmt n = unit_text one pre post n"
proof -
  have plain: "plain_text pre" "plain_text post" using assms by (simp_all add: unit_form_def)
  then have "CHR ''|'' \<notin> set (pre @ ''%d'' @ post)" by (simp add: plain_text_def)
  note single = split_on_absent [OF this]
  show ?thesis
  proof (cases one)
    case None
    then have fmt: "fmt = pre @ ''%d'' @ post" using assms by (simp add: unit_form_def)
    show ?thesis unfolding fmt formatPlural_def single using sprintf_int [OF plain] None by (simp add: unit_text_def)
  next
    case (Some p)
    then have p: "CHR ''|'' \<notin> set p" and fmt: "fmt = p @ CHR ''|'' # (pre @ ''%d'' @ post)"
      using assms by (simp_all add: unit_form_def)
    show ?thesis unfolding fmt formatPlural_def split_on_append [OF p] single
      using sprintf_int [OF plain] Some by (simp add: unit_text_def)
  qed
qed

text \<open>C28: \<open>FormatDuration\<close> gives the number of whole units, of the largest unit that fits: of 365 days, 30
  days, 7 days, a day, an hour and a minute the first that is not longer than the duration, else the
  second. For every duration but zero, which has a text of its own, and the least \<open>Duration\<close>, whose negation
  is itself: in a locale whose texts are of the form that all the shipped ones have
  (\<open>shipped_counts\<close> of \<open>Shipped_Locales\<close>), the result is the text for one
  unit if there is one and the number is 1, and otherwise the decimal number in the text of the unit,
  placed in the locale's text for the past or the future after its sign. The number is at least one from a
  second on, and what is cut off is less than a unit.
\<close>

theorem FormatDuration_largest_unit:
  assumes "is_i64 d" and "d \<noteq> - (2 ^ 63)" and "d \<noteq> 0"
    and "unit_for l \<bar>d\<bar> = (u, fmt)" and "unit_form fmt one pre post"
    and "around_form (if d < 0 then Ago l else FromNow l) before after"
  shows "l_FormatDuration l 0 = Now l \<and>
    (\<exists>n. n * u \<le> \<bar>d\<bar> \<and> \<bar>d\<bar> < (n + 1) * u \<and> 0 \<le> n \<and> (second_ns \<le> \<bar>d\<bar> \<longrightarrow> 1 \<le> n)
      \<and> l_FormatDuration l d = before @ unit_text one pre post n @ after)"
proof -
  have pos: "0 < u" using unit_pos [of l "\<bar>d\<bar>"] assms(4) by simp
  have fits: "u \<le> \<bar>d\<bar>" if "second_ns \<le> \<bar>d\<bar>"
    using assms(4) that by (auto simp: unit_for_def duration_units_def split: if_splits)
  let ?n = "\<bar>d\<bar> div u"
  have "?n * u + \<bar>d\<bar> mod u = \<bar>d\<bar>" "0 \<le> \<bar>d\<bar> mod u" "\<bar>d\<bar> mod u < u" using pos by simp_all
  moreover from this have "?n * u \<le> \<bar>d\<bar>" "\<bar>d\<bar> < (?n + 1) * u" unfolding distrib_right by linarith+
  moreover have "0 \<le> ?n" "second_ns \<le> \<bar>d\<bar> \<longrightarrow> 1 \<le> ?n"
    using pos fits by (simp_all add: pos_imp_zdiv_nonneg_iff) (use zdiv_mono1 [of u "\<bar>d\<bar>" u] in auto)
  moreover have "l_FormatDuration l d = before @ unit_text one pre post ?n @ after"
    using FormatDuration_units [OF assms(1-3), of l] assms(4) formatPlural_form [OF assms(5)] sprintf_around [OF assms(6)]
    by simp
  ultimately show ?thesis by (intro conjI exI [of _ ?n]) (simp_all add: l_FormatDuration_def)
qed

theorem FormatDuration_largest_unit_witness:
  "l_FormatDuration defaultLocale (- (90 * 60 * 10 ^ 9)) = ''1 hour ago''
   \<and> l_FormatDuration defaultLocale (150 * 60 * 10 ^ 9) = ''2 hours from now''"
proof -
  have u: "unit_for defaultLocale (90 * 60 * 10 ^ 9) = (hour_ns, ''1 hour|%d hours'')"
    "unit_for defaultLocale (150 * 60 * 10 ^ 9) = (hour_ns, ''1 hour|%d hours'')"
    by (simp_all add: unit_for_def duration_units_def hour_ns_def second_ns_def defaultLocale_def)
  have f: "unit_form ''1 hour|%d hours'' (Some ''1 hour'') [] '' hours''"
    "around_form (Ago defaultLocale) [] '' ago''" "around_form (FromNow defaultLocale) [] '' from now''"
    by (simp_all add: unit_form_def around_form_def plain_text_def defaultLocale_def)
  have i: "is_i64 (- (90 * 60 * 10 ^ 9))" "is_i64 (150 * 60 * 10 ^ 9)" by (simp_all add: is_i64_def)
  have "\<exists>n. n * hour_ns \<le> 90 * 60 * 10 ^ 9 \<and> 90 * 60 * 10 ^ 9 < (n + 1) * hour_ns
      \<and> l_FormatDuration defaultLocale (- (90 * 60 * 10 ^ 9)) = unit_text (Some ''1 hour'') [] '' hours'' n @ '' ago''"
    using FormatDuration_largest_unit [OF i(1), of defaultLocale hour_ns, OF _ _ _ f(1), of "[]" "'' ago''"] u f by auto
  then obtain n where "n * hour_ns \<le> 90 * 60 * 10 ^ 9" "90 * 60 * 10 ^ 9 < (n + 1) * hour_ns"
    and n: "l_FormatDuration defaultLocale (- (90 * 60 * 10 ^ 9)) = unit_text (Some ''1 hour'') [] '' hours'' n @ '' ago''"
    by blast
  then have "n = 1" by (simp add: hour_ns_def second_ns_def)
  have "\<exists>n. n * hour_ns \<le> 150 * 60 * 10 ^ 9 \<and> 150 * 60 * 10 ^ 9 < (n + 1) * hour_ns
      \<and> l_FormatDuration defaultLocale (150 * 60 * 10 ^ 9) = unit_text (Some ''1 hour'') [] '' hours'' n @ '' from now''"
    using FormatDuration_largest_unit [OF i(2), of defaultLocale hour_ns, OF _ _ _ f(1), of "[]" "'' from now''"] u f by auto
  then obtain k where "k * hour_ns \<le> 150 * 60 * 10 ^ 9" "150 * 60 * 10 ^ 9 < (k + 1) * hour_ns"
    and k: "l_FormatDuration defaultLocale (150 * 60 * 10 ^ 9) = unit_text (Some ''1 hour'') [] '' hours'' k @ '' from now''"
    by blast
  then have "k = 2" by (simp add: hour_ns_def second_ns_def)
  have two: "itoa 2 = ''2''" by (simp add: itoa_def show_nat.simps digit_def char_of_def bit_0)
  show ?thesis unfolding n k \<open>n = 1\<close> \<open>k = 2\<close> unit_text_def two by simp
qed

section \<open>The least duration\<close>

lemma least_duration_text: "l_FormatDuration defaultLocale (- (2 ^ 63)) = ''-9223372036 seconds ago''"
proof -
  have w: "wrap64 (2 ^ 63) = - (2 ^ 63)" using wrap64_over [of "2 ^ 63"] by simp
  have q: "- (2 ^ 63) sdiv second_ns = (- 9223372036 :: int)" by (simp add: second_ns_def signed_divide_int_def)
  have i: "itoa (- 9223372036) = ''-9223372036''"
    by (simp add: itoa_def show_nat.simps digit_def char_of_def bit_0)
  have "formatPlural (Second defaultLocale) (- 9223372036) = ''-9223372036 seconds''"
    by (simp add: formatPlural_def defaultLocale_def i)
  moreover have "sprintf (Ago defaultLocale) (Some (ArgStr ''-9223372036 seconds'')) = ''-9223372036 seconds ago''"
    by (simp add: defaultLocale_def)
  ultimately show ?thesis using w q ns_pos by (simp add: l_FormatDuration_def)
qed

lemma current_init: "fst (GetCurrentLocale xtime_init) = Inr defaultLocale"
  by (simp add: GetCurrentLocale_def xtime_init_def initDefaultLocale_def)

text \<open>\<open>FormatRelative\<close> of a time 292.3 years or more in the past, such as the zero time that \<open>Time(0)\<close>
  returns, gives a negative number of seconds: the difference saturates at the least \<open>Duration\<close>, whose
  negation in \<open>FormatDuration\<close> wraps to itself, so no unit fits it.
\<close>

theorem FormatRelative_of_far_past:
  assumes "ns t \<le> ns now - 2 ^ 63"
  shows "FormatRelative xtime_init now t = Inr ''-9223372036 seconds ago''"
proof -
  have "time_Sub t now = - (2 ^ 63)" using assms by (auto simp: time_Sub_def Let_def max_i64_def)
  then show ?thesis by (simp only: FormatRelative_def FormatDuration_def current_init least_duration_text bindR_simps)
qed

theorem FormatRelative_of_far_past_witness:
  "FormatRelative xtime_init (Time 1700000000) (Time 0) = Inr ''-9223372036 seconds ago''"
proof (rule FormatRelative_of_far_past)
  have "unix_epoch = 62135596800" by code_simp
  then show "ns (Time 0) \<le> ns (Time 1700000000) - 2 ^ 63" by (simp add: Time_def zero_time_def second_ns_def)
qed

end
