(* ===== verification/Shipped_Locales.thy ===== *)
theory Shipped_Locales
  imports Locale_Data Format_Props
begin

text \<open>
  What the formatting functions of \<open>xtime/format.go\<close> give with the language files that the repository ships
  (\<open>xtime/lang\<close>): the files are well formed, and after any calls that select a language the dates and times
  are those of one of these languages, each placeholder with the value of its own part of the time.
\<close>

section \<open>Texts outside ASCII\<close>

definition beyond_ascii :: "nat list \<Rightarrow> bool" where
  "beyond_ascii points \<longleftrightarrow> points \<noteq> [] \<and> list_all (\<lambda>n. 0x80 \<le> n \<and> n < 0x10000) points"

lemma utf8_char_high:
  assumes "0x80 \<le> n" and "n < 0x10000" and "c \<in> set (utf8_char n)"
  shows "0x80 \<le> (of_char c :: nat)"
proof -
  have k: "(of_char (char_of k :: char) :: nat) = k" if "k < 256" for k :: nat using that by simp
  have m: "k mod 64 < 64" for k :: nat by simp
  have b: "n div 4096 < 16" "n < 0x800 \<Longrightarrow> n div 64 < 32" using assms(2) by simp_all
  have "0x80 \<le> (of_char (char_of (0x80 + k mod 64) :: char) :: nat)" for k :: nat
    using m [of k] by (subst k) simp_all
  moreover have "0x80 \<le> (of_char (char_of (0xE0 + n div 4096) :: char) :: nat)"
    using b(1) by (subst k) simp_all
  moreover have "0x80 \<le> (of_char (char_of (0xC0 + n div 64) :: char) :: nat)" if "n < 0x800"
    using b(2) [OF that] by (subst k) simp_all
  ultimately show ?thesis using assms by (auto simp: utf8_char_def simp del: of_char_of split: if_splits)
qed

lemma utf8_high: "beyond_ascii points \<Longrightarrow> c \<in> set (utf8 points) \<Longrightarrow> 0x80 \<le> (of_char c :: nat)"
  using utf8_char_high by (auto simp: beyond_ascii_def utf8_def list_all_iff)

lemma utf8_nonempty: "beyond_ascii points \<Longrightarrow> utf8 points \<noteq> []"
  by (cases points) (auto simp: beyond_ascii_def utf8_def utf8_char_def)

text \<open>Such a text has no ASCII character in it, and is inert in a template.\<close>

lemma utf8_no_ascii [simp]: "beyond_ascii points \<Longrightarrow> (of_char c :: nat) < 0x80 \<Longrightarrow> c \<notin> set (utf8 points)"
  using utf8_high by fastforce

lemma utf8_inert: "beyond_ascii points \<Longrightarrow> inert (utf8 points)"
proof -
  assume b: "beyond_ascii points"
  have "utf8 points \<noteq> [k]" if "k \<in> set template_keys" for k
  proof
    assume "utf8 points = [k]"
    then have "0x80 \<le> (of_char k :: nat)" using utf8_high [OF b, of k] by simp
    then show False using that by (auto simp: template_keys_def)
  qed
  then show ?thesis using b utf8_nonempty by (simp add: inert_def)
qed

lemma fill_utf8: "CHR ''{'' \<notin> set u \<Longrightarrow> fill \<rho> (u @ rest) = u @ fill \<rho> rest"
  by (induction u) (auto simp: fill_other)

section \<open>The files are well formed\<close>

definition shipped :: "string \<Rightarrow> localeData" where
  "shipped language =
     (if language = ''zh-CN'' then zh_CN_data else if language = ''zh-TW'' then zh_TW_data
      else if language = ''jp'' then jp_data else if language = ''kr'' then kr_data else en_data)"

definition shipped_locale :: "string \<Rightarrow> Locale" where
  "shipped_locale language = locale_of_data language (shipped language)"

lemma split_bars:
  assumes "parts \<noteq> []" and "\<forall>p \<in> set parts. CHR ''|'' \<notin> set p"
  shows "split_on CHR ''|'' (bars parts) = parts"
  unfolding bars_def by (rule split_join) (use assms in auto)

text \<open>Twelve months, seven days of the week, names that are inert in a template, and the three formats.\<close>

definition well_formed :: "Locale \<Rightarrow> bool" where
  "well_formed l \<longleftrightarrow> length (Months l) = 12 \<and> length (MonthsShort l) = 12 \<and> length (Weeks l) = 7 \<and> length (WeeksShort l) = 7
     \<and> plain_locale l \<and> (\<forall>k \<in> {''date'', ''datetime'', ''time''}. \<exists>f. getFormat l k = Some f \<and> f \<noteq> [])"

lemma ascii_inert:
  "u \<noteq> [] \<Longrightarrow> list_all (\<lambda>c. c \<noteq> CHR ''{'' \<and> c \<noteq> CHR ''%'' \<and> c \<noteq> CHR ''}'') u \<Longrightarrow> 2 \<le> length u \<Longrightarrow> inert u"
  unfolding inert_def list_all_iff by fastforce

lemmas shipped_defs = shipped_locale_def shipped_def locale_of_data_def zh_CN_data_def zh_TW_data_def jp_data_def kr_data_def
  en_data_def map_text_def

lemma english_is_built_in: "shipped_locale ''en'' = defaultLocale"
  by (simp add: shipped_defs split_bars defaultLocale_def)

lemma well_formed_files:
  "well_formed (shipped_locale ''en'')" "well_formed (shipped_locale ''zh-CN'')" "well_formed (shipped_locale ''zh-TW'')"
  "well_formed (shipped_locale ''jp'')" "well_formed (shipped_locale ''kr'')"
proof -
  have "length (Months defaultLocale) = 12" "length (MonthsShort defaultLocale) = 12" "length (Weeks defaultLocale) = 7"
    "length (WeeksShort defaultLocale) = 7" "Formats defaultLocale ''date'' \<noteq> None" 
    by (simp_all add: defaultLocale_def)
  then show "well_formed (shipped_locale ''en'')"
    using default_plain by (simp add: well_formed_def english_is_built_in getFormat_def) (simp add: defaultLocale_def)
qed (simp_all add: well_formed_def getFormat_def shipped_defs split_bars beyond_ascii_def plain_locale_def utf8_inert)

lemma shipped_well_formed: "k \<in> set validLanguageCodes \<Longrightarrow> well_formed (shipped_locale k)"
  using well_formed_files by (auto simp: validLanguageCodes_def)

text \<open>The texts of the units and of the past and the future are of the form that \<open>FormatDuration\<close> is proved for.\<close>

definition counting_locale :: "Locale \<Rightarrow> bool" where
  "counting_locale l \<longleftrightarrow>
     (\<forall>fmt \<in> {Year l, Month l, Week l, Day l, Hour l, Minute l, Second l}. \<exists>one pre post. unit_form fmt one pre post)
   \<and> (\<forall>fmt \<in> {Ago l, FromNow l}. \<exists>before after. around_form fmt before after)"

lemma unit_form_utf8 [simp]:
  "beyond_ascii points \<Longrightarrow> \<exists>one pre post. unit_form (CHR ''%'' # CHR ''d'' # CHR '' '' # utf8 points) one pre post"
  by (rule exI [of _ None], rule exI [of _ "[]"], rule exI [of _ "CHR '' '' # utf8 points"])
    (simp add: unit_form_def plain_text_def)

lemma around_form_utf8 [simp]:
  "beyond_ascii points \<Longrightarrow> \<exists>before after. around_form (CHR ''%'' # CHR ''s'' # utf8 points) before after"
  by (rule exI [of _ "[]"], rule exI [of _ "utf8 points"]) (simp add: around_form_def plain_text_def)

lemma unit_form_english:
  "plain_text w \<Longrightarrow> fmt = ''1 '' @ w @ ''|%d '' @ w @ ''s'' \<Longrightarrow> \<exists>one pre post. unit_form fmt one pre post"
  by (rule exI [of _ "Some (''1 '' @ w)"], rule exI [of _ "[]"], rule exI [of _ "'' '' @ w @ ''s''"])
    (simp add: unit_form_def plain_text_def)

lemma around_form_english: "plain_text post \<Longrightarrow> fmt = ''%s'' @ post \<Longrightarrow> \<exists>before after. around_form fmt before after"
  by (rule exI [of _ "[]"], rule exI [of _ post]) (simp add: around_form_def plain_text_def)

lemma english_counts: "counting_locale defaultLocale"
proof -
  have "\<exists>one pre post. unit_form (Year defaultLocale) one pre post"
    by (rule unit_form_english [where w = "''year''"]) (simp_all add: plain_text_def defaultLocale_def)
  moreover have "\<exists>one pre post. unit_form (Month defaultLocale) one pre post"
    by (rule unit_form_english [where w = "''month''"]) (simp_all add: plain_text_def defaultLocale_def)
  moreover have "\<exists>one pre post. unit_form (Week defaultLocale) one pre post"
    by (rule unit_form_english [where w = "''week''"]) (simp_all add: plain_text_def defaultLocale_def)
  moreover have "\<exists>one pre post. unit_form (Day defaultLocale) one pre post"
    by (rule unit_form_english [where w = "''day''"]) (simp_all add: plain_text_def defaultLocale_def)
  moreover have "\<exists>one pre post. unit_form (Hour defaultLocale) one pre post"
    by (rule unit_form_english [where w = "''hour''"]) (simp_all add: plain_text_def defaultLocale_def)
  moreover have "\<exists>one pre post. unit_form (Minute defaultLocale) one pre post"
    by (rule unit_form_english [where w = "''minute''"]) (simp_all add: plain_text_def defaultLocale_def)
  moreover have "\<exists>one pre post. unit_form (Second defaultLocale) one pre post"
    by (rule unit_form_english [where w = "''second''"]) (simp_all add: plain_text_def defaultLocale_def)
  moreover have "\<exists>before after. around_form (Ago defaultLocale) before after"
    by (rule around_form_english [where post = "'' ago''"]) (simp_all add: plain_text_def defaultLocale_def)
  moreover have "\<exists>before after. around_form (FromNow defaultLocale) before after"
    by (rule around_form_english [where post = "'' from now''"]) (simp_all add: plain_text_def defaultLocale_def)
  ultimately show ?thesis by (simp add: counting_locale_def)
qed

lemma shipped_counts: "k \<in> set validLanguageCodes \<Longrightarrow> counting_locale (shipped_locale k)"
proof -
  have "counting_locale (shipped_locale ''en'')" by (simp add: english_is_built_in english_counts)
  moreover have "counting_locale (shipped_locale ''zh-CN'')" "counting_locale (shipped_locale ''zh-TW'')"
    "counting_locale (shipped_locale ''jp'')" "counting_locale (shipped_locale ''kr'')"
    by (simp_all add: counting_locale_def shipped_defs beyond_ascii_def)
  ultimately show "k \<in> set validLanguageCodes \<Longrightarrow> counting_locale (shipped_locale k)"
    by (auto simp: validLanguageCodes_def)
qed

text \<open>What is not well formed: the Korean file misses a bar, so it has eleven constellations.\<close>

theorem korean_has_eleven_constellations:
  "length (Constellations (shipped_locale ''kr'')) = 11
   \<and> (\<forall>k \<in> {''en'', ''zh-CN'', ''zh-TW'', ''jp''}. length (Constellations (shipped_locale k)) = 12)"
  by (simp add: shipped_defs split_bars beyond_ascii_def)

section \<open>The package with these files\<close>

text \<open>An environment whose files, when they can be read and decoded, are the shipped ones.\<close>

definition ships :: "env \<Rightarrow> bool" where
  "ships e \<longleftrightarrow> (\<forall>k \<in> set validLanguageCodes. \<forall>path \<in> {local_path k, package_path (getwd e) k}. \<forall>raw j.
     read_file e path = Some raw \<and> unmarshal e raw = Some j \<longrightarrow> j = shipped k)"

definition all_shipped :: "(string \<rightharpoonup> Locale) \<Rightarrow> bool" where
  "all_shipped m \<longleftrightarrow> (\<forall>k \<in> dom m. m k = Some (shipped_locale k))"

lemma all_shipped_Some: "all_shipped m \<Longrightarrow> m k = Some l \<Longrightarrow> l = shipped_locale k"
  unfolding all_shipped_def by (metis domI option.inject)

lemma all_shipped_upd: "all_shipped m \<Longrightarrow> all_shipped (m(k \<mapsto> shipped_locale k))"
  by (auto simp: all_shipped_def)

lemma all_shipped_english: "all_shipped m \<Longrightarrow> all_shipped (m(''en'' \<mapsto> defaultLocale))"
  using all_shipped_upd [of m "''en''"] by (simp only: english_is_built_in)

definition shipped_only :: "xtime \<Rightarrow> bool" where
  "shipped_only s \<longleftrightarrow> xtime_ok s \<and> all_shipped (locales s)"

lemma LoadLocale_shipped:
  assumes "ships e" and "shipped_only s"
  shows "shipped_only (snd (LoadLocale e k s))"
proof -
  have all: "all_shipped (locales s)" using assms(2) by (simp add: shipped_only_def)
  have "all_shipped (locales (snd (LoadLocale e k s)))"
  proof (cases "\<exists>raw j. locales s k = None \<and> k \<in> set validLanguageCodes \<and> sanitizeAndBuildPath e k \<noteq> []
      \<and> read_file e (sanitizeAndBuildPath e k) = Some raw \<and> unmarshal e raw = Some j")
    case True
    then obtain raw j where r: "locales s k = None" "k \<in> set validLanguageCodes" "sanitizeAndBuildPath e k \<noteq> []"
      and f: "read_file e (sanitizeAndBuildPath e k) = Some raw" "unmarshal e raw = Some j" by blast
    have "sanitizeAndBuildPath e k \<in> {local_path k, package_path (getwd e) k}"
      using r by (simp add: sanitizeAndBuildPath_def split: if_splits)
    then have "j = shipped k" using assms(1) f r(2) unfolding ships_def by blast
    then have "locales (snd (LoadLocale e k s)) = (locales s)(k \<mapsto> shipped_locale k)"
      using r f parse_valid [of k k] by (simp add: LoadLocale_def shipped_locale_def Let_def)
    then show ?thesis using all_shipped_upd [OF all] by simp
  next
    case False
    then have "locales (snd (LoadLocale e k s)) = locales s"
      using parse_invalid [of k] by (auto simp: LoadLocale_def Let_def split: option.splits)
    then show ?thesis using all by simp
  qed
  then show ?thesis using assms(2) LoadLocale_ok by (simp add: shipped_only_def)
qed

lemma initDefault_shipped: "shipped_only s \<Longrightarrow> shipped_only (initDefaultLocale s)"
  using initDefault_ok all_shipped_english by (simp add: shipped_only_def initDefaultLocale_def)

lemma SetLocale_shipped: "ships e \<Longrightarrow> shipped_only s \<Longrightarrow> shipped_only (snd (SetLocale e k s))"
  using LoadLocale_shipped by (auto simp: SetLocale_def shipped_only_def select_ok split: option.splits)

lemma Init_shipped:
  assumes "ships e" and "shipped_only s"
  shows "shipped_only (snd (Init e cfg s))"
proof -
  have z: "shipped_only (s\<lparr>location_var := l\<rparr>)" for l using assms(2) by (simp add: shipped_only_def xtime_ok_def)
  then have "shipped_only (snd (SetLocale e c (s\<lparr>location_var := l\<rparr>)))" for l c
    using SetLocale_shipped [OF assms(1)] by blast
  then have "SetLocale e c (s\<lparr>location_var := l\<rparr>) = (r, s') \<Longrightarrow> shipped_only s'" for l c r s' by (metis snd_conv)
  with assms(2) z initDefault_shipped show ?thesis
    unfolding Init_def Let_def by (auto split: option.splits prod.splits)
qed

lemma call_shipped: "ships e \<Longrightarrow> shipped_only s \<Longrightarrow> shipped_only (xtime_call s (e, c))"
  by (cases c) (auto simp: Init_shipped InitSimple_def SetLocale_shipped LoadLocale_shipped)

lemma calls_shipped: "shipped_only s \<Longrightarrow> \<forall>(e, c) \<in> set cs. ships e \<Longrightarrow> shipped_only (foldl xtime_call s cs)"
  by (induction cs arbitrary: s) (auto simp: call_shipped)

lemma xtime_init_shipped: "shipped_only xtime_init"
  unfolding shipped_only_def
proof
  show "all_shipped (locales xtime_init)"
    using all_shipped_english [of Map.empty] by (simp add: xtime_init_def initDefaultLocale_def all_shipped_def)
qed (rule xtime_init_ok)

section \<open>Dates and times in the shipped languages\<close>

text \<open>A template with the values of a time and the names of the locale for its month and day of the week.\<close>

definition filled :: "Locale \<Rightarrow> gotime \<Rightarrow> string \<Rightarrow> string" where
  "filled l t template =
     fill (template_values t (Months l ! nat (t_month t - 1)) (Weeks l ! nat (t_weekday t))) template"

lemma FormatTemplate_well_formed:
  assumes "well_formed l" and "template \<noteq> []"
  shows "l_FormatTemplate l t template = Inr (filled l t template)"
proof -
  let ?m = "Months l ! nat (t_month t - 1)" and ?w = "Weeks l ! nat (t_weekday t)"
  have r: "1 \<le> t_month t" "t_month t \<le> 12" "0 \<le> t_weekday t" "t_weekday t \<le> 6"
    using t_month_range [of t] by (simp_all add: t_weekday_def weekday_of_def)
  have len: "length (Months l) = 12" "length (Weeks l) = 7" and plain: "plain_locale l"
    using assms(1) by (simp_all add: well_formed_def)
  have "l_FormatMonth l (t_month t) False = Inr ?m" "l_FormatWeekday l (t_weekday t) False = Inr ?w"
    using r len by (simp_all add: l_FormatMonth_def l_FormatWeekday_def slice_get_def)
  moreover have "nat (t_month t - 1) < length (Months l)" "nat (t_weekday t) < length (Weeks l)" using r len by auto
  then have "inert ?m" "inert ?w" using plain by (simp_all add: plain_locale_def)
  ultimately show ?thesis unfolding filled_def using assms(2) by (intro FormatTemplate_fill)
qed

lemma shipped_formats:
  assumes l: "currentLocale s = Some l" "locales s (Language l) = Some l" and w: "well_formed l"
  shows "FormatDateTime s t = Inr (filled l t (the (getFormat l ''datetime'')))"
    and "FormatDate s t = Inr (filled l t (the (getFormat l ''date'')))"
    and "FormatTime s t = Inr (filled l t (the (getFormat l ''time'')))"
    and "layout \<noteq> [] \<Longrightarrow> FormatLocalized s t layout = Inr (filled l t layout)"
proof -
  have c: "fst (GetCurrentLocale s) = Inr l" using l(1) by (simp add: GetCurrentLocale_def)
  have f: "\<exists>f. getFormat l k = Some f \<and> f \<noteq> []" if "k \<in> {''date'', ''datetime'', ''time''}" for k
    using w that unfolding well_formed_def by blast
  note T = FormatTemplate_well_formed [OF w]
  have "FormatWithLanguage s t (Language l) fmt = Inr (filled l t fmt)" if "fmt \<noteq> []" for fmt
    using c l(2) T [OF that] by (simp add: FormatWithLanguage_def)
  then show "FormatDateTime s t = Inr (filled l t (the (getFormat l ''datetime'')))"
    "FormatDate s t = Inr (filled l t (the (getFormat l ''date'')))"
    "FormatTime s t = Inr (filled l t (the (getFormat l ''time'')))"
    using f [of "''datetime''"] f [of "''date''"] f [of "''time''"] c
    by (auto simp: FormatDateTime_def FormatDate_def FormatTime_def)
  show "layout \<noteq> [] \<Longrightarrow> FormatLocalized s t layout = Inr (filled l t layout)"
    using c T by (simp add: FormatLocalized_def)
qed

text \<open>C27: Dates in the shipped languages. With the language files of the repository, whatever calls of \<open>Init\<close>,
  \<open>InitSimple\<close>, \<open>SetLocale\<close> and \<open>LoadLocale\<close> came before and however the file system behaved in them, the current locale is one of the five
  shipped ones, and \<open>FormatDateTime\<close>, \<open>FormatDate\<close>, \<open>FormatTime\<close> and \<open>FormatLocalized\<close> with a layout do not
  panic: each gives the template of that language (or the layout) with every placeholder replaced by its part of the time, the month and the day of the week by their names there.
\<close>

theorem formats_in_shipped_language:
  assumes "\<forall>(e, c) \<in> set cs. ships e" and "s = foldl xtime_call xtime_init cs"
  shows "\<exists>k \<in> set validLanguageCodes. fst (GetCurrentLocale s) = Inr (shipped_locale k)
    \<and> FormatDateTime s t = Inr (filled (shipped_locale k) t (the (getFormat (shipped_locale k) ''datetime'')))
    \<and> FormatDate s t = Inr (filled (shipped_locale k) t (the (getFormat (shipped_locale k) ''date'')))
    \<and> FormatTime s t = Inr (filled (shipped_locale k) t (the (getFormat (shipped_locale k) ''time'')))
    \<and> (\<forall>layout. layout \<noteq> [] \<longrightarrow> FormatLocalized s t layout = Inr (filled (shipped_locale k) t layout))"
proof -
  have s: "shipped_only s" using calls_shipped [OF xtime_init_shipped assms(1)] assms(2) by simp
  then obtain l where l: "currentLocale s = Some l" "locales s (Language l) = Some l" and d: "dom (locales s) \<subseteq> set validLanguageCodes"
    unfolding shipped_only_def xtime_ok_def by blast
  let ?k = "Language l"
  have k: "?k \<in> set validLanguageCodes" using l(2) d by blast
  have e: "shipped_locale ?k = l" using s l(2) all_shipped_Some unfolding shipped_only_def by metis
  have w: "well_formed l" using shipped_well_formed [OF k] e by simp
  have "fst (GetCurrentLocale s) = Inr l" using l(1) by (simp add: GetCurrentLocale_def)
  then show ?thesis using shipped_formats [OF l w, where t = t] k
    by (intro bexI [of _ ?k] conjI allI impI) (simp_all only: e)
qed

text \<open>A file system with exactly the shipped files, each with its path as its contents.\<close>

definition shipping_env :: env where
  "shipping_env = \<lparr>file_exists = (\<lambda>p. p \<in> local_path ` set validLanguageCodes), getwd = [], read_file = Some,
     unmarshal = (\<lambda>p. map_option shipped (find (\<lambda>k. p = local_path k) validLanguageCodes)),
     load_zone = (\<lambda>tz. if tz = ''UTC'' then Some UTC else None)\<rparr>"

lemma local_path_inj: "local_path k = local_path k' \<longleftrightarrow> k = k'"
  by (simp add: local_path_def)

lemma package_not_local: "package_path [] k \<noteq> local_path k'"
  by (simp add: package_path_def local_path_def)

lemma shipping_env_ships: "ships shipping_env"
proof -
  have "j = shipped k" if a: "path \<in> {local_path k, package_path (getwd shipping_env) k}"
    "read_file shipping_env path = Some raw" "unmarshal shipping_env raw = Some j" for k path raw j
  proof -
    have r: "raw = path" and w: "getwd shipping_env = []" using a by (simp_all add: shipping_env_def)
    obtain k' where k': "find (\<lambda>k. raw = local_path k) validLanguageCodes = Some k'" "j = shipped k'"
      using a(3) by (auto simp: shipping_env_def)
    then have "raw = local_path k'" by (auto simp: find_Some_iff)
    then show ?thesis using a(1) r w k'(2) package_not_local [THEN not_sym] local_path_inj by auto
  qed
  then show ?thesis unfolding ships_def by blast
qed

lemma shipping_env_sets:
  assumes "k \<in> set validLanguageCodes"
  shows "currentLocale (snd (SetLocale shipping_env k xtime_init)) = Some (shipped_locale k)"
proof (cases "k = ''en''")
  case True
  then show ?thesis by (simp add: SetLocale_def xtime_init_def initDefaultLocale_def english_is_built_in)
next
  case False
  have "find (\<lambda>c. local_path k = local_path c) validLanguageCodes = Some k"
    using assms by (auto simp: validLanguageCodes_def local_path_inj)
  then show ?thesis using False assms parse_valid [of k k]
    by (simp add: SetLocale_def LoadLocale_def xtime_init_def initDefaultLocale_def sanitizeAndBuildPath_def shipping_env_def
        Let_def shipped_locale_def) (simp add: local_path_def)
qed

theorem formats_in_shipped_language_witness:
  "\<exists>s. s = foldl xtime_call xtime_init [(shipping_env, SetCall ''jp'')]
     \<and> FormatDate s zero_time = Inr (filled (shipped_locale ''jp'') zero_time (the (getFormat (shipped_locale ''jp'') ''date'')))"
proof -
  let ?s = "foldl xtime_call xtime_init [(shipping_env, SetCall ''jp'')]"
  have "\<forall>(e, c) \<in> set [(shipping_env, SetCall ''jp'')]. ships e" using shipping_env_ships by simp
  from formats_in_shipped_language [OF this refl, of zero_time] obtain k
    where k: "fst (GetCurrentLocale ?s) = Inr (shipped_locale k)"
      "FormatDate ?s zero_time = Inr (filled (shipped_locale k) zero_time (the (getFormat (shipped_locale k) ''date'')))" by blast
  have "''jp'' \<in> set validLanguageCodes" by (simp add: validLanguageCodes_def)
  from shipping_env_sets [OF this] have "shipped_locale k = shipped_locale ''jp''"
    using k(1) by (simp add: GetCurrentLocale_def)
  with k(2) show ?thesis by metis
qed

end
