(* ===== verification/Template_Demo.thy ===== *)
theory Template_Demo
  imports Shipped_Locales
begin

text \<open>
  The example program of \<open>xtime\<close> (\<open>xtime/examples/template_demo.go\<close>): its output as a function of the
  environment, and the output that its comment documents, which it prints with the language files of the repository.
\<close>

section \<open>The program\<close>

definition line :: "string \<Rightarrow> string" where
  "line s = s @ [CHR 0x0A]"

definition testTime :: gotime where
  "testTime = time_Date 2023 12 25 (15 * 3600 + 30 * 60 + 45) 0 UTC"

text \<open>\<open>t.Format(time.RFC3339)\<close>\<close>

definition RFC3339_zone :: "gotime \<Rightarrow> string" where
  "RFC3339_zone t =
     (let offset = zone_offset (zone t) (ns t div second_ns); minutes = offset sdiv 60
      in if offset = 0 then ''Z''
         else (if minutes < 0 then ''-'' else ''+'') @ pad2 (\<bar>minutes\<bar> div 60) @ '':'' @ pad2 (\<bar>minutes\<bar> mod 60))"

definition Format_RFC3339 :: "gotime \<Rightarrow> string" where
  "Format_RFC3339 t = year4 (t_year t) @ ''-'' @ pad2 (t_month t) @ ''-'' @ pad2 (t_day t) @ ''T''
     @ pad2 (t_hour t) @ '':'' @ pad2 (t_minute t) @ '':'' @ pad2 (t_second t) @ RFC3339_zone t"

text \<open>The verb \<open>%-25s\<close> on ASCII.\<close>

definition pad_right :: "nat \<Rightarrow> string \<Rightarrow> string" where
  "pad_right n s = s @ replicate (n - length s) CHR '' ''"

definition languages :: "string list" where
  "languages = [''en'', ''zh-CN'', ''zh-TW'', ''jp'', ''kr'']"

text \<open>The body of the loop over the languages; \<open>errText\<close> is the text of an error.\<close>

definition demo_language ::
    "env \<Rightarrow> (locale_error \<Rightarrow> string) \<Rightarrow> string list \<times> xtime \<Rightarrow> string \<Rightarrow> panic + string list \<times> xtime" where
  "demo_language e errText st lang = (case st of (out, s) \<Rightarrow>
     (let out1 = out @ [line (''Language: '' @ lang), line ''---''] in
      case Locale_Model.Init e \<lparr>CLanguage = lang, Timezone = ''UTC''\<rparr> s of
        (Some err, s1) \<Rightarrow> Inr (out1 @ [line (''Error initializing '' @ lang @ '': '' @ errText err)], s1)
      | (None, s1) \<Rightarrow>
          bindR (FormatDateTime s1 testTime) (\<lambda>dt.
          bindR (FormatDate s1 testTime) (\<lambda>d.
          bindR (FormatTime s1 testTime) (\<lambda>c.
          bindR (FormatMonth s1 (t_month testTime) False) (\<lambda>m.
          bindR (FormatWeekday s1 (t_weekday testTime) False) (\<lambda>w.
          Inr (out1 @ [line (''FormatDateTime: '' @ dt), line (''FormatDate:     '' @ d), line (''FormatTime:     '' @ c),
                       line (''FormatMonth:    '' @ m), line (''FormatWeekday:  '' @ w), line []], s1))))))))"

text \<open>A custom template in one language, nothing when the language cannot be set.\<close>

definition demo_custom ::
    "env \<Rightarrow> string \<Rightarrow> string \<Rightarrow> string \<Rightarrow> string list \<times> xtime \<Rightarrow> panic + string list \<times> xtime" where
  "demo_custom e lang template label st = (case st of (out, s) \<Rightarrow>
     (case SetLocale e lang s of
        (Some err, s1) \<Rightarrow> Inr (out, s1)
      | (None, s1) \<Rightarrow>
          bindR (FormatLocalized s1 testTime template) (\<lambda>customFormat.
          Inr (out @ [line (label @ '': '' @ customFormat)], s1))))"

text \<open>The rows of the table: language, template (called a format type) and description.\<close>

definition chinese_template :: string where
  "chinese_template = utf8 [0x4ECA, 0x5929, 0x662F] @ ''{%y}'' @ utf8 [0x5E74] @ ''{%M}{%d}'' @ utf8 [0x65E5, 0xFF0C] @ ''{%w}''"

definition korean_template :: string where
  "korean_template = ''{%y}'' @ utf8 [0xB144] @ '' {%M} {%d}'' @ utf8 [0xC77C]"

definition testCases :: "(string \<times> string \<times> string) list" where
  "testCases = [
     (''en'', ''date'', ''English Date''),
     (''zh-CN'', ''datetime'', ''Chinese DateTime''),
     (''jp'', ''time'', ''Japanese Time''),
     (''kr'', korean_template, ''Korean Custom Template''),
     (''en'', ''2006-01-02'', ''Go Layout Format'')]"

definition demo_row :: "xtime \<Rightarrow> string list \<Rightarrow> string \<times> string \<times> string \<Rightarrow> panic + string list" where
  "demo_row s out tc = (case tc of (language, formatType, description) \<Rightarrow>
     bindR (FormatWithLanguage s testTime language formatType) (\<lambda>result.
     Inr (out @ [line (pad_right 25 description @ '': '' @ result)])))"

definition template_demo :: "env \<Rightarrow> (locale_error \<Rightarrow> string) \<Rightarrow> string list go" where
  "template_demo e errText =
     (let out1 = [line ''=== Date/Time Formatting with Locale Templates ==='',
                  line (line (''Test Time: '' @ Format_RFC3339 testTime))] in
      bindR (foldR (demo_language e errText) (out1, xtime_init) languages) (\<lambda>(out2, s2).
      bindR (demo_custom e ''zh-CN'' chinese_template ''Custom Chinese format''
               (out2 @ [line ''=== Custom Template Example ===''], s2)) (\<lambda>st3.
      bindR (demo_custom e ''en'' ''Today is {%w}, {%M} {%d}, {%y}'' ''Custom English format'' st3) (\<lambda>(out4, s4).
      foldR (demo_row s4) (out4 @ [[CHR 0x0A] @ line ''=== FormatWithLanguage Demo ===''] ) testCases))))"

section \<open>With the language files\<close>

text \<open>The files are found, read and decoded, and UTC is known.\<close>

definition installed :: "env \<Rightarrow> bool" where
  "installed e \<longleftrightarrow> ships e \<and> load_zone e ''UTC'' = Some UTC
     \<and> (\<forall>k \<in> set validLanguageCodes. file_exists e (local_path k)
          \<and> (\<exists>raw. read_file e (local_path k) = Some raw \<and> unmarshal e raw = Some (shipped k)))"

lemma SetLocale_installed:
  assumes e: "installed e" and s: "shipped_only s" and k: "k \<in> set validLanguageCodes"
  obtains s' where "SetLocale e k s = (None, s')" "shipped_only s'" "currentLocale s' = Some (shipped_locale k)"
    "locales s' k = Some (shipped_locale k)" "dom (locales s) \<subseteq> dom (locales s')"
proof -
  have all: "all_shipped (locales s)" using s by (simp add: shipped_only_def)
  have inv: "shipped_only (snd (SetLocale e k s))"
    using SetLocale_shipped [OF _ s] e by (simp add: installed_def)
  show thesis
  proof (cases "locales s k")
    case (Some l)
    then have "l = shipped_locale k" using all_shipped_Some [OF all] by blast
    with Some inv show thesis by (intro that [of "s\<lparr>currentLocale := Some (shipped_locale k)\<rparr>"]) (simp_all add: SetLocale_def)
  next
    case None
    obtain raw where "read_file e (local_path k) = Some raw" "unmarshal e raw = Some (shipped k)" "file_exists e (local_path k)"
      using e k unfolding installed_def by blast
    then have "SetLocale e k s =
        (None, s\<lparr>locales := (locales s)(k \<mapsto> shipped_locale k), currentLocale := Some (shipped_locale k)\<rparr>)"
      using None k parse_valid [of k k]
      by (simp add: SetLocale_def LoadLocale_def sanitizeAndBuildPath_def shipped_locale_def Let_def) (simp add: local_path_def)
    with inv show thesis by (intro that) auto
  qed
qed

lemma Init_installed:
  assumes e: "installed e" and s: "shipped_only s" and k: "k \<in> set validLanguageCodes"
  obtains s' where "Locale_Model.Init e \<lparr>CLanguage = k, Timezone = ''UTC''\<rparr> s = (None, s')" "shipped_only s'"
    "currentLocale s' = Some (shipped_locale k)" "locales s' k = Some (shipped_locale k)" "dom (locales s) \<subseteq> dom (locales s')"
proof -
  let ?s = "s\<lparr>location_var := Some UTC\<rparr>"
  have "shipped_only ?s" using s by (simp add: shipped_only_def xtime_ok_def)
  from SetLocale_installed [OF e this k] obtain s' where s': "SetLocale e k ?s = (None, s')" "shipped_only s'"
    "currentLocale s' = Some (shipped_locale k)" "locales s' k = Some (shipped_locale k)" "dom (locales ?s) \<subseteq> dom (locales s')"
    by blast
  have "k \<noteq> []" using k by (auto simp: validLanguageCodes_def)
  then have "Locale_Model.Init e \<lparr>CLanguage = k, Timezone = ''UTC''\<rparr> s = (None, s')"
    using e k s'(1) parse_valid [of k k] by (simp add: Locale_Model.Init_def installed_def Let_def)
  then show thesis by (rule that) (use s' in simp_all)
qed

text \<open>What the program prints for one language.\<close>

definition demo_block :: "string \<Rightarrow> string list" where
  "demo_block k = (let l = shipped_locale k in
     [line (''Language: '' @ k), line ''---'',
      line (''FormatDateTime: '' @ filled l testTime (the (getFormat l ''datetime''))),
      line (''FormatDate:     '' @ filled l testTime (the (getFormat l ''date''))),
      line (''FormatTime:     '' @ filled l testTime (the (getFormat l ''time''))),
      line (''FormatMonth:    '' @ Months l ! nat (t_month testTime - 1)),
      line (''FormatWeekday:  '' @ Weeks l ! nat (t_weekday testTime)), line []])"

lemma names_of_testTime:
  assumes "well_formed l"
  shows "l_FormatMonth l (t_month t) False = Inr (Months l ! nat (t_month t - 1))"
    "l_FormatWeekday l (t_weekday t) False = Inr (Weeks l ! nat (t_weekday t))"
  using assms t_month_range [of t]
  by (auto simp: well_formed_def l_FormatMonth_def l_FormatWeekday_def slice_get_def t_weekday_def weekday_of_def)

lemma demo_language_installed:
  assumes e: "installed e" and s: "shipped_only s" and k: "k \<in> set validLanguageCodes"
  shows "\<exists>s'. demo_language e errText (out, s) k = Inr (out @ demo_block k, s') \<and> shipped_only s'
    \<and> insert k (dom (locales s)) \<subseteq> dom (locales s')"
proof -
  from Init_installed [OF assms] obtain s' where i: "Locale_Model.Init e \<lparr>CLanguage = k, Timezone = ''UTC''\<rparr> s = (None, s')"
    and s': "shipped_only s'" and c: "currentLocale s' = Some (shipped_locale k)" and l: "locales s' k = Some (shipped_locale k)"
    and d: "dom (locales s) \<subseteq> dom (locales s')" by blast
  note w = shipped_well_formed [OF k]
  have "Language (shipped_locale k) = k" by (simp add: shipped_locale_def locale_of_data_def)
  with l have l': "locales s' (Language (shipped_locale k)) = Some (shipped_locale k)" by simp
  note f = shipped_formats [OF c l' w]
  have "fst (GetCurrentLocale s') = Inr (shipped_locale k)" using c by (simp add: GetCurrentLocale_def)
  then have "demo_language e errText (out, s) k = Inr (out @ demo_block k, s')"
    using f names_of_testTime [OF w, of testTime]
    by (simp add: demo_language_def i Let_def FormatMonth_def FormatWeekday_def demo_block_def)
  then show ?thesis using s' d l by auto
qed

lemma demo_loop:
  assumes "installed e" and "shipped_only s" and "set ks \<subseteq> set validLanguageCodes"
  shows "\<exists>s'. foldR (demo_language e errText) (out, s) ks = Inr (out @ concat (map demo_block ks), s') \<and> shipped_only s'
    \<and> set ks \<union> dom (locales s) \<subseteq> dom (locales s')"
  using assms(2,3)
proof (induction ks arbitrary: out s)
  case (Cons k ks)
  have "k \<in> set validLanguageCodes" using Cons.prems(2) by simp
  from demo_language_installed [OF assms(1) Cons.prems(1) this, of errText out] obtain s1 where
    s1: "demo_language e errText (out, s) k = Inr (out @ demo_block k, s1)" "shipped_only s1"
    "insert k (dom (locales s)) \<subseteq> dom (locales s1)" by blast
  have "set ks \<subseteq> set validLanguageCodes" using Cons.prems(2) by simp
  from Cons.IH [OF s1(2) this, of "out @ demo_block k"] obtain s' where
    "foldR (demo_language e errText) (out @ demo_block k, s1) ks = Inr ((out @ demo_block k) @ concat (map demo_block ks), s')"
    "shipped_only s'" "set ks \<union> dom (locales s1) \<subseteq> dom (locales s')" by blast
  moreover from this s1(3) have "set (k # ks) \<union> dom (locales s) \<subseteq> dom (locales s')"
    unfolding list.set by blast
  ultimately show ?case using s1(1) by (intro exI [of _ s']) simp
qed simp

section \<open>The documented output\<close>

text \<open>The parts of the test time.\<close>

lemma testTime_parts:
  "t_year testTime = 2023" "t_month testTime = 12" "t_day testTime = 25" "t_weekday testTime = 1"
  "t_hour testTime = 15" "t_minute testTime = 30" "t_second testTime = 45"
  "zone_offset (zone testTime) (ns testTime div second_ns) = 0"
  by code_simp+

lemma testTime_texts:
  "itoa 2023 = ''2023''" "itoa 25 = ''25''" "pad2 15 = ''15''" "pad2 30 = ''30''" "pad2 45 = ''45''" "pad2 12 = ''12''"
  "pad2 25 = ''25''" "year4 2023 = ''2023''"
  by code_simp+

lemma fill_placeholder: "\<rho> k = Some u \<Longrightarrow> fill \<rho> (CHR ''{'' # CHR ''%'' # k # CHR ''}'' # rest) = u @ fill \<rho> rest"
  using fill_value [of \<rho> k u rest] by (simp add: placeholder_def)

lemma fill_Nil [simp]: "fill \<rho> [] = []"
  by simp

lemma fill_utf8_text: "beyond_ascii points \<Longrightarrow> fill \<rho> (utf8 points @ rest) = utf8 points @ fill \<rho> rest"
  "beyond_ascii points \<Longrightarrow> fill \<rho> (utf8 points) = utf8 points"
  using fill_utf8 [of "utf8 points" \<rho> rest] fill_utf8 [of "utf8 points" \<rho> "[]"] by simp_all

lemmas fill_eval = fill_placeholder fill_other fill_utf8_text filled_def template_values_def testTime_parts testTime_texts
  beyond_ascii_def

lemma utf8_split: "utf8 (x # y # points) = utf8 [x] @ utf8 (y # points)"
  by (simp add: utf8_def)

text \<open>The lines of the comment.\<close>

definition documented_output :: "string list" where
  "documented_output = [
     ''=== Date/Time Formatting with Locale Templates ==='',
     ''Test Time: 2023-12-25T15:30:45Z'',
     [],
     ''Language: en'',
     ''---'',
     ''FormatDateTime: Monday, December 25, 2023 15:30:45'',
     ''FormatDate:     Monday, December 25, 2023'',
     ''FormatTime:     15:30:45'',
     ''FormatMonth:    December'',
     ''FormatWeekday:  Monday'',
     [],
     ''Language: zh-CN'',
     ''---'',
     ''FormatDateTime: 2023'' @ utf8 [0x5E74, 0x5341, 0x4E8C, 0x6708] @ ''25'' @ utf8 [0x65E5] @ '' '' @ utf8 [0x661F, 0x671F, 0x4E00] @ '' 15:30:45'',
     ''FormatDate:     2023'' @ utf8 [0x5E74, 0x5341, 0x4E8C, 0x6708] @ ''25'' @ utf8 [0x65E5] @ '' '' @ utf8 [0x661F, 0x671F, 0x4E00],
     ''FormatTime:     15:30:45'',
     ''FormatMonth:    '' @ utf8 [0x5341, 0x4E8C, 0x6708],
     ''FormatWeekday:  '' @ utf8 [0x661F, 0x671F, 0x4E00],
     [],
     ''Language: zh-TW'',
     ''---'',
     ''FormatDateTime: 2023'' @ utf8 [0x5E74, 0x5341, 0x4E8C, 0x6708] @ ''25'' @ utf8 [0x65E5] @ '' '' @ utf8 [0x661F, 0x671F, 0x4E00] @ '' 15:30:45'',
     ''FormatDate:     2023'' @ utf8 [0x5E74, 0x5341, 0x4E8C, 0x6708] @ ''25'' @ utf8 [0x65E5] @ '' '' @ utf8 [0x661F, 0x671F, 0x4E00],
     ''FormatTime:     15:30:45'',
     ''FormatMonth:    '' @ utf8 [0x5341, 0x4E8C, 0x6708],
     ''FormatWeekday:  '' @ utf8 [0x661F, 0x671F, 0x4E00],
     [],
     ''Language: jp'',
     ''---'',
     ''FormatDateTime: 2023'' @ utf8 [0x5E74, 0x5341, 0x4E8C, 0x6708] @ ''25'' @ utf8 [0x65E5] @ '' '' @ utf8 [0x6708, 0x66DC, 0x65E5] @ '' 15:30:45'',
     ''FormatDate:     2023'' @ utf8 [0x5E74, 0x5341, 0x4E8C, 0x6708] @ ''25'' @ utf8 [0x65E5] @ '' '' @ utf8 [0x6708, 0x66DC, 0x65E5],
     ''FormatTime:     15:30:45'',
     ''FormatMonth:    '' @ utf8 [0x5341, 0x4E8C, 0x6708],
     ''FormatWeekday:  '' @ utf8 [0x6708, 0x66DC, 0x65E5],
     [],
     ''Language: kr'',
     ''---'',
     ''FormatDateTime: 2023'' @ utf8 [0xB144] @ '' '' @ utf8 [0xC2ED, 0xC774, 0xC6D4] @ '' 25'' @ utf8 [0xC77C] @ '' '' @ utf8 [0xC6D4, 0xC694, 0xC77C] @ '' 15:30:45'',
     ''FormatDate:     2023'' @ utf8 [0xB144] @ '' '' @ utf8 [0xC2ED, 0xC774, 0xC6D4] @ '' 25'' @ utf8 [0xC77C] @ '' '' @ utf8 [0xC6D4, 0xC694, 0xC77C],
     ''FormatTime:     15:30:45'',
     ''FormatMonth:    '' @ utf8 [0xC2ED, 0xC774, 0xC6D4],
     ''FormatWeekday:  '' @ utf8 [0xC6D4, 0xC694, 0xC77C],
     [],
     ''=== Custom Template Example ==='',
     ''Custom Chinese format: '' @ utf8 [0x4ECA, 0x5929, 0x662F] @ ''2023'' @ utf8 [0x5E74, 0x5341, 0x4E8C, 0x6708] @ ''25'' @ utf8 [0x65E5, 0xFF0C, 0x661F, 0x671F, 0x4E00],
     ''Custom English format: Today is Monday, December 25, 2023'',
     [],
     ''=== FormatWithLanguage Demo ==='',
     ''English Date             : date'',
     ''Chinese DateTime         : datetime'',
     ''Japanese Time            : time'',
     ''Korean Custom Template   : 2023'' @ utf8 [0xB144] @ '' '' @ utf8 [0xC2ED, 0xC774, 0xC6D4] @ '' 25'' @ utf8 [0xC77C],
     ''Go Layout Format         : 2006-01-02'']"

lemma demo_blocks: "concat (map demo_block languages) = map line (take 40 (drop 3 documented_output))"
  by (simp add: languages_def documented_output_def demo_block_def shipped_defs split_bars getFormat_def fill_eval utf8_split
      Let_def)

lemma FormatWithLanguage_installed:
  assumes "shipped_only s" and "k \<in> dom (locales s)" and "fmt \<noteq> []"
  shows "FormatWithLanguage s t k fmt = Inr (filled (shipped_locale k) t fmt)"
proof -
  have ok: "xtime_ok s" "all_shipped (locales s)" using assms(1) by (simp_all add: shipped_only_def)
  obtain l where "fst (GetCurrentLocale s) = Inr l" using ok_current [OF ok(1)] by fastforce
  moreover have "locales s k = Some (shipped_locale k)" using ok(2) assms(2) by (simp add: all_shipped_def)
  moreover have "k \<in> set validLanguageCodes" using ok(1) assms(2) unfolding xtime_ok_def by blast
  ultimately show ?thesis
    using FormatTemplate_well_formed [OF shipped_well_formed assms(3)] by (simp add: FormatWithLanguage_def)
qed

lemma demo_custom_installed:
  assumes "installed e" and "shipped_only s" and "k \<in> set validLanguageCodes" and "template \<noteq> []"
  shows "\<exists>s'. demo_custom e k template label (out, s) =
      Inr (out @ [line (label @ '': '' @ filled (shipped_locale k) testTime template)], s')
    \<and> shipped_only s' \<and> dom (locales s) \<subseteq> dom (locales s')"
proof -
  from SetLocale_installed [OF assms(1-3)] obtain s' where s': "SetLocale e k s = (None, s')" "shipped_only s'"
    "currentLocale s' = Some (shipped_locale k)" "dom (locales s) \<subseteq> dom (locales s')" by blast
  have "fst (GetCurrentLocale s') = Inr (shipped_locale k)" using s'(3) by (simp add: GetCurrentLocale_def)
  with FormatTemplate_well_formed [OF shipped_well_formed [OF assms(3)] assms(4)]
  have "FormatLocalized s' testTime template = Inr (filled (shipped_locale k) testTime template)"
    by (simp add: FormatLocalized_def)
  then show ?thesis using s' by (intro exI [of _ s']) (simp add: demo_custom_def)
qed

lemma demo_texts:
  "filled (shipped_locale ''zh-CN'') testTime chinese_template =
     utf8 [0x4ECA, 0x5929, 0x662F] @ ''2023'' @ utf8 [0x5E74, 0x5341, 0x4E8C, 0x6708] @ ''25''
     @ utf8 [0x65E5, 0xFF0C, 0x661F, 0x671F, 0x4E00]"
  "filled (shipped_locale ''en'') testTime ''Today is {%w}, {%M} {%d}, {%y}'' = ''Today is Monday, December 25, 2023''"
  "filled (shipped_locale ''kr'') testTime korean_template =
     ''2023'' @ utf8 [0xB144] @ '' '' @ utf8 [0xC2ED, 0xC774, 0xC6D4] @ '' 25'' @ utf8 [0xC77C]"
  "filled l testTime ''date'' = ''date''" "filled l testTime ''datetime'' = ''datetime''"
  "filled l testTime ''time'' = ''time''" "filled l testTime ''2006-01-02'' = ''2006-01-02''"
  by (simp_all add: chinese_template_def korean_template_def shipped_defs split_bars fill_eval utf8_split)

lemma pad_texts:
  "pad_right 25 ''English Date'' = ''English Date             ''"
  "pad_right 25 ''Chinese DateTime'' = ''Chinese DateTime         ''"
  "pad_right 25 ''Japanese Time'' = ''Japanese Time            ''"
  "pad_right 25 ''Korean Custom Template'' = ''Korean Custom Template   ''"
  "pad_right 25 ''Go Layout Format'' = ''Go Layout Format         ''"
  by code_simp+

lemma demo_rows_installed:
  assumes "shipped_only s" and "set languages \<subseteq> dom (locales s)"
  shows "foldR (demo_row s) out testCases = Inr (out @ map line (drop 48 documented_output))"
proof -
  have "k \<in> dom (locales s)" if "k \<in> {''en'', ''zh-CN'', ''jp'', ''kr''}" for k
    using assms(2) that by (auto simp: languages_def)
  note f = FormatWithLanguage_installed [OF assms(1) this]
  have "korean_template \<noteq> []" by (simp add: korean_template_def)
  then show ?thesis
    by (simp add: testCases_def demo_row_def f demo_texts pad_texts documented_output_def)
qed

text \<open>The text before and after the blocks of the languages.\<close>

lemma documented_parts:
  "concat (map line documented_output) =
     line ''=== Date/Time Formatting with Locale Templates ==='' @ line (line (''Test Time: '' @ ''2023-12-25T15:30:45Z''))
     @ concat (map line (take 40 (drop 3 documented_output)))
     @ line ''=== Custom Template Example ===''
     @ line (''Custom Chinese format'' @ '': '' @ utf8 [0x4ECA, 0x5929, 0x662F] @ ''2023'' @ utf8 [0x5E74, 0x5341, 0x4E8C, 0x6708]
         @ ''25'' @ utf8 [0x65E5, 0xFF0C, 0x661F, 0x671F, 0x4E00])
     @ line (''Custom English format'' @ '': '' @ ''Today is Monday, December 25, 2023'')
     @ [CHR 0x0A] @ line ''=== FormatWithLanguage Demo ===''
     @ concat (map line (drop 48 documented_output))"
  by (simp add: documented_output_def line_def)

text \<open>The example prints what its comment says. With the language files of the repository, the program
  does not panic and its output is, byte for byte, the text in the comment of \<open>template_demo.go\<close>: the test time in RFC 3339, for each of the five
  languages the date and time, the date, the time and the names of the month and the day, the custom templates, and the table of \<open>FormatWithLanguage\<close>.
\<close>

theorem template_demo_prints_documentation:
  assumes "installed e"
  shows "\<exists>out. template_demo e errText = Inr out \<and> concat out = concat (map line documented_output)"
proof -
  let ?out1 = "[line ''=== Date/Time Formatting with Locale Templates ==='', line (line (''Test Time: '' @ Format_RFC3339 testTime))]"
  have v: "set languages \<subseteq> set validLanguageCodes" by (simp add: languages_def validLanguageCodes_def)
  obtain s2 where s2: "foldR (demo_language e errText) (?out1, xtime_init) languages = Inr (?out1 @ concat (map demo_block languages), s2)"
    "shipped_only s2" "set languages \<subseteq> dom (locales s2)"
    using demo_loop [OF assms xtime_init_shipped v, of errText ?out1] by auto
  let ?out2 = "(?out1 @ concat (map demo_block languages)) @ [line ''=== Custom Template Example ==='']"
  have c: "''zh-CN'' \<in> set validLanguageCodes" "''en'' \<in> set validLanguageCodes" "chinese_template \<noteq> []"
    by (simp_all add: validLanguageCodes_def chinese_template_def utf8_def utf8_char_def)
  obtain s3 where s3: "demo_custom e ''zh-CN'' chinese_template ''Custom Chinese format'' (?out2, s2) =
      Inr (?out2 @ [line (''Custom Chinese format'' @ '': '' @ filled (shipped_locale ''zh-CN'') testTime chinese_template)], s3)"
    "shipped_only s3" "dom (locales s2) \<subseteq> dom (locales s3)"
    using demo_custom_installed [OF assms s2(2) c(1,3), of "''Custom Chinese format''" ?out2] by blast
  let ?out3 = "?out2 @ [line (''Custom Chinese format'' @ '': '' @ filled (shipped_locale ''zh-CN'') testTime chinese_template)]"
  let ?en = "''Today is {%w}, {%M} {%d}, {%y}''"
  obtain s4 where s4: "demo_custom e ''en'' ?en ''Custom English format'' (?out3, s3) =
      Inr (?out3 @ [line (''Custom English format'' @ '': '' @ filled (shipped_locale ''en'') testTime ?en)], s4)"
    "shipped_only s4" "dom (locales s3) \<subseteq> dom (locales s4)"
    using demo_custom_installed [OF assms s3(2) c(2), of ?en "''Custom English format''" ?out3] by blast
  let ?out4 = "?out3 @ [line (''Custom English format'' @ '': '' @ filled (shipped_locale ''en'') testTime ?en)]"
  have "set languages \<subseteq> dom (locales s4)" using s2(3) s3(3) s4(3) by blast
  from demo_rows_installed [OF s4(2) this]
  have "template_demo e errText = Inr ((?out4 @ [[CHR 0x0A] @ line ''=== FormatWithLanguage Demo ==='']) @ map line (drop 48 documented_output))"
    by (simp only: template_demo_def Let_def s2(1) s3(1) s4(1) bindR_simps prod.case)
  moreover have "Format_RFC3339 testTime = ''2023-12-25T15:30:45Z''"
    by (simp add: Format_RFC3339_def RFC3339_zone_def testTime_parts testTime_texts)
  ultimately show ?thesis
    using documented_parts demo_blocks demo_texts(1,2) by simp
qed


lemma shipping_env_installed: "installed shipping_env"
proof -
  have "find (\<lambda>c. local_path k = local_path c) validLanguageCodes = Some k" if "k \<in> set validLanguageCodes" for k
    using that by (auto simp: validLanguageCodes_def local_path_inj)
  then show ?thesis using shipping_env_ships by (simp add: installed_def shipping_env_def)
qed

theorem template_demo_prints_documentation_witness:
  "\<exists>out. template_demo shipping_env (\<lambda>_. []) = Inr out \<and> concat out = concat (map line documented_output)"
  using template_demo_prints_documentation [OF shipping_env_installed] by blast

end
