(* ===== verification/Migrator_Model.thy ===== *)
theory Migrator_Model
  imports Prelude
begin

text \<open>
  The migrator (\<open>data/db/pg/migrate/migration.go\<close>). The database is a parameter: a state \<open>'d\<close> and the
  statements that the migrator sends to it, each a function that may fail and returns the new
  state. The migration functions are functions on the same state.
\<close>

section \<open>The database\<close>

record mig_row =
  row_id :: string
  row_comment :: string

text \<open>
  \<open>ensure_table\<close>: \<open>CREATE TABLE IF NOT EXISTS\<close>; \<open>select_ids\<close>: \<open>SELECT "id"\<close>; \<open>select_desc\<close>: the same
  ordered by \<open>applied_at DESC\<close>; \<open>select_rows\<close>: ids and comments; \<open>insert_row\<close> and \<open>delete_row\<close>. A query
  fails (\<open>None\<close>) or gives the rows that \<open>rows.Next\<close> goes through, \<open>None\<close> for one that cannot be
  scanned. \<open>rows_of\<close> is the contents of the migration table, the oldest row first.
\<close>

record 'd database =
  ensure_table :: "string \<Rightarrow> 'd \<Rightarrow> bool \<times> 'd"
  select_ids :: "string \<Rightarrow> 'd \<Rightarrow> string option list option \<times> 'd"
  select_desc :: "string \<Rightarrow> 'd \<Rightarrow> string option list option \<times> 'd"
  select_rows :: "string \<Rightarrow> 'd \<Rightarrow> mig_row option list option \<times> 'd"
  insert_row :: "string \<Rightarrow> mig_row \<Rightarrow> 'd \<Rightarrow> bool \<times> 'd"
  delete_row :: "string \<Rightarrow> string \<Rightarrow> 'd \<Rightarrow> bool \<times> 'd"
  rows_of :: "string \<Rightarrow> 'd \<Rightarrow> mig_row list"

text \<open>
  What the statements do when they succeed; a statement that fails leaves the table as it was.
  The rows are in order of \<open>applied_at\<close>, which is \<open>NOW()\<close> at the insertion.
\<close>

definition db_ok :: "'d database \<Rightarrow> bool" where
  "db_ok db \<longleftrightarrow> (\<forall>t d.
     rows_of db t (snd (ensure_table db t d)) = rows_of db t d
   \<and> rows_of db t (snd (select_ids db t d)) = rows_of db t d
   \<and> rows_of db t (snd (select_desc db t d)) = rows_of db t d
   \<and> rows_of db t (snd (select_rows db t d)) = rows_of db t d
   \<and> (\<forall>r. rows_of db t (snd (insert_row db t r d)) =
         (if fst (insert_row db t r d) then rows_of db t d @ [r] else rows_of db t d)
      \<and> (fst (insert_row db t r d) \<longrightarrow> row_id r \<notin> row_id ` set (rows_of db t d)))
   \<and> (\<forall>i. rows_of db t (snd (delete_row db t i d)) =
         (if fst (delete_row db t i d) then filter (\<lambda>r. row_id r \<noteq> i) (rows_of db t d) else rows_of db t d)))"

text \<open>
  The rows that are read are all the rows. The code relies on this where it does not call
  \<open>rows.Err\<close>: a connection that breaks while rows are read ends the loop like the last row does.
\<close>

definition reads_ok :: "'d database \<Rightarrow> bool" where
  "reads_ok db \<longleftrightarrow> (\<forall>t d.
     (\<forall>xs. fst (select_ids db t d) = Some xs \<longrightarrow> set xs = Some ` row_id ` set (rows_of db t d))
   \<and> (\<forall>xs. fst (select_desc db t d) = Some xs \<longrightarrow> xs = rev (map (Some \<circ> row_id) (rows_of db t d)))
   \<and> (\<forall>xs. fst (select_rows db t d) = Some xs \<longrightarrow> set xs = Some ` set (rows_of db t d)))"

section \<open>The migrator\<close>

text \<open>A migration function is \<open>nil\<close> or runs on the database and succeeds or returns an error.\<close>

record 'd migration =
  ID :: string
  Up_fn :: "('d \<Rightarrow> bool \<times> 'd) option"
  Down_fn :: "('d \<Rightarrow> bool \<times> 'd) option"
  MComment :: string

record 'd migrator =
  mdb :: "'d database"
  tableName :: string
  migrations :: "string \<rightharpoonup> 'd migration"

datatype mig_error =
    EnsureFailed
  | GetAppliedFailed
  | RunFailed string
  | RecordFailed string
  | NothingToRollback
  | NotRegistered string
  | NoDownFunction string
  | RollbackFailed string
  | RemoveFailed string
  | QueryFailed
  | ScanFailed
  | TargetNotFound string
  | NilUpPanic

definition NewMigrator :: "'d database \<Rightarrow> string \<Rightarrow> 'd migrator" where
  "NewMigrator db tn = \<lparr>mdb = db, tableName = (if tn = [] then ''schema_migrations'' else tn), migrations = Map.empty\<rparr>"

definition Add :: "'d migration \<Rightarrow> 'd migrator \<Rightarrow> 'd migrator" where
  "Add mg m = m\<lparr>migrations := (migrations m)(ID mg \<mapsto> mg)\<rparr>"

definition AddFunc :: "string \<Rightarrow> string \<Rightarrow> ('d \<Rightarrow> bool \<times> 'd) option \<Rightarrow> ('d \<Rightarrow> bool \<times> 'd) option \<Rightarrow> 'd migrator \<Rightarrow> 'd migrator" where
  "AddFunc i comment up down m = Add \<lparr>ID = i, Up_fn = up, Down_fn = down, MComment = comment\<rparr> m"

definition ensureMigrationTable :: "'d migrator \<Rightarrow> 'd \<Rightarrow> bool \<times> 'd" where
  "ensureMigrationTable m d = ensure_table (mdb m) (tableName m) d"

text \<open>The loop over the rows, left at the first that cannot be scanned.\<close>

fun scan_rows :: "'r option list \<Rightarrow> 'r list option" where
  "scan_rows [] = Some []"
| "scan_rows (None # rs) = None"
| "scan_rows (Some r # rs) = map_option (\<lambda>xs. r # xs) (scan_rows rs)"

definition getAppliedMigrations :: "'d migrator \<Rightarrow> 'd \<Rightarrow> string set option \<times> 'd" where
  "getAppliedMigrations m d = (case select_ids (mdb m) (tableName m) d of
     (None, d') \<Rightarrow> (None, d')
   | (Some rows, d') \<Rightarrow> (map_option set (scan_rows rows), d'))"

definition mig_record :: "'d migration \<Rightarrow> mig_row" where
  "mig_record mg = \<lparr>row_id = ID mg, row_comment = MComment mg\<rparr>"

definition recordMigration :: "'d migrator \<Rightarrow> 'd migration \<Rightarrow> 'd \<Rightarrow> bool \<times> 'd" where
  "recordMigration m mg d = insert_row (mdb m) (tableName m) (mig_record mg) d"

definition removeMigrationRecord :: "'d migrator \<Rightarrow> string \<Rightarrow> 'd \<Rightarrow> bool \<times> 'd" where
  "removeMigrationRecord m i d = delete_row (mdb m) (tableName m) i d"

text \<open>The loop of \<open>Up\<close> over the map; \<open>order\<close> is the order in which \<open>range\<close> gives its keys.\<close>

fun up_loop :: "'d migrator \<Rightarrow> string set \<Rightarrow> string list \<Rightarrow> 'd \<Rightarrow> mig_error option \<times> 'd" where
  "up_loop m applied [] d = (None, d)"
| "up_loop m applied (i # ids) d =
     (case migrations m i of
        None \<Rightarrow> up_loop m applied ids d
      | Some mg \<Rightarrow>
          if i \<in> applied then up_loop m applied ids d
          else case Up_fn mg of
              None \<Rightarrow> (Some NilUpPanic, d)
            | Some up \<Rightarrow> (case up d of
                (False, d1) \<Rightarrow> (Some (RunFailed i), d1)
              | (True, d1) \<Rightarrow> (case recordMigration m mg d1 of
                  (False, d2) \<Rightarrow> (Some (RecordFailed i), d2)
                | (True, d2) \<Rightarrow> up_loop m applied ids d2)))"

definition Up :: "'d migrator \<Rightarrow> string list \<Rightarrow> 'd \<Rightarrow> mig_error option \<times> 'd" where
  "Up m order d = (case ensureMigrationTable m d of
     (False, d1) \<Rightarrow> (Some EnsureFailed, d1)
   | (True, d1) \<Rightarrow> (case getAppliedMigrations m d1 of
       (None, d2) \<Rightarrow> (Some GetAppliedFailed, d2)
     | (Some applied, d2) \<Rightarrow> up_loop m applied order d2))"

text \<open>Rolling back one migration, the body of the loops of \<open>DownTo\<close> and \<open>Reset\<close> and the end of \<open>Down\<close>.\<close>

definition rollback :: "'d migrator \<Rightarrow> string \<Rightarrow> 'd \<Rightarrow> mig_error option \<times> 'd" where
  "rollback m i d = (case migrations m i of
     None \<Rightarrow> (Some (NotRegistered i), d)
   | Some mg \<Rightarrow> (case Down_fn mg of
       None \<Rightarrow> (Some (NoDownFunction i), d)
     | Some down \<Rightarrow> (case down d of
         (False, d1) \<Rightarrow> (Some (RollbackFailed i), d1)
       | (True, d1) \<Rightarrow> (case removeMigrationRecord m i d1 of
           (False, d2) \<Rightarrow> (Some (RemoveFailed i), d2)
         | (True, d2) \<Rightarrow> (None, d2)))))"

fun rollback_loop :: "'d migrator \<Rightarrow> string list \<Rightarrow> 'd \<Rightarrow> mig_error option \<times> 'd" where
  "rollback_loop m [] d = (None, d)"
| "rollback_loop m (i # ids) d = (case rollback m i d of
     (Some e, d1) \<Rightarrow> (Some e, d1)
   | (None, d1) \<Rightarrow> rollback_loop m ids d1)"

text \<open>
  \<open>Down\<close>. The query has \<open>LIMIT 1\<close>, so it gives at most one row; when it fails or there is none, the
  scan of \<open>QueryRow\<close> is what fails.
\<close>

definition Down :: "'d migrator \<Rightarrow> 'd \<Rightarrow> mig_error option \<times> 'd" where
  "Down m d = (case ensureMigrationTable m d of
     (False, d1) \<Rightarrow> (Some EnsureFailed, d1)
   | (True, d1) \<Rightarrow> (case select_desc (mdb m) (tableName m) d1 of
       (Some (Some lastMigrationID # _), d2) \<Rightarrow> rollback m lastMigrationID d2
     | (_, d2) \<Rightarrow> (Some NothingToRollback, d2)))"

text \<open>The loop of \<open>DownTo\<close> over the rows: the ids before the target and whether it was found.\<close>

fun scan_to :: "string \<Rightarrow> string option list \<Rightarrow> (string list \<times> bool) option" where
  "scan_to target [] = Some ([], False)"
| "scan_to target (None # rs) = None"
| "scan_to target (Some i # rs) =
     (if i = target then Some ([], True)
      else map_option (\<lambda>(ids, found). (i # ids, found)) (scan_to target rs))"

definition DownTo :: "'d migrator \<Rightarrow> string \<Rightarrow> 'd \<Rightarrow> mig_error option \<times> 'd" where
  "DownTo m targetID d = (case ensureMigrationTable m d of
     (False, d1) \<Rightarrow> (Some EnsureFailed, d1)
   | (True, d1) \<Rightarrow> (case select_desc (mdb m) (tableName m) d1 of
       (None, d2) \<Rightarrow> (Some QueryFailed, d2)
     | (Some rows, d2) \<Rightarrow> (case scan_to targetID rows of
         None \<Rightarrow> (Some ScanFailed, d2)
       | Some (toRollback, foundTarget) \<Rightarrow>
           if \<not> foundTarget then (Some (TargetNotFound targetID), d2)
           else rollback_loop m toRollback d2)))"

definition Reset :: "'d migrator \<Rightarrow> 'd \<Rightarrow> mig_error option \<times> 'd" where
  "Reset m d = (case ensureMigrationTable m d of
     (False, d1) \<Rightarrow> (Some EnsureFailed, d1)
   | (True, d1) \<Rightarrow> (case select_desc (mdb m) (tableName m) d1 of
       (None, d2) \<Rightarrow> (Some QueryFailed, d2)
     | (Some rows, d2) \<Rightarrow> (case scan_rows rows of
         None \<Rightarrow> (Some ScanFailed, d2)
       | Some toRollback \<Rightarrow> rollback_loop m toRollback d2)))"

record mig_status =
  st_id :: string
  st_applied :: bool
  st_comment :: string

text \<open>\<open>Status\<close>; the last row of an id in the result wins in \<open>appliedMap\<close>. (The time is left out.)\<close>

definition applied_map :: "mig_row list \<Rightarrow> string \<rightharpoonup> mig_status" where
  "applied_map rows = foldl (\<lambda>am r. am(row_id r \<mapsto> \<lparr>st_id = row_id r, st_applied = True, st_comment = row_comment r\<rparr>)) Map.empty rows"

definition status_of :: "'d migrator \<Rightarrow> (string \<rightharpoonup> mig_status) \<Rightarrow> string \<Rightarrow> mig_status list" where
  "status_of m am i = (case migrations m i of
     None \<Rightarrow> []
   | Some mg \<Rightarrow> (case am i of
       Some status \<Rightarrow> [status]
     | None \<Rightarrow> [\<lparr>st_id = i, st_applied = False, st_comment = MComment mg\<rparr>]))"

definition Status :: "'d migrator \<Rightarrow> string list \<Rightarrow> 'd \<Rightarrow> (mig_error + mig_status list) \<times> 'd" where
  "Status m order d = (case ensureMigrationTable m d of
     (False, d1) \<Rightarrow> (Inl EnsureFailed, d1)
   | (True, d1) \<Rightarrow> (case select_rows (mdb m) (tableName m) d1 of
       (None, d2) \<Rightarrow> (Inl QueryFailed, d2)
     | (Some rows, d2) \<Rightarrow> (case scan_rows rows of
         None \<Rightarrow> (Inl ScanFailed, d2)
       | Some rs \<Rightarrow> (Inr (concat (map (status_of m (applied_map rs)) order)), d2))))"

end
