(* ===== verification/Migrate_Model.thy ===== *)
theory Migrate_Model
  imports Tag_Parser Migrator_Model
begin

text \<open>
  Automatic migrations (\<open>data/db/pg/migrate/migrate.go\<close>): the columns of a model, the statements that
  create and extend its table, the id of its migration, \<open>Migrate\<close> and the \<open>AutoMigrator\<close>. The model is
  the list of its fields (a pointer is followed first). The schema part of the database is a
  parameter that takes the SQL text; \<open>sha256\<close> is a parameter too. The order in which Go ranges over a
  map is an argument, one list of keys for each such loop.
\<close>

section \<open>Columns of a model\<close>

definition getLegacyColumnInfo :: "field \<Rightarrow> string \<times> string" where
  "getLegacyColumnInfo f =
     (if pgname f = [] \<and> pgtype f = [] \<and> primarykey f = [] \<and> kind_of (ftype f) \<noteq> KStruct then ([], [])
      else
        let colName = (if pgname f = [] then ToUnderScore (fname f) else pgname f);
            colType = (if primarykey f = ''auto'' then ''SERIAL PRIMARY KEY''
                       else if primarykey f = [] then pgtype f
                       else primarykey f @ '' PRIMARY KEY'');
            t = deref (ftype f); k = kind_of t;
            inferred =
              (if k \<in> {KInt, KInt8, KInt16, KInt32, KUint, KUint8, KUint16, KUint32} then ''INTEGER''
               else if k \<in> {KInt64, KUint64} then ''BIGINT''
               else if k = KFloat32 then ''REAL''
               else if k = KFloat64 then ''DOUBLE PRECISION''
               else if k = KBool then ''BOOLEAN''
               else if k = KString then ''TEXT''
               else if k = KStruct then (if t = GTime then ''TIMESTAMPTZ'' else ''JSONB'')
               else [])
        in (colName, if colType = [] then inferred else colType))"

definition getColumnInfo :: "field \<Rightarrow> string \<times> string" where
  "getColumnInfo f =
     (if \<not> exported f then ([], [])
      else case ParseTag f of
          Inr (Some tag) \<Rightarrow> (Column tag, CType tag)
        | _ \<Rightarrow> getLegacyColumnInfo f)"

text \<open>A \<open>nil\<close> map of extra columns is the empty map.\<close>

definition expectedColumns :: "field list \<Rightarrow> (string \<rightharpoonup> string) \<Rightarrow> string \<rightharpoonup> string" where
  "expectedColumns flds extracols =
     foldl (\<lambda>m f. case getColumnInfo f of (columnName, columnType) \<Rightarrow>
              if columnName = [] then m else m(columnName \<mapsto> columnType)) extracols flds"

text \<open>The part of a \<open>CREATE TABLE\<close> statement for one field.\<close>

definition column_sql :: "field \<Rightarrow> string list" where
  "column_sql f = (case ParseTag f of
     Inr (Some tag) \<Rightarrow> [BuildColumnDefinition tag]
   | _ \<Rightarrow> (case getLegacyColumnInfo f of (columnName, columnType) \<Rightarrow>
       if columnName = [] then [] else [quoted columnName @ '' '' @ columnType]))"

section \<open>Statements\<close>

definition create_sql :: "string \<Rightarrow> string list \<Rightarrow> string" where
  "create_sql t columns = ''CREATE TABLE IF NOT EXISTS '' @ quoted t @ '' ('' @ join '', '' columns @ '');''"

definition add_column_sql :: "string \<Rightarrow> string \<Rightarrow> string \<Rightarrow> string" where
  "add_column_sql t c ty = ''ALTER TABLE '' @ quoted t @ '' ADD COLUMN '' @ quoted c @ '' '' @ ty @ '';''"

definition drop_column_sql :: "string \<Rightarrow> string \<Rightarrow> string" where
  "drop_column_sql t c = ''ALTER TABLE '' @ quoted t @ '' DROP COLUMN IF EXISTS '' @ quoted c @ '';''"

definition drop_table_sql :: "string \<Rightarrow> string" where
  "drop_table_sql t = ''DROP TABLE IF EXISTS '' @ quoted t @ '';''"

text \<open>
  \<open>exec_sql\<close>: a statement, which may fail; \<open>select_columns\<close>: the query on \<open>information_schema.columns\<close>,
  with rows as in the migrator's queries. \<open>columns_of\<close> observes the columns of a table (none when there
  is no such table).
\<close>

record 'd ddl =
  exec_sql :: "string \<Rightarrow> 'd \<Rightarrow> bool \<times> 'd"
  select_columns :: "string \<Rightarrow> 'd \<Rightarrow> string option list option \<times> 'd"
  columns_of :: "string \<Rightarrow> 'd \<Rightarrow> string set"

datatype auto_error =
    CreateTableFailed string
  | QueryColumnsFailed string
  | ScanColumnFailed
  | AddColumnFailed string string
  | DropColumnFailed string string
  | DropTableFailed string
  | StatusFailed mig_error
  | UpFailed mig_error

definition dropTable :: "'d ddl \<Rightarrow> string \<Rightarrow> 'd \<Rightarrow> auto_error option \<times> 'd" where
  "dropTable db t d = (case exec_sql db (drop_table_sql t) d of
     (ok, d') \<Rightarrow> (if ok then None else Some (DropTableFailed t), d'))"

definition createTableIfNotExists :: "'d ddl \<Rightarrow> string \<Rightarrow> field list \<Rightarrow> 'd \<Rightarrow> auto_error option \<times> 'd" where
  "createTableIfNotExists db t flds d =
     (let columns = concat (map column_sql flds) in
      if columns = [] then (None, d)
      else case exec_sql db (create_sql t columns) d of
          (ok, d') \<Rightarrow> (if ok then None else Some (CreateTableFailed t), d'))"

definition getExistingColumns :: "'d ddl \<Rightarrow> string \<Rightarrow> 'd \<Rightarrow> (auto_error + string set) \<times> 'd" where
  "getExistingColumns db t d = (case select_columns db t d of
     (None, d') \<Rightarrow> (Inl (QueryColumnsFailed t), d')
   | (Some rows, d') \<Rightarrow> (case scan_rows rows of
       None \<Rightarrow> (Inl ScanColumnFailed, d')
     | Some cs \<Rightarrow> (Inr (set cs), d')))"

text \<open>The loop over the expected columns that adds those the table does not have.\<close>

fun add_loop :: "'d ddl \<Rightarrow> string \<Rightarrow> (string \<rightharpoonup> string) \<Rightarrow> string set \<Rightarrow> string list \<Rightarrow> 'd \<Rightarrow> auto_error option \<times> 'd" where
  "add_loop db t expected existing [] d = (None, d)"
| "add_loop db t expected existing (c # cs) d = (case expected c of
     None \<Rightarrow> add_loop db t expected existing cs d
   | Some ty \<Rightarrow>
       if c \<in> existing then add_loop db t expected existing cs d
       else case exec_sql db (add_column_sql t c ty) d of
           (False, d') \<Rightarrow> (Some (AddColumnFailed c t), d')
         | (True, d') \<Rightarrow> add_loop db t expected existing cs d')"

fun drop_loop :: "'d ddl \<Rightarrow> string \<Rightarrow> (string \<rightharpoonup> string) \<Rightarrow> string set \<Rightarrow> string list \<Rightarrow> 'd \<Rightarrow> auto_error option \<times> 'd" where
  "drop_loop db t expected existing [] d = (None, d)"
| "drop_loop db t expected existing (c # cs) d = (case expected c of
     None \<Rightarrow> drop_loop db t expected existing cs d
   | Some ty \<Rightarrow>
       if c \<in> existing then drop_loop db t expected existing cs d
       else case exec_sql db (drop_column_sql t c) d of
           (False, d') \<Rightarrow> (Some (DropColumnFailed c t), d')
         | (True, d') \<Rightarrow> drop_loop db t expected existing cs d')"

definition addMissingColumns ::
  "'d ddl \<Rightarrow> string list \<Rightarrow> string \<Rightarrow> field list \<Rightarrow> (string \<rightharpoonup> string) \<Rightarrow> 'd \<Rightarrow> auto_error option \<times> 'd" where
  "addMissingColumns db order t flds extracols d = (case getExistingColumns db t d of
     (Inl e, d') \<Rightarrow> (Some e, d')
   | (Inr existing, d') \<Rightarrow> add_loop db t (expectedColumns flds extracols) existing order d')"

definition createTableAndColumns ::
  "'d ddl \<Rightarrow> string list \<Rightarrow> string \<Rightarrow> field list \<Rightarrow> (string \<rightharpoonup> string) \<Rightarrow> 'd \<Rightarrow> auto_error option \<times> 'd" where
  "createTableAndColumns db order t flds extracols d = (case createTableIfNotExists db t flds d of
     (Some e, d') \<Rightarrow> (Some e, d')
   | (None, d') \<Rightarrow> addMissingColumns db order t flds extracols d')"

section \<open>Migration ids\<close>

definition hex_digit :: "nat \<Rightarrow> char" where
  "hex_digit n = (if n < 10 then digit n else char_of (87 + n))"

text \<open>The verb \<open>%x\<close> on bytes.\<close>

definition hex :: "8 word list \<Rightarrow> string" where
  "hex bs = concat (map (\<lambda>b. [hex_digit (unat b div 16), hex_digit (unat b mod 16)]) bs)"

text \<open>The text that is hashed; \<open>eorder\<close> is the order of the extra columns.\<close>

definition id_text :: "string \<Rightarrow> field list \<Rightarrow> (string \<rightharpoonup> string) \<Rightarrow> string list \<Rightarrow> string" where
  "id_text t flds extracols eorder = t
     @ concat (map (\<lambda>f. case getColumnInfo f of (c, ty) \<Rightarrow> if c = [] then [] else c @ '':'' @ ty) flds)
     @ concat (map (\<lambda>name. case extracols name of None \<Rightarrow> [] | Some ty \<Rightarrow> name @ '':'' @ ty) eorder)"

definition generateMigrationID ::
  "(string \<Rightarrow> 8 word list) \<Rightarrow> string list \<Rightarrow> string \<Rightarrow> field list \<Rightarrow> (string \<rightharpoonup> string) \<Rightarrow> string" where
  "generateMigrationID sha256 eorder t flds extracols =
     ''auto_'' @ t @ ''_'' @ hex (take 8 (sha256 (id_text t flds extracols eorder)))"

section \<open>Migrate\<close>

text \<open>A migration function of the migrator: did it return no error?\<close>

definition mig_fn :: "('d \<Rightarrow> auto_error option \<times> 'd) \<Rightarrow> ('d \<Rightarrow> bool \<times> 'd) option" where
  "mig_fn f = Some (\<lambda>d. case f d of (e, d') \<Rightarrow> (e = None, d'))"

definition up_result :: "mig_error option \<times> 'd \<Rightarrow> auto_error option \<times> 'd" where
  "up_result r = (map_option UpFailed (fst r), snd r)"

text \<open>The migration that is registered for a model.\<close>

definition add_model :: "'d ddl \<Rightarrow> string \<Rightarrow> string list \<Rightarrow> string \<Rightarrow> field list \<Rightarrow> (string \<rightharpoonup> string) \<Rightarrow> 'd migrator \<Rightarrow> 'd migrator" where
  "add_model db migrationID order t flds extracols m =
     AddFunc migrationID (''Auto-migrate table '' @ t)
       (mig_fn (createTableAndColumns db order t flds extracols)) (mig_fn (dropTable db t)) m"

text \<open>
  \<open>addMissingColumnsWithVersionControl\<close>; its three loops over the expected columns have the orders
  \<open>o1\<close>, \<open>o2\<close> and \<open>o3\<close>, and \<open>morder\<close> is the order of the migrations in \<open>Up\<close>.
\<close>

definition addMissingColumnsWithVersionControl ::
  "'d ddl \<Rightarrow> (string \<Rightarrow> 8 word list) \<Rightarrow> string list \<Rightarrow> string list \<Rightarrow> string list \<Rightarrow> string list \<Rightarrow> 'd migrator
     \<Rightarrow> string \<Rightarrow> field list \<Rightarrow> (string \<rightharpoonup> string) \<Rightarrow> string \<Rightarrow> 'd \<Rightarrow> auto_error option \<times> 'd" where
  "addMissingColumnsWithVersionControl db sha256 o1 o2 o3 morder m t flds extracols baseMigrationID d =
     (case getExistingColumns db t d of
        (Inl e, d') \<Rightarrow> (Some e, d')
      | (Inr existing, d') \<Rightarrow>
          (let expected = expectedColumns flds extracols;
               newColumns = concat (map (\<lambda>c. case expected c of
                   None \<Rightarrow> []
                 | Some ty \<Rightarrow> if c \<in> existing then [] else [quoted c @ '' '' @ ty]) o1)
           in if newColumns = [] then (None, d')
              else let newMigrationID = baseMigrationID @ ''_add_columns_'' @ hex (take 4 (sha256 (join '','' newColumns)))
                in up_result (Up (AddFunc newMigrationID (''Add columns to table '' @ t)
                     (mig_fn (add_loop db t expected existing o2)) (mig_fn (drop_loop db t expected existing o3)) m)
                     (newMigrationID # morder) d')))"

text \<open>
  \<open>MigrateWithVersionControl\<close>. The migrator is new, so \<open>Status\<close> ranges over no migrations and \<open>Up\<close> over
  the one that is added.
\<close>

definition MigrateWithVersionControl ::
  "'d ddl \<Rightarrow> 'd database \<Rightarrow> (string \<Rightarrow> 8 word list) \<Rightarrow> string list \<Rightarrow> string list \<Rightarrow> string
     \<Rightarrow> field list \<Rightarrow> (string \<rightharpoonup> string) \<Rightarrow> string \<Rightarrow> 'd \<Rightarrow> auto_error option \<times> 'd" where
  "MigrateWithVersionControl db pdb sha256 eorder order t flds extracols migrationTable d =
     (let m = NewMigrator pdb migrationTable;
          migrationID = generateMigrationID sha256 eorder t flds extracols
      in case Status m [] d of
          (Inl e, d') \<Rightarrow> (Some (StatusFailed e), d')
        | (Inr statuses, d') \<Rightarrow>
            if list_ex (\<lambda>s. st_id s = migrationID \<and> st_applied s) statuses
            then addMissingColumnsWithVersionControl db sha256 order order order [] m t flds extracols migrationID d'
            else up_result (Up (add_model db migrationID order t flds extracols m) [migrationID] d'))"

definition Migrate ::
  "'d ddl \<Rightarrow> 'd database \<Rightarrow> (string \<Rightarrow> 8 word list) \<Rightarrow> string list \<Rightarrow> string list \<Rightarrow> string
     \<Rightarrow> field list \<Rightarrow> (string \<rightharpoonup> string) \<Rightarrow> 'd \<Rightarrow> auto_error option \<times> 'd" where
  "Migrate db pdb sha256 eorder order t flds extracols d =
     MigrateWithVersionControl db pdb sha256 eorder order t flds extracols ''auto_migrations'' d"

section \<open>AutoMigrator\<close>

record modelInfo =
  mi_fields :: "field list"
  mi_extracols :: "string \<rightharpoonup> string"

record 'd auto_migrator =
  am_migrator :: "'d migrator"
  registeredModels :: "string \<rightharpoonup> modelInfo"

definition NewAutoMigrator :: "'d database \<Rightarrow> string \<Rightarrow> 'd auto_migrator" where
  "NewAutoMigrator pdb migrationTable =
     \<lparr>am_migrator = NewMigrator pdb (if migrationTable = [] then ''auto_migrations'' else migrationTable),
      registeredModels = Map.empty\<rparr>"

definition RegisterModel :: "string \<Rightarrow> field list \<Rightarrow> (string \<rightharpoonup> string) \<Rightarrow> 'd auto_migrator \<Rightarrow> 'd auto_migrator" where
  "RegisterModel t flds extracols am =
     am\<lparr>registeredModels := (registeredModels am)(t \<mapsto> \<lparr>mi_fields = flds, mi_extracols = extracols\<rparr>)\<rparr>"

text \<open>The orders of the maps of one model: its extra columns and its expected columns.\<close>

type_synonym orders = "string \<Rightarrow> string list \<times> string list"

definition migrateModel ::
  "'d ddl \<Rightarrow> (string \<Rightarrow> 8 word list) \<Rightarrow> orders \<Rightarrow> string \<Rightarrow> modelInfo \<Rightarrow> 'd auto_migrator \<Rightarrow> 'd auto_migrator" where
  "migrateModel db sha256 ords t info am =
     (let migrationID = generateMigrationID sha256 (fst (ords t)) t (mi_fields info) (mi_extracols info) in
      if migrations (am_migrator am) migrationID \<noteq> None then am
      else am\<lparr>am_migrator := add_model db migrationID (snd (ords t)) t (mi_fields info) (mi_extracols info) (am_migrator am)\<rparr>)"

definition register_all ::
  "'d ddl \<Rightarrow> (string \<Rightarrow> 8 word list) \<Rightarrow> orders \<Rightarrow> string list \<Rightarrow> 'd auto_migrator \<Rightarrow> 'd auto_migrator" where
  "register_all db sha256 ords torder am0 =
     foldl (\<lambda>am t. case registeredModels am0 t of None \<Rightarrow> am | Some info \<Rightarrow> migrateModel db sha256 ords t info am) am0 torder"

text \<open>\<open>MigrateAll\<close>: the auto-migrator it leaves, with its migrations, and the result of \<open>Up\<close>.\<close>

definition MigrateAll ::
  "'d ddl \<Rightarrow> (string \<Rightarrow> 8 word list) \<Rightarrow> orders \<Rightarrow> string list \<Rightarrow> string list \<Rightarrow> 'd auto_migrator \<Rightarrow> 'd
     \<Rightarrow> 'd auto_migrator \<times> mig_error option \<times> 'd" where
  "MigrateAll db sha256 ords torder morder am d =
     (let am' = register_all db sha256 ords torder am in (am', Up (am_migrator am') morder d))"

end
