(* ===== verification/Migrator_Props.thy ===== *)
theory Migrator_Props
  imports Migrator_Model "HOL-Library.Sublist"
begin

text \<open>
  What the migrator does to the migration table and to the schema: \<open>Up\<close> records what ran, running
  it again runs nothing, \<open>DownTo\<close> and \<open>Reset\<close> remove the newest rows, and \<open>Reset\<close> undoes \<open>Up\<close>.
\<close>

section \<open>Well-formed migrators\<close>

definition tab :: "'d migrator \<Rightarrow> 'd \<Rightarrow> mig_row list" where
  "tab m d = rows_of (mdb m) (tableName m) d"

definition ids :: "'d migrator \<Rightarrow> 'd \<Rightarrow> string list" where
  "ids m d = map row_id (tab m d)"

text \<open>A migration function leaves the migration table alone, whether it succeeds or not.\<close>

definition keeps_table :: "'d migrator \<Rightarrow> ('d \<Rightarrow> bool \<times> 'd) option \<Rightarrow> bool" where
  "keeps_table m f \<longleftrightarrow> (\<forall>g d. f = Some g \<longrightarrow> tab m (snd (g d)) = tab m d)"

definition migrator_ok :: "'d migrator \<Rightarrow> bool" where
  "migrator_ok m \<longleftrightarrow> db_ok (mdb m)
     \<and> (\<forall>i mg. migrations m i = Some mg \<longrightarrow> ID mg = i \<and> keeps_table m (Up_fn mg) \<and> keeps_table m (Down_fn mg))"

lemma statements:
  assumes "migrator_ok m"
  shows "tab m (snd (ensureMigrationTable m d)) = tab m d"
    and "tab m (snd (getAppliedMigrations m d)) = tab m d"
    and "tab m (snd (select_desc (mdb m) (tableName m) d)) = tab m d"
    and "tab m (snd (recordMigration m mg d)) =
           (if fst (recordMigration m mg d) then tab m d @ [mig_record mg] else tab m d)"
    and "tab m (snd (removeMigrationRecord m i d)) =
           (if fst (removeMigrationRecord m i d) then filter (\<lambda>r. row_id r \<noteq> i) (tab m d) else tab m d)"
proof -
  have db: "db_ok (mdb m)" using assms by (simp add: migrator_ok_def)
  then show "tab m (snd (ensureMigrationTable m d)) = tab m d"
    by (simp add: db_ok_def tab_def ensureMigrationTable_def)
  show "tab m (snd (select_desc (mdb m) (tableName m) d)) = tab m d"
    using db by (simp add: db_ok_def tab_def)
  have "snd (getAppliedMigrations m d) = snd (select_ids (mdb m) (tableName m) d)"
    by (simp add: getAppliedMigrations_def split: prod.splits option.splits)
  then show "tab m (snd (getAppliedMigrations m d)) = tab m d"
    using db by (simp add: db_ok_def tab_def)
  show "tab m (snd (recordMigration m mg d)) =
           (if fst (recordMigration m mg d) then tab m d @ [mig_record mg] else tab m d)"
    using db by (simp add: db_ok_def tab_def recordMigration_def)
  show "tab m (snd (removeMigrationRecord m i d)) =
           (if fst (removeMigrationRecord m i d) then filter (\<lambda>r. row_id r \<noteq> i) (tab m d) else tab m d)"
    using db by (simp add: db_ok_def tab_def removeMigrationRecord_def)
qed

lemma scan_rows_Some: "scan_rows (map Some xs) = Some xs"
  by (induction xs) simp_all

lemma scan_rows_eq: "scan_rows rs = Some xs \<longleftrightarrow> rs = map Some xs"
proof (induction rs arbitrary: xs rule: scan_rows.induct)
  case (3 r rs)
  then show ?case by (cases xs) auto
qed auto

lemma getApplied_ids:
  assumes "reads_ok (mdb m)" and "getAppliedMigrations m d = (Some applied, d')"
  shows "applied = set (ids m d)"
proof -
  obtain rs where rs: "select_ids (mdb m) (tableName m) d = (Some rs, d')" "map_option set (scan_rows rs) = Some applied"
    using assms(2) by (auto simp: getAppliedMigrations_def split: prod.splits option.splits)
  then obtain xs where xs: "rs = map Some xs" "applied = set xs" by (auto simp: scan_rows_eq)
  have "set rs = Some ` row_id ` set (tab m d)" using assms(1) rs(1) unfolding reads_ok_def tab_def by (metis fst_conv)
  then have "Some ` set xs = Some ` set (ids m d)" using xs by (simp add: ids_def)
  then show ?thesis using xs(2) by (simp add: inj_image_eq_iff)
qed

section \<open>Up\<close>

text \<open>The migrations that are registered and not in the table, in the order of the map.\<close>

definition pending :: "'d migrator \<Rightarrow> string set \<Rightarrow> string list \<Rightarrow> string list" where
  "pending m applied order = filter (\<lambda>i. i \<in> dom (migrations m) \<and> i \<notin> applied) order"

definition record_of :: "'d migrator \<Rightarrow> string \<Rightarrow> mig_row" where
  "record_of m i = mig_record (the (migrations m i))"

lemma pending_Cons:
  "pending m applied (i # order) = (if i \<in> dom (migrations m) \<and> i \<notin> applied then [i] else []) @ pending m applied order"
  by (simp add: pending_def)

text \<open>The migrations that ran and were recorded, and the one at which the loop stopped, if any.\<close>

definition stopped_at :: "mig_error option \<Rightarrow> string list \<Rightarrow> string list \<Rightarrow> bool" where
  "stopped_at e did todo \<longleftrightarrow> (case e of
     None \<Rightarrow> did = todo
   | Some (RunFailed i) \<Rightarrow> prefix (did @ [i]) todo
   | Some (RecordFailed i) \<Rightarrow> prefix (did @ [i]) todo
   | Some NilUpPanic \<Rightarrow> strict_prefix did todo
   | _ \<Rightarrow> False)"

lemma stopped_at_Cons: "stopped_at e did todo \<Longrightarrow> stopped_at e (i # did) (i # todo)"
  by (auto simp: stopped_at_def strict_prefix_def split: option.splits mig_error.splits)

text \<open>
  An observer of the calls: a part of the database state in which the \<open>Up\<close> function of every registered
  migration notes its id when it is called, whether it succeeds or fails, and which the statements of the
  migrator leave alone. The migration that was called and not recorded is the one of the error.
\<close>

definition notes_calls :: "('d \<Rightarrow> string list) \<Rightarrow> 'd migrator \<Rightarrow> bool" where
  "notes_calls calls m \<longleftrightarrow>
     (\<forall>i mg up d. migrations m i = Some mg \<longrightarrow> Up_fn mg = Some up \<longrightarrow> calls (snd (up d)) = calls d @ [i])
   \<and> (\<forall>d. calls (snd (ensureMigrationTable m d)) = calls d)
   \<and> (\<forall>d. calls (snd (getAppliedMigrations m d)) = calls d)
   \<and> (\<forall>mg d. calls (snd (recordMigration m mg d)) = calls d)"

definition unrecorded :: "mig_error option \<Rightarrow> string list" where
  "unrecorded e = (case e of Some (RunFailed i) \<Rightarrow> [i] | Some (RecordFailed i) \<Rightarrow> [i] | _ \<Rightarrow> [])"

lemma up_loop_table:
  assumes ok: "migrator_ok m"
  shows "\<exists>did. tab m (snd (up_loop m applied order d)) = tab m d @ map (record_of m) did
           \<and> stopped_at (fst (up_loop m applied order d)) did (pending m applied order)
           \<and> (\<forall>calls. notes_calls calls m \<longrightarrow> calls (snd (up_loop m applied order d))
                = calls d @ did @ unrecorded (fst (up_loop m applied order d)))"
proof (induction order arbitrary: d)
  case Nil
  show ?case by (simp add: pending_def stopped_at_def unrecorded_def)
next
  case (Cons i order)
  show ?case
  proof (cases "migrations m i")
    case None
    then show ?thesis using Cons by (auto simp: pending_Cons)
  next
    case (Some mg)
    have keep: "keeps_table m (Up_fn mg)" using ok Some by (simp add: migrator_ok_def)
    have rec: "mig_record mg = record_of m i" using Some by (simp add: record_of_def)
    show ?thesis
    proof (cases "i \<in> applied")
      case True
      then show ?thesis using Cons Some by (auto simp: pending_Cons)
    next
      case False
      then have p: "pending m applied (i # order) = i # pending m applied order"
        using Some by (simp add: pending_Cons dom_def)
      show ?thesis
      proof (cases "Up_fn mg")
        case None
        then show ?thesis using Some False p by (intro exI [of _ "[]"]) (simp add: stopped_at_def unrecorded_def)
      next
        case up: (Some up)
        obtain b d1 where d1: "up d = (b, d1)" by fastforce
        have t1: "tab m d1 = tab m d" using keep up d1 unfolding keeps_table_def by (metis snd_conv)
        obtain c d2 where d2: "recordMigration m mg d1 = (c, d2)" by fastforce
        have t2: "tab m d2 = (if c then tab m d1 @ [record_of m i] else tab m d1)"
          using statements(4) [OF ok, of mg d1] d2 rec by simp
        have c1: "calls d1 = calls d @ [i]" "calls d2 = calls d1" if "notes_calls calls m" for calls
          using that Some up d1 d2 unfolding notes_calls_def by (metis snd_conv)+
        consider "\<not> b" | "b" "\<not> c" | "b" "c" by blast
        then show ?thesis
        proof cases
          case 3
          obtain did where "tab m (snd (up_loop m applied order d2)) = tab m d2 @ map (record_of m) did"
            "stopped_at (fst (up_loop m applied order d2)) did (pending m applied order)"
            and rest: "\<And>calls. notes_calls calls m \<Longrightarrow>
               calls (snd (up_loop m applied order d2)) = calls d2 @ did @ unrecorded (fst (up_loop m applied order d2))"
            using Cons by blast
          moreover have "calls (snd (up_loop m applied order d2))
              = calls d @ i # did @ unrecorded (fst (up_loop m applied order d2))" if "notes_calls calls m" for calls
            by (simp add: rest [OF that] c1 [OF that])
          ultimately show ?thesis using 3 Some False up d1 d2 t1 t2 p
            by (intro exI [of _ "i # did"]) (simp add: stopped_at_Cons)
        qed (use Some False up d1 d2 t1 t2 p c1 in \<open>auto simp: stopped_at_def unrecorded_def intro!: exI [of _ "[]"]\<close>)
      qed
    qed
  qed
qed

lemma Up_cases:
  obtains "fst (Up m order d) = Some EnsureFailed" "snd (Up m order d) = snd (ensureMigrationTable m d)"
    | "fst (Up m order d) = Some GetAppliedFailed"
      "snd (Up m order d) = snd (getAppliedMigrations m (snd (ensureMigrationTable m d)))"
    | applied where "fst (getAppliedMigrations m (snd (ensureMigrationTable m d))) = Some applied"
      "Up m order d = up_loop m applied order (snd (getAppliedMigrations m (snd (ensureMigrationTable m d))))"
proof -
  obtain b d1 where e: "ensureMigrationTable m d = (b, d1)" by fastforce
  obtain a d2 where g: "getAppliedMigrations m d1 = (a, d2)" by fastforce
  show ?thesis
    using that e g by (cases b; cases a) (auto simp: Up_def)
qed

text \<open>A run of \<open>Up\<close> that succeeds is a run of its loop against the ids in the table.\<close>

lemma Up_loop_run:
  assumes "migrator_ok m" and "reads_ok (mdb m)" and "Up m order d = (None, d')"
  shows "up_loop m (set (ids m d)) order (snd (getAppliedMigrations m (snd (ensureMigrationTable m d)))) = (None, d')"
proof -
  let ?d1 = "snd (ensureMigrationTable m d)" and ?d2 = "snd (getAppliedMigrations m (snd (ensureMigrationTable m d)))"
  obtain applied where ap: "fst (getAppliedMigrations m ?d1) = Some applied" and loop: "up_loop m applied order ?d2 = (None, d')"
    by (cases rule: Up_cases [of m order d]) (use assms(3) in auto)
  have "applied = set (ids m ?d1)"
    using getApplied_ids [OF assms(2), of ?d1 applied ?d2] ap by (simp add: prod_eq_iff)
  then have "applied = set (ids m d)" using statements(1) [OF assms(1), of d] by (simp add: ids_def)
  with loop show ?thesis by simp
qed

lemma Up_table:
  assumes "migrator_ok m" and "reads_ok (mdb m)" and "set order = dom (migrations m)"
  shows "\<exists>did. tab m (snd (Up m order d)) = tab m d @ map (record_of m) did
     \<and> prefix did (pending m (set (ids m d)) order)
     \<and> (fst (Up m order d) = None \<longrightarrow> did = pending m (set (ids m d)) order
            \<and> dom (migrations m) \<subseteq> set (ids m (snd (Up m order d))))
     \<and> (\<forall>i. fst (Up m order d) \<in> {Some (RunFailed i), Some (RecordFailed i)} \<longrightarrow>
            prefix (did @ [i]) (pending m (set (ids m d)) order))
     \<and> (\<forall>calls. notes_calls calls m \<longrightarrow>
            calls (snd (Up m order d)) = calls d @ did @ unrecorded (fst (Up m order d)))"
proof (cases rule: Up_cases [of m order d])
  case (3 applied)
  let ?d2 = "snd (getAppliedMigrations m (snd (ensureMigrationTable m d)))"
  have t: "tab m ?d2 = tab m d" "tab m (snd (ensureMigrationTable m d)) = tab m d"
    using statements [OF assms(1)] by simp_all
  have ap: "applied = set (ids m d)"
    using getApplied_ids [OF assms(2), of "snd (ensureMigrationTable m d)" applied ?d2] 3(1) t(2)
    by (simp add: ids_def prod_eq_iff)
  obtain did where did: "tab m (snd (Up m order d)) = tab m d @ map (record_of m) did"
    "stopped_at (fst (Up m order d)) did (pending m applied order)"
    and noted: "\<forall>calls. notes_calls calls m \<longrightarrow>
      calls (snd (Up m order d)) = calls ?d2 @ did @ unrecorded (fst (Up m order d))"
    using up_loop_table [OF assms(1), of applied order ?d2] 3(2) t by auto
  have "\<forall>calls. notes_calls calls m \<longrightarrow> calls (snd (Up m order d)) = calls d @ did @ unrecorded (fst (Up m order d))"
    using noted by (simp add: notes_calls_def)
  moreover have "prefix did (pending m applied order)"
    using did(2) by (auto simp: stopped_at_def strict_prefix_def dest: append_prefixD split: option.splits mig_error.splits)
  moreover have "dom (migrations m) \<subseteq> set (ids m (snd (Up m order d)))" if "did = pending m applied order"
  proof
    fix i assume i: "i \<in> dom (migrations m)"
    then have "row_id (record_of m i) = i"
      using assms(1) by (auto simp: migrator_ok_def record_of_def mig_record_def)
    then show "i \<in> set (ids m (snd (Up m order d)))"
      using i that assms(3) ap did(1) by (cases "i \<in> applied") (force simp: pending_def ids_def)+
  qed
  moreover have "fst (Up m order d) = None \<longrightarrow> did = pending m applied order"
    using did(2) by (auto simp: stopped_at_def)
  moreover have "\<forall>i. fst (Up m order d) \<in> {Some (RunFailed i), Some (RecordFailed i)} \<longrightarrow>
      prefix (did @ [i]) (pending m applied order)"
    using did(2) by (auto simp: stopped_at_def)
  ultimately show ?thesis using did(1) unfolding ap by (intro exI [of _ did] conjI) blast+
qed (use statements [OF assms(1)] in \<open>auto simp: notes_calls_def unrecorded_def intro!: exI [of _ "[]"]\<close>)

text \<open>C4: \<open>Up\<close> records what it ran. For a database whose reads, when they succeed, give the whole table: the
  table grows by the rows of a list \<open>did\<close> of migrations that were registered and not in it, in the order
  of the map; and the \<open>Up\<close> functions that were called are exactly those of \<open>did\<close>, in that order and once
  each, followed, when the error says that a migration failed or could not be recorded, by the one that it
  names, which is the next in the order and stays unrecorded. Without an error \<open>did\<close> is all of them,
  and afterwards every registered migration is in the table.
\<close>

theorem Up_records_what_ran:
  assumes "migrator_ok m" and "reads_ok (mdb m)" and "set order = dom (migrations m)"
  shows "\<exists>did. tab m (snd (Up m order d)) = tab m d @ map (record_of m) did
     \<and> prefix did (pending m (set (ids m d)) order)
     \<and> (fst (Up m order d) = None \<longrightarrow> did = pending m (set (ids m d)) order
            \<and> dom (migrations m) \<subseteq> set (ids m (snd (Up m order d))))
     \<and> (\<forall>i. fst (Up m order d) \<in> {Some (RunFailed i), Some (RecordFailed i)} \<longrightarrow>
            prefix (did @ [i]) (pending m (set (ids m d)) order))
     \<and> (\<forall>calls. notes_calls calls m \<longrightarrow>
            calls (snd (Up m order d)) = calls d @ did @ unrecorded (fst (Up m order d)))"
  by (rule Up_table [OF assms])

text \<open>Running \<open>Up\<close> again runs nothing. After \<open>Up\<close> has succeeded, another \<open>Up\<close>, with any order of the
  map, calls no migration function and leaves the migration table as it is: its only effects on the
  database are those of creating the table if it does not exist and of reading it, and it succeeds
  when these do.
\<close>

theorem Up_again_runs_nothing:
  assumes "migrator_ok m" and "reads_ok (mdb m)" and "set order = dom (migrations m)"
    and "Up m order d = (None, d')"
  shows "tab m (snd (Up m order' d')) = tab m d'
     \<and> fst (Up m order' d') \<in> {None, Some EnsureFailed, Some GetAppliedFailed}
     \<and> snd (Up m order' d') \<in> {snd (ensureMigrationTable m d'),
                               snd (getAppliedMigrations m (snd (ensureMigrationTable m d')))}"
proof -
  have all: "dom (migrations m) \<subseteq> set (ids m d')"
    using Up_table [OF assms(1-3), of d] assms(4) by auto
  show ?thesis
  proof (cases rule: Up_cases [of m order' d'])
    case (3 applied)
    let ?d2 = "snd (getAppliedMigrations m (snd (ensureMigrationTable m d')))"
    have "applied = set (ids m d')"
      using getApplied_ids [OF assms(2), of "snd (ensureMigrationTable m d')" applied ?d2] 3(1)
        statements(1) [OF assms(1)]
      by (simp add: ids_def prod_eq_iff)
    then have "dom (migrations m) \<subseteq> applied" using all by simp
    then have "up_loop m applied ids d = (None, d)" for ids d
      by (induction ids) (auto split: option.splits)
    then show ?thesis using 3 statements [OF assms(1)] by simp
  qed (use statements [OF assms(1)] in auto)
qed

section \<open>Rolling back\<close>

lemma rollback_table:
  assumes ok: "migrator_ok m"
  shows "tab m (snd (rollback m i d)) =
     (if fst (rollback m i d) = None then filter (\<lambda>r. row_id r \<noteq> i) (tab m d) else tab m d)"
proof (cases "migrations m i")
  case (Some mg)
  show ?thesis
  proof (cases "Down_fn mg")
    case dn: (Some dn)
    obtain b d1 where d1: "dn d = (b, d1)" by fastforce
    have "keeps_table m (Down_fn mg)" using ok Some by (simp add: migrator_ok_def)
    then have t1: "tab m d1 = tab m d" using dn d1 unfolding keeps_table_def by (metis snd_conv)
    obtain c d2 where d2: "removeMigrationRecord m i d1 = (c, d2)" by fastforce
    have "tab m d2 = (if c then filter (\<lambda>r. row_id r \<noteq> i) (tab m d1) else tab m d1)"
      using statements(5) [OF ok, of i d1] d2 by simp
    then show ?thesis using Some dn d1 d2 t1 by (simp add: rollback_def split: bool.splits)
  qed (simp add: rollback_def Some)
qed (simp add: rollback_def)

text \<open>Rolling back the newest rows, newest first, leaves the older ones and a part of the newest.\<close>

lemma rollback_loop_table:
  assumes "migrator_ok m" and "tab m d = base @ rows" and "distinct (ids m d)"
  shows "\<exists>k \<le> length rows. tab m (snd (rollback_loop m (rev (map row_id rows)) d)) = base @ take k rows
           \<and> (fst (rollback_loop m (rev (map row_id rows)) d) = None \<longrightarrow> k = 0)"
  using assms(2,3)
proof (induction rows arbitrary: d rule: rev_induct)
  case (snoc r rows)
  obtain e d1 where d1: "rollback m (row_id r) d = (e, d1)" by fastforce
  show ?case
  proof (cases e)
    case None
    have "row_id r \<notin> row_id ` set (base @ rows)" using snoc.prems by (auto simp: ids_def)
    then have "filter (\<lambda>x. row_id x \<noteq> row_id r) (base @ rows) = base @ rows"
      by (intro filter_True) (metis image_eqI)
    then have t: "tab m d1 = base @ rows"
      using rollback_table [OF assms(1), of "row_id r" d] d1 None snoc.prems(1) by simp
    moreover have "distinct (ids m d1)" using snoc.prems t by (simp add: ids_def)
    ultimately obtain k where k: "k \<le> length rows"
      "tab m (snd (rollback_loop m (rev (map row_id rows)) d1)) = base @ take k rows"
      "fst (rollback_loop m (rev (map row_id rows)) d1) = None \<longrightarrow> k = 0"
      using snoc.IH by blast
    then show ?thesis using d1 None by (intro exI [of _ k]) simp
  next
    case (Some x)
    then have "tab m d1 = tab m d" using rollback_table [OF assms(1), of "row_id r" d] d1 by simp
    then show ?thesis using d1 Some snoc.prems(1)
      by (intro exI [of _ "Suc (length rows)"]) simp
  qed
qed simp

lemma scan_to_rows:
  "scan_to t (map Some xs) = Some (takeWhile (\<lambda>x. x \<noteq> t) xs, t \<in> set xs)"
  by (induction xs) auto

lemma select_desc_rows:
  "reads_ok (mdb m) \<Longrightarrow> select_desc (mdb m) (tableName m) d = (Some rs, d') \<Longrightarrow> rs = map Some (rev (ids m d))"
  unfolding reads_ok_def ids_def tab_def by (metis fst_conv map_map rev_map)

text \<open>C12: \<open>DownTo\<close> keeps the target. With the table in order of application, and reads that give the whole
  table or fail as a query (no row that cannot be scanned), \<open>DownTo target\<close> succeeds only if the
  target is in the table, and then removes exactly the rows that are newer; whichever other step fails, the
  rows that are left are the older ones, the target, and the older part of the newer ones, so no
  row is removed before a newer one. A target that is not in the table changes no row.
\<close>

theorem DownTo_keeps_target:
  assumes "migrator_ok m" and "reads_ok (mdb m)" and "distinct (ids m d)"
  shows "(target \<notin> set (ids m d) \<longrightarrow> fst (DownTo m target d) \<noteq> None \<and> tab m (snd (DownTo m target d)) = tab m d)
     \<and> (\<forall>older r newer. tab m d = older @ r # newer \<and> row_id r = target \<longrightarrow>
          (\<exists>k \<le> length newer. tab m (snd (DownTo m target d)) = older @ r # take k newer
             \<and> (fst (DownTo m target d) = None \<longrightarrow> k = 0)))"
proof -
  obtain b d1 where e: "ensureMigrationTable m d = (b, d1)" by fastforce
  obtain q d2 where q: "select_desc (mdb m) (tableName m) d1 = (q, d2)" by fastforce
  have t1: "tab m d1 = tab m d" using statements(1) [OF assms(1), of d] e by simp
  have t2: "tab m d2 = tab m d" using statements(3) [OF assms(1), of d1] q t1 by simp
  consider "\<not> b \<or> q = None" | rs where "b" "q = Some rs" by (cases q) auto
  then show ?thesis
  proof cases
    case 1
    then have "fst (DownTo m target d) \<noteq> None \<and> tab m (snd (DownTo m target d)) = tab m d"
      using e q t1 t2 by (cases b) (auto simp: DownTo_def)
    then show ?thesis by (metis order_refl take_all)
  next
    case (2 rs)
    have rs: "rs = map Some (rev (ids m d))"
      using select_desc_rows [OF assms(2), of d1 rs d2] q 2 t1 by (simp add: ids_def)
    have "fst (DownTo m target d) \<noteq> None \<and> tab m (snd (DownTo m target d)) = tab m d"
      if "target \<notin> set (ids m d)"
      using e q 2 rs that t2 by (simp add: DownTo_def scan_to_rows)
    moreover have "\<exists>k \<le> length newer. tab m (snd (DownTo m target d)) = older @ r # take k newer
             \<and> (fst (DownTo m target d) = None \<longrightarrow> k = 0)"
      if t: "tab m d = older @ r # newer" and r: "row_id r = target" for older r newer
    proof -
      have "target \<notin> row_id ` set newer" using assms(3) t r by (auto simp: ids_def)
      then have "takeWhile (\<lambda>x. x \<noteq> target) (rev (ids m d)) = rev (map row_id newer)"
        using r by (simp add: ids_def t) (subst takeWhile_append2, auto simp: image_iff)
      moreover have "target \<in> set (ids m d)" using t r by (simp add: ids_def)
      ultimately have "scan_to target rs = Some (rev (map row_id newer), True)"
        by (simp only: rs scan_to_rows set_rev)
      then have D: "DownTo m target d = rollback_loop m (rev (map row_id newer)) d2"
        using e q 2 by (simp add: DownTo_def)
      have "tab m d2 = (older @ [r]) @ newer" "distinct (ids m d2)"
        using t2 t assms(3) by (simp_all add: ids_def)
      from rollback_loop_table [OF assms(1) this] show ?thesis unfolding D by simp
    qed
    ultimately show ?thesis by blast
  qed
qed

section \<open>Reset undoes Up\<close>

text \<open>
  A view of the database that the migrator's own statements do not change (the tables that the
  migrations make), and migrations whose \<open>Down\<close>, when it succeeds, undoes what \<open>Up\<close> did to it.
\<close>

definition view_ok :: "('d \<Rightarrow> 'u) \<Rightarrow> 'd migrator \<Rightarrow> bool" where
  "view_ok view m \<longleftrightarrow> (\<forall>d.
     view (snd (ensureMigrationTable m d)) = view d
   \<and> view (snd (getAppliedMigrations m d)) = view d
   \<and> view (snd (select_desc (mdb m) (tableName m) d)) = view d
   \<and> (\<forall>mg. view (snd (recordMigration m mg d)) = view d)
   \<and> (\<forall>i. view (snd (removeMigrationRecord m i d)) = view d))"

definition undoes :: "('d \<Rightarrow> 'u) \<Rightarrow> 'd migration \<Rightarrow> bool" where
  "undoes view mg \<longleftrightarrow> (\<forall>up down x y. Up_fn mg = Some up \<longrightarrow> Down_fn mg = Some down \<longrightarrow>
     view y = view (snd (up x)) \<longrightarrow> fst (up x) \<longrightarrow> fst (down y) \<longrightarrow> view (snd (down y)) = view x)"

lemma rollback_loop_append:
  "rollback_loop m (xs @ ys) d = (case rollback_loop m xs d of
     (Some e, d1) \<Rightarrow> (Some e, d1) | (None, d1) \<Rightarrow> rollback_loop m ys d1)"
  by (induction xs arbitrary: d) (auto split: prod.splits option.splits)

lemma rollback_view:
  assumes "view_ok view m" and "migrations m i = Some mg" and "undoes view mg"
    and "Up_fn mg = Some up" and "fst (up x)" and "view z = view (snd (up x))"
    and "rollback m i z = (None, z')"
  shows "view z' = view x"
proof -
  obtain down d1 where d: "Down_fn mg = Some down" "down z = (True, d1)"
    "snd (removeMigrationRecord m i d1) = z'"
    using assms(2,7) by (auto simp: rollback_def split: option.splits prod.splits bool.splits)
  have "view d1 = view x"
    using assms(3-6) d unfolding undoes_def by (metis fst_conv snd_conv)
  then show ?thesis using assms(1) d(3) unfolding view_ok_def by metis
qed

lemma rollback_undoes_up_loop:
  assumes v: "view_ok view m" and u: "\<And>i mg. migrations m i = Some mg \<Longrightarrow> undoes view mg"
    and "up_loop m applied order d = (None, d')" and "view z = view d'"
    and "rollback_loop m (rev (pending m applied order)) z = (None, z')"
  shows "view z' = view d"
  using assms(3-)
proof (induction order arbitrary: d z')
  case Nil
  then show ?case by (simp add: pending_def)
next
  case (Cons i order)
  show ?case
  proof (cases "i \<in> dom (migrations m) \<and> i \<notin> applied")
    case False
    then have "up_loop m applied order d = (None, d')" using Cons.prems(1) by (auto split: option.splits)
    then show ?thesis using Cons.IH [of d z'] Cons.prems False by (simp add: pending_Cons split: if_splits)
  next
    case True
    then obtain mg up d1 d2 where mg: "migrations m i = Some mg" and up: "Up_fn mg = Some up" "up d = (True, d1)"
      and d2: "recordMigration m mg d1 = (True, d2)" and rest: "up_loop m applied order d2 = (None, d')"
      using Cons.prems(1) by (auto split: option.splits prod.splits bool.splits)
    have "view d2 = view d1" using v d2 unfolding view_ok_def by (metis snd_conv)
    have "rollback_loop m (rev (pending m applied order) @ [i]) z = (None, z')"
      using Cons.prems(3) True by (simp add: pending_Cons)
    then obtain z1 where z1: "rollback_loop m (rev (pending m applied order)) z = (None, z1)"
      and z': "rollback_loop m [i] z1 = (None, z')"
      by (auto simp: rollback_loop_append split: prod.splits option.splits)
    have "view z1 = view (snd (up d))"
      using Cons.IH [OF rest Cons.prems(2) z1] \<open>view d2 = view d1\<close> up by simp
    moreover have "rollback m i z1 = (None, z')"
      using z' by (auto split: prod.splits option.splits)
    ultimately show ?thesis
      using rollback_view [OF v mg u [OF mg] up(1), of d z1 z'] up(2) by simp
  qed
qed

lemma Reset_None:
  assumes "migrator_ok m" and "reads_ok (mdb m)" and "Reset m d = (None, d')"
  obtains z where "rollback_loop m (rev (ids m d)) z = (None, d')" "tab m z = tab m d"
    "z = snd (select_desc (mdb m) (tableName m) (snd (ensureMigrationTable m d)))"
proof -
  let ?d1 = "snd (ensureMigrationTable m d)"
  obtain q d2 where q: "select_desc (mdb m) (tableName m) ?d1 = (q, d2)" by fastforce
  obtain rs where rs: "q = Some rs" and r: "scan_rows rs \<noteq> None"
    using assms(3) q by (auto simp: Reset_def split: prod.splits option.splits bool.splits)
  have t: "tab m ?d1 = tab m d" "tab m d2 = tab m d"
    using statements [OF assms(1)] q by (metis snd_conv)+
  have "rs = map Some (rev (ids m d))"
    using select_desc_rows [OF assms(2), of ?d1 rs d2] q rs t(1) by (simp add: ids_def)
  then have "rollback_loop m (rev (ids m d)) d2 = (None, d')"
    using assms(3) q rs by (auto simp: Reset_def scan_rows_Some split: prod.splits bool.splits)
  then show ?thesis using that t(2) q by simp
qed

text \<open>C23: \<open>Reset\<close> undoes \<open>Up\<close>. When the migrations are invertible and an \<open>Up\<close> on a database with an empty
  migration table and a following \<open>Reset\<close> both succeed, the tables of the user are as they were
  before, whatever the order of the map was, and the migration table is empty.
\<close>

theorem Reset_undoes_Up:
  assumes "migrator_ok m" and "reads_ok (mdb m)" and "view_ok view m"
    and "\<And>i mg. migrations m i = Some mg \<Longrightarrow> undoes view mg"
    and "set order = dom (migrations m)" and "distinct order"
    and "tab m d = []" and "Up m order d = (None, d1)" and "Reset m d1 = (None, d2)"
  shows "view d2 = view d \<and> tab m d2 = []"
proof -
  have p: "pending m {} order = order" using assms(5) by (simp add: pending_def)
  have "Up m order d = (None, d1) \<Longrightarrow> tab m d1 = map (record_of m) order"
    using Up_table [OF assms(1,2,5), of d] assms(7) p by (auto simp: ids_def)
  then have t1: "tab m d1 = map (record_of m) order" using assms(8) by simp
  moreover have "row_id (record_of m i) = i" if "i \<in> set order" for i
    using that assms(1,5) by (auto simp: migrator_ok_def record_of_def mig_record_def)
  ultimately have i1: "ids m d1 = order" by (simp add: ids_def map_idI)
  obtain z where z: "rollback_loop m (rev order) z = (None, d2)" "tab m z = tab m d1"
    and z_eq: "z = snd (select_desc (mdb m) (tableName m) (snd (ensureMigrationTable m d1)))"
    using Reset_None [OF assms(1,2,9)] i1 by metis
  have "view z = view d1" using assms(3) unfolding z_eq view_ok_def by metis
  have "view d2 = view d"
  proof (cases rule: Up_cases [of m order d])
    case (3 applied)
    let ?d0 = "snd (getAppliedMigrations m (snd (ensureMigrationTable m d)))"
    have "applied = {}"
      using getApplied_ids [OF assms(2), of "snd (ensureMigrationTable m d)" applied ?d0] 3(1)
        statements(1) [OF assms(1), of d] assms(7)
      by (simp add: ids_def prod_eq_iff)
    then have "up_loop m {} order ?d0 = (None, d1)" using 3(2) assms(8) by simp
    from rollback_undoes_up_loop [OF assms(3,4) this \<open>view z = view d1\<close>] z(1) p
    have "view d2 = view ?d0" by simp
    then show ?thesis using assms(3) unfolding view_ok_def by metis
  qed (use assms(8) in simp_all)
  moreover have "tab m d2 = []"
  proof -
    have "tab m z = [] @ map (record_of m) order" "distinct (ids m z)"
      using z(2) t1 i1 assms(6) by (simp_all add: ids_def)
    from rollback_loop_table [OF assms(1) this] z(1) i1 t1 show ?thesis by (auto simp: ids_def)
  qed
  ultimately show ?thesis by simp
qed

section \<open>A database\<close>

text \<open>A database with one migration table and a number as the tables of the user.\<close>

type_synonym small = "mig_row list \<times> int"

definition row_db :: "(mig_row list \<times> 'x) database" where
  "row_db = \<lparr>ensure_table = (\<lambda>t d. (True, d)),
     select_ids = (\<lambda>t d. (Some (map (\<lambda>r. Some (row_id r)) (fst d)), d)),
     select_desc = (\<lambda>t d. (Some (map (\<lambda>r. Some (row_id r)) (rev (fst d))), d)),
     select_rows = (\<lambda>t d. (Some (map Some (fst d)), d)),
     insert_row = (\<lambda>t r d. if row_id r \<in> row_id ` set (fst d) then (False, d) else (True, (fst d @ [r], snd d))),
     delete_row = (\<lambda>t i d. (True, (filter (\<lambda>r. row_id r \<noteq> i) (fst d), snd d))),
     rows_of = (\<lambda>t d. fst d)\<rparr>"

lemma row_db_ok: "db_ok row_db" "reads_ok row_db"
  by (auto simp: db_ok_def reads_ok_def row_db_def rev_map comp_def)

definition small_db :: "small database" where
  "small_db = row_db"

lemma small_db_ok: "db_ok small_db" "reads_ok small_db"
  by (simp_all add: small_db_def row_db_ok)

definition small_migrator :: "small database \<Rightarrow> small migrator" where
  "small_migrator db =
     AddFunc ''b'' ''double'' (Some (\<lambda>d. (True, (fst d, 2 * snd d)))) (Some (\<lambda>d. (True, (fst d, snd d div 2))))
     (AddFunc ''a'' ''add'' (Some (\<lambda>d. (True, (fst d, snd d + 1)))) (Some (\<lambda>d. (True, (fst d, snd d - 1))))
     (NewMigrator db ''''))"

lemma small_migrator_fields:
  "mdb (small_migrator db) = db" "dom (migrations (small_migrator db)) = {''a'', ''b''}"
  "tab (small_migrator small_db) d = fst d"
  by (auto simp: small_migrator_def AddFunc_def Add_def NewMigrator_def tab_def small_db_def row_db_def split: if_splits)

lemma small_migrator_ok: "migrator_ok (small_migrator small_db)"
  using small_db_ok(1) unfolding migrator_ok_def keeps_table_def small_migrator_fields
  by (auto simp: small_migrator_def AddFunc_def Add_def NewMigrator_def split: if_splits)

lemmas small_eval = small_migrator_def AddFunc_def Add_def NewMigrator_def small_db_def row_db_def Up_def Reset_def DownTo_def
  ensureMigrationTable_def getAppliedMigrations_def recordMigration_def removeMigrationRecord_def mig_record_def
  rollback_def

lemma small_Up:
  "Up (small_migrator small_db) [''a'', ''b''] ([], 5)
     = (None, ([\<lparr>row_id = ''a'', row_comment = ''add''\<rparr>, \<lparr>row_id = ''b'', row_comment = ''double''\<rparr>], 12))"
  by (simp add: small_eval)

lemma small_Reset:
  "Reset (small_migrator small_db) ([\<lparr>row_id = ''a'', row_comment = ''add''\<rparr>, \<lparr>row_id = ''b'', row_comment = ''double''\<rparr>], 12)
     = (None, ([], 5))"
  by (simp add: small_eval)

text \<open>Two migrations that note their calls, the second of which fails.\<close>

definition noting_migrator :: "(mig_row list \<times> string list) migrator" where
  "noting_migrator =
     AddFunc ''b'' ''second'' (Some (\<lambda>d. (False, (fst d, snd d @ [''b''])))) None
     (AddFunc ''a'' ''first'' (Some (\<lambda>d. (True, (fst d, snd d @ [''a''])))) None
     (NewMigrator row_db ''''))"

lemma noting_fields:
  "mdb noting_migrator = row_db" "dom (migrations noting_migrator) = {''a'', ''b''}" "tab noting_migrator d = fst d"
  by (auto simp: noting_migrator_def AddFunc_def Add_def NewMigrator_def tab_def row_db_def split: if_splits)

lemma noting_ok: "migrator_ok noting_migrator" "notes_calls snd noting_migrator"
  using row_db_ok(1) unfolding migrator_ok_def keeps_table_def noting_fields notes_calls_def
  by (auto simp: noting_migrator_def AddFunc_def Add_def NewMigrator_def ensureMigrationTable_def
      getAppliedMigrations_def recordMigration_def row_db_def split: if_splits)

theorem Up_records_what_ran_witness:
  "\<exists>did. fst (snd (Up noting_migrator [''a'', ''b''] ([], []))) = map (record_of noting_migrator) did
     \<and> snd (snd (Up noting_migrator [''a'', ''b''] ([], []))) = did @ [''b'']"
proof -
  have "set [''a'', ''b''] = dom (migrations noting_migrator)" by (simp add: noting_fields)
  moreover have "fst (Up noting_migrator [''a'', ''b''] ([], [])) = Some (RunFailed ''b'')"
    by (simp add: noting_migrator_def small_eval)
  ultimately obtain did where did:
    "tab noting_migrator (snd (Up noting_migrator [''a'', ''b''] ([], []))) = map (record_of noting_migrator) did"
    "\<forall>calls. notes_calls calls noting_migrator \<longrightarrow>
       calls (snd (Up noting_migrator [''a'', ''b''] ([], []))) = calls ([], []) @ did @ [''b'']"
    using Up_records_what_ran [OF noting_ok(1), of "[''a'', ''b'']" "([], [])"] row_db_ok(2)
    by (auto simp: noting_fields unrecorded_def)
  have "snd (snd (Up noting_migrator [''a'', ''b''] ([], []))) = did @ [''b'']"
    using did(2) [rule_format, OF noting_ok(2)] by simp
  with did(1) show ?thesis by (intro exI [of _ did]) (simp add: noting_fields)
qed

theorem Up_again_runs_nothing_witness:
  "snd (snd (Up (small_migrator small_db) [''b'', ''a''] (snd (Up (small_migrator small_db) [''a'', ''b''] ([], 5))))) = 12"
proof -
  have "set [''a'', ''b''] = dom (migrations (small_migrator small_db))" by (simp add: small_migrator_fields)
  moreover have "snd (ensureMigrationTable (small_migrator small_db) d) = d"
    "snd (getAppliedMigrations (small_migrator small_db) d) = d" for d
    by (simp_all add: ensureMigrationTable_def getAppliedMigrations_def small_migrator_fields(1) small_db_def row_db_def)
  ultimately show ?thesis
    using Up_again_runs_nothing [OF small_migrator_ok _ _ small_Up, of "[''b'', ''a'']"] small_db_ok(2)
    by (simp add: small_migrator_fields small_Up)
qed

theorem DownTo_keeps_target_witness:
  "\<exists>k \<le> 1. tab (small_migrator small_db) (snd (DownTo (small_migrator small_db) ''a''
       ([\<lparr>row_id = ''a'', row_comment = ''add''\<rparr>, \<lparr>row_id = ''b'', row_comment = ''double''\<rparr>], 12)))
     = \<lparr>row_id = ''a'', row_comment = ''add''\<rparr> # take k [\<lparr>row_id = ''b'', row_comment = ''double''\<rparr>]"
proof -
  let ?d = "([\<lparr>row_id = ''a'', row_comment = ''add''\<rparr>, \<lparr>row_id = ''b'', row_comment = ''double''\<rparr>], 12) :: small"
  have "distinct (ids (small_migrator small_db) ?d)" by (simp add: ids_def small_migrator_fields)
  from DownTo_keeps_target [OF small_migrator_ok _ this, of "''a''"] small_db_ok(2)
  have "\<forall>older r newer. tab (small_migrator small_db) ?d = older @ r # newer \<and> row_id r = ''a'' \<longrightarrow>
          (\<exists>k \<le> length newer. tab (small_migrator small_db) (snd (DownTo (small_migrator small_db) ''a'' ?d)) = older @ r # take k newer)"
    by (auto simp: small_migrator_fields)
  then show ?thesis
    by (auto simp: small_migrator_fields dest!: spec [of _ "[]"])
qed

theorem Reset_undoes_Up_witness:
  "snd (snd (Reset (small_migrator small_db) (snd (Up (small_migrator small_db) [''a'', ''b''] ([], 5))))) = 5"
proof -
  have v: "view_ok snd (small_migrator small_db)"
    by (simp add: view_ok_def small_migrator_fields(1) ensureMigrationTable_def getAppliedMigrations_def
        recordMigration_def removeMigrationRecord_def small_db_def row_db_def)
  have u: "undoes snd mg" if "migrations (small_migrator small_db) i = Some mg" for i mg
    using that by (auto simp: undoes_def small_migrator_def AddFunc_def Add_def NewMigrator_def split: if_splits)
  have s: "set [''a'', ''b''] = dom (migrations (small_migrator small_db))" by (simp add: small_migrator_fields)
  have t: "tab (small_migrator small_db) ([], 5) = []" by (simp add: small_migrator_fields)
  have r: "reads_ok (mdb (small_migrator small_db))" using small_db_ok(2) by (simp add: small_migrator_fields)
  let ?d1 = "snd (Up (small_migrator small_db) [''a'', ''b''] ([], 5))"
  let ?d2 = "snd (Reset (small_migrator small_db) ?d1)"
  have "Up (small_migrator small_db) [''a'', ''b''] ([], 5) = (None, ?d1)"
    "Reset (small_migrator small_db) ?d1 = (None, ?d2)"
    by (simp_all add: small_Up small_Reset)
  from Reset_undoes_Up [OF small_migrator_ok r v u s _ t this] show ?thesis by simp
qed

text \<open>The same database on a connection that breaks before the first row of a query is read.\<close>

definition broken_db :: "small database" where
  "broken_db = small_db\<lparr>select_ids := \<lambda>t d. (Some [], d)\<rparr>"

text \<open>A read that is cut short makes \<open>Up\<close> run an applied migration again. \<open>getAppliedMigrations\<close> does not
  ask \<open>rows.Err\<close>, so on a database whose statements work but whose rows cannot be read to the
  end, \<open>Up\<close> with migration \<open>a\<close> recorded in the table calls its up function a second time, and only
  then fails, on recording it; the change it made stays.
\<close>

theorem cut_read_reruns_migration:
  "db_ok broken_db \<and> \<not> reads_ok broken_db
   \<and> Up (small_migrator broken_db) [''a'', ''b''] ([\<lparr>row_id = ''a'', row_comment = ''add''\<rparr>], 5)
       = (Some (RecordFailed ''a''), ([\<lparr>row_id = ''a'', row_comment = ''add''\<rparr>], 6))"
proof -
  have "\<not> reads_ok broken_db"
  proof
    assume "reads_ok broken_db"
    then have "set [] = Some ` row_id ` set (rows_of broken_db '''' ([\<lparr>row_id = ''a'', row_comment = ''add''\<rparr>], 0))"
      unfolding reads_ok_def by (auto simp: broken_db_def small_db_def row_db_def)
    then show False by (simp add: broken_db_def small_db_def row_db_def)
  qed
  moreover have "db_ok broken_db" by (auto simp: db_ok_def broken_db_def small_db_def row_db_def)
  moreover have "Up (small_migrator broken_db) [''a'', ''b''] ([\<lparr>row_id = ''a'', row_comment = ''add''\<rparr>], 5)
       = (Some (RecordFailed ''a''), ([\<lparr>row_id = ''a'', row_comment = ''add''\<rparr>], 6))"
    by (simp add: small_eval broken_db_def)
  ultimately show ?thesis by blast
qed

text \<open>
  The outcome of \<open>Up\<close> depends on the order of a Go map: with the two migrations of the example pending,
  the order that \<open>range\<close> happens to give decides between two different schemas.
\<close>

theorem Up_depends_on_map_order:
  "snd (snd (Up (small_migrator small_db) [''a'', ''b''] ([], 5))) = 12
   \<and> snd (snd (Up (small_migrator small_db) [''b'', ''a''] ([], 5))) = 11"
  by (simp add: small_eval)

end
