(* ===== verification/Migrate_Props.thy ===== *)
theory Migrate_Props
  imports Migrate_Model Migrator_Props
begin

text \<open>
  What automatic migrations do to the schema: creating and extending the table of a model, all the
  tables of an auto-migrator through the migrator's \<open>Up\<close>, and what the version control leaves out.
\<close>

section \<open>The schema statements\<close>

text \<open>A name that a quoted identifier can hold: without quotes, and not longer than PostgreSQL keeps.\<close>

definition ident :: "string \<Rightarrow> bool" where
  "ident s \<longleftrightarrow> s \<noteq> [] \<and> length s \<le> 63 \<and> CHR 0x22 \<notin> set s"

text \<open>
  Text of a column type: commas only inside parentheses, which are balanced, where the characters between single
  quotes do not count; no semicolon, double quote or backslash, and none of the other ways to begin a
  comment or a string (slash, dollar sign, line end).
\<close>

fun commas_nested :: "bool \<Rightarrow> nat \<Rightarrow> string \<Rightarrow> bool" where
  "commas_nested q n [] = (\<not> q \<and> n = 0)"
| "commas_nested q n (c # cs) =
     (if c = CHR '';'' \<or> c = CHR 0x22 \<or> c = CHR 0x5C then False
      else if c = CHR 0x27 then commas_nested (\<not> q) n cs
      else if q then commas_nested q n cs
      else if c = CHR ''('' then commas_nested q (n + 1) cs
      else if c = CHR '')'' then 0 < n \<and> commas_nested q (n - 1) cs
      else if c = CHR '','' then 0 < n \<and> commas_nested q n cs
      else c \<noteq> CHR ''/'' \<and> c \<noteq> CHR ''$'' \<and> c \<noteq> CHR 0x0A \<and> c \<noteq> CHR 0x0D \<and> commas_nested q n cs)"

definition type_text :: "string \<Rightarrow> bool" where
  "type_text ty \<longleftrightarrow> commas_nested False 0 ty"

text \<open>
  What PostgreSQL documents of the statements, for quoted names and such types: the query reads the
  columns and changes nothing; adding a column adds it or fails and changes nothing; a \<open>CREATE TABLE
  IF NOT EXISTS\<close> of one statement takes no column away and concerns its own table only.
\<close>

definition ddl_ok :: "'d ddl \<Rightarrow> bool" where
  "ddl_ok db \<longleftrightarrow> (\<forall>t d.
     (\<forall>t'. columns_of db t' (snd (select_columns db t d)) = columns_of db t' d)
   \<and> (\<forall>xs. fst (select_columns db t d) = Some xs \<longrightarrow> set xs = Some ` columns_of db t d)
   \<and> (\<forall>c ty t'. ident t \<longrightarrow> ident c \<longrightarrow> type_text ty \<longrightarrow>
        columns_of db t' (snd (exec_sql db (add_column_sql t c ty) d)) =
          (if fst (exec_sql db (add_column_sql t c ty) d) \<and> t' = t then insert c (columns_of db t d) else columns_of db t' d))
   \<and> (\<forall>cs t'. ident t \<longrightarrow> (\<forall>s \<in> set cs. CHR '';'' \<notin> set s) \<longrightarrow>
        columns_of db t' d \<subseteq> columns_of db t' (snd (exec_sql db (create_sql t cs) d))
        \<and> (t' \<noteq> t \<longrightarrow> columns_of db t' (snd (exec_sql db (create_sql t cs) d)) = columns_of db t' d)))"

lemma ddl_laws:
  assumes "ddl_ok db"
  shows "columns_of db t' (snd (select_columns db t d)) = columns_of db t' d"
    and "fst (select_columns db t d) = Some xs \<Longrightarrow> set xs = Some ` columns_of db t d"
    and "ident t \<Longrightarrow> ident c \<Longrightarrow> type_text ty \<Longrightarrow>
        columns_of db t' (snd (exec_sql db (add_column_sql t c ty) d)) =
          (if fst (exec_sql db (add_column_sql t c ty) d) \<and> t' = t then insert c (columns_of db t d) else columns_of db t' d)"
    and "ident t \<Longrightarrow> (\<forall>s \<in> set cs. CHR '';'' \<notin> set s) \<Longrightarrow>
        columns_of db t' d \<subseteq> columns_of db t' (snd (exec_sql db (create_sql t cs) d))"
    and "ident t \<Longrightarrow> (\<forall>s \<in> set cs. CHR '';'' \<notin> set s) \<Longrightarrow> t' \<noteq> t \<Longrightarrow>
        columns_of db t' (snd (exec_sql db (create_sql t cs) d)) = columns_of db t' d"
  using assms unfolding ddl_ok_def by blast+

definition model_plain :: "string \<Rightarrow> field list \<Rightarrow> (string \<rightharpoonup> string) \<Rightarrow> bool" where
  "model_plain t flds extracols \<longleftrightarrow> ident t
     \<and> (\<forall>c ty. expectedColumns flds extracols c = Some ty \<longrightarrow> ident c \<and> type_text ty)
     \<and> (\<forall>f \<in> set flds. \<forall>s \<in> set (column_sql f). CHR '';'' \<notin> set s)"

text \<open>Only the table \<open>t\<close> changes, and it loses no column.\<close>

definition extends_table :: "'d ddl \<Rightarrow> string \<Rightarrow> 'd \<Rightarrow> 'd \<Rightarrow> bool" where
  "extends_table db t d d' \<longleftrightarrow> columns_of db t d \<subseteq> columns_of db t d'
     \<and> (\<forall>t'. t' \<noteq> t \<longrightarrow> columns_of db t' d' = columns_of db t' d)"

lemma extends_table_refl: "extends_table db t d d"
  by (simp add: extends_table_def)

lemma extends_table_trans: "extends_table db t d1 d2 \<Longrightarrow> extends_table db t d2 d3 \<Longrightarrow> extends_table db t d1 d3"
  by (auto simp: extends_table_def)

lemma add_loop_columns:
  assumes ok: "ddl_ok db" and t: "ident t"
    and cols: "\<And>c ty. expected c = Some ty \<Longrightarrow> ident c \<and> type_text ty"
  shows "extends_table db t d (snd (add_loop db t expected existing order d))
    \<and> (fst (add_loop db t expected existing order d) = None \<longrightarrow>
         dom expected \<inter> set order - existing \<subseteq> columns_of db t (snd (add_loop db t expected existing order d)))"
proof (induction order arbitrary: d)
  case Nil
  show ?case by (simp add: extends_table_refl)
next
  case (Cons c cs)
  show ?case
  proof (cases "expected c")
    case None
    then show ?thesis using Cons [of d] by auto
  next
    case (Some ty)
    show ?thesis
    proof (cases "c \<in> existing")
      case True
      then show ?thesis using Cons [of d] Some by auto
    next
      case False
      obtain b d' where e: "exec_sql db (add_column_sql t c ty) d = (b, d')" by fastforce
      have step: "columns_of db t' d' = (if b \<and> t' = t then insert c (columns_of db t d) else columns_of db t' d)" for t'
        using ddl_laws(3) [OF ok t, of c ty t' d] cols [OF Some] e by simp
      then have x: "extends_table db t d d'" by (auto simp: extends_table_def)
      show ?thesis
      proof (cases b)
        case True
        have "c \<in> columns_of db t (snd (add_loop db t expected existing cs d'))"
          using Cons [of d'] step [of t] True by (auto simp: extends_table_def)
        then show ?thesis using Cons [of d'] extends_table_trans [OF x] True e Some False by auto
      qed (use e Some False x in simp)
    qed
  qed
qed

lemma getExistingColumns_result:
  assumes "ddl_ok db"
  shows "snd (getExistingColumns db t d) = snd (select_columns db t d)"
    and "fst (getExistingColumns db t d) = Inr existing \<Longrightarrow> existing = columns_of db t d"
proof -
  show "snd (getExistingColumns db t d) = snd (select_columns db t d)"
    by (simp add: getExistingColumns_def split: prod.splits option.splits)
  assume "fst (getExistingColumns db t d) = Inr existing"
  then obtain cs where "fst (select_columns db t d) = Some (map Some cs)" "existing = set cs"
    by (auto simp: getExistingColumns_def scan_rows_eq split: prod.splits option.splits)
  then have "Some ` existing = Some ` columns_of db t d" using ddl_laws(2) [OF assms, of t d "map Some cs"] by simp
  then show "existing = columns_of db t d" by (simp add: inj_image_eq_iff)
qed

lemma addMissing_columns:
  assumes ok: "ddl_ok db" and plain: "model_plain t flds extracols"
    and order: "dom (expectedColumns flds extracols) \<subseteq> set order"
  shows "extends_table db t d (snd (addMissingColumns db order t flds extracols d))
    \<and> (fst (addMissingColumns db order t flds extracols d) = None \<longrightarrow>
         dom (expectedColumns flds extracols) \<subseteq> columns_of db t (snd (addMissingColumns db order t flds extracols d)))"
proof -
  obtain r d' where g: "getExistingColumns db t d = (r, d')" by fastforce
  have d': "columns_of db t' d' = columns_of db t' d" for t'
    using getExistingColumns_result(1) [OF ok, of t d] ddl_laws(1) [OF ok] g by simp
  then have x: "extends_table db t d d'" by (simp add: extends_table_def)
  show ?thesis
  proof (cases r)
    case (Inl e)
    then show ?thesis using g x by (simp add: addMissingColumns_def)
  next
    case (Inr existing)
    then have ex: "existing = columns_of db t d'" using getExistingColumns_result(2) [OF ok] g d' by simp
    have "ident t" "\<And>c ty. expectedColumns flds extracols c = Some ty \<Longrightarrow> ident c \<and> type_text ty"
      using plain by (simp_all add: model_plain_def)
    from add_loop_columns [OF ok this, where d = d' and existing = existing and order = order]
    have l: "extends_table db t d' (snd (addMissingColumns db order t flds extracols d))"
      "fst (addMissingColumns db order t flds extracols d) = None \<Longrightarrow>
         dom (expectedColumns flds extracols) \<inter> set order - existing
           \<subseteq> columns_of db t (snd (addMissingColumns db order t flds extracols d))"
      using g Inr by (simp_all add: addMissingColumns_def)
    have "existing \<subseteq> columns_of db t (snd (addMissingColumns db order t flds extracols d))"
      using l(1) ex unfolding extends_table_def by blast
    then show ?thesis using l order extends_table_trans [OF x] by blast
  qed
qed

lemma createTable_extends:
  assumes "ddl_ok db" and "model_plain t flds extracols"
  shows "extends_table db t d (snd (createTableIfNotExists db t flds d))"
proof -
  have "ident t" "\<forall>s \<in> set (concat (map column_sql flds)). CHR '';'' \<notin> set s"
    using assms(2) by (auto simp: model_plain_def)
  note laws = ddl_laws(4) [OF assms(1) this, of _ d] ddl_laws(5) [OF assms(1) this, of _ d]
  have "extends_table db t d (snd (exec_sql db (create_sql t (concat (map column_sql flds))) d))"
    unfolding extends_table_def using laws by blast
  then show ?thesis
    by (simp add: createTableIfNotExists_def Let_def extends_table_refl split: prod.splits) (metis snd_conv)
qed

lemma createTableAndColumns_columns:
  assumes "ddl_ok db" and "model_plain t flds extracols" and "dom (expectedColumns flds extracols) \<subseteq> set order"
  shows "extends_table db t d (snd (createTableAndColumns db order t flds extracols d))
    \<and> (fst (createTableAndColumns db order t flds extracols d) = None \<longrightarrow>
         dom (expectedColumns flds extracols) \<subseteq> columns_of db t (snd (createTableAndColumns db order t flds extracols d)))"
proof -
  obtain r d' where c: "createTableIfNotExists db t flds d = (r, d')" by fastforce
  have x: "extends_table db t d d'" using createTable_extends [OF assms(1,2), of d] c by simp
  show ?thesis using addMissing_columns [OF assms, of d'] extends_table_trans [OF x] x c
    by (cases r) (auto simp: createTableAndColumns_def)
qed

text \<open>When the migration of a model succeeds, its table has every column that the model and the extra
  columns ask for, whatever columns it had before and in whatever order the map of columns is
  walked. No column of the table is lost and no other table is touched, even when a statement fails in
  the middle. On a table that has the columns already, no statement is sent after the query.
\<close>

theorem createTableAndColumns_completes:
  assumes "ddl_ok db" and "model_plain t flds extracols" and "dom (expectedColumns flds extracols) \<subseteq> set order"
    and "createTableAndColumns db order t flds extracols d = (e, d')"
  shows "extends_table db t d d' \<and> (e = None \<longrightarrow> dom (expectedColumns flds extracols) \<subseteq> columns_of db t d')
    \<and> (dom (expectedColumns flds extracols) \<subseteq> columns_of db t d \<longrightarrow>
         snd (addMissingColumns db order t flds extracols d) = snd (select_columns db t d))"
proof -
  have "add_loop db t expected existing order d1 = (None, d1)" if "dom expected \<subseteq> existing" for expected existing d1
    using that by (induction order) (auto split: option.splits)
  then have "snd (addMissingColumns db order t flds extracols d) = snd (select_columns db t d)"
    if "dom (expectedColumns flds extracols) \<subseteq> columns_of db t d"
    using getExistingColumns_result [OF assms(1), of t d] that
    by (auto simp: addMissingColumns_def split: prod.splits sum.splits)
  then show ?thesis using createTableAndColumns_columns [OF assms(1-3), of d] assms(4) by simp
qed

section \<open>A small database\<close>

text \<open>Tables with their columns beside the migration rows of \<open>small_db\<close>; it reads the \<open>ALTER TABLE\<close> statements.\<close>

definition after_prefix :: "string \<Rightarrow> string \<Rightarrow> string option" where
  "after_prefix p s = (if has_prefix s p then Some (drop (length p) s) else None)"

definition until_quote :: "string \<Rightarrow> string \<times> string" where
  "until_quote s = (takeWhile (\<lambda>c. c \<noteq> CHR 0x22) s, dropWhile (\<lambda>c. c \<noteq> CHR 0x22) s)"

definition parse_add :: "string \<Rightarrow> (string \<times> string) option" where
  "parse_add s = (case after_prefix (''ALTER TABLE '' @ [CHR 0x22]) s of
     None \<Rightarrow> None
   | Some r \<Rightarrow> (case until_quote r of (t, r1) \<Rightarrow>
       (case after_prefix (CHR 0x22 # '' ADD COLUMN '' @ [CHR 0x22]) r1 of
          None \<Rightarrow> None
        | Some r2 \<Rightarrow> Some (t, fst (until_quote r2)))))"

lemma after_prefix_append [simp]: "after_prefix p (p @ s) = Some s"
  by (simp add: after_prefix_def has_prefix_iff)

lemma until_quote_ident [simp]: "ident t \<Longrightarrow> until_quote (t @ CHR 0x22 # s) = (t, CHR 0x22 # s)"
  by (simp add: until_quote_def ident_def takeWhile_append dropWhile_append)

lemma parse_add_column: "ident t \<Longrightarrow> ident c \<Longrightarrow> parse_add (add_column_sql t c ty) = Some (t, c)"
proof -
  assume i: "ident t" "ident c"
  have "add_column_sql t c ty = (''ALTER TABLE '' @ [CHR 0x22]) @ t @ CHR 0x22 # '' ADD COLUMN '' @ quoted c @ '' '' @ ty @ '');''
      \<or> add_column_sql t c ty = (''ALTER TABLE '' @ [CHR 0x22]) @ t @ (CHR 0x22 # '' ADD COLUMN '' @ [CHR 0x22]) @ c @ CHR 0x22 # '' '' @ ty @ '';''"
    by (simp add: add_column_sql_def quoted_def)
  then have e: "add_column_sql t c ty
      = (''ALTER TABLE '' @ [CHR 0x22]) @ t @ (CHR 0x22 # '' ADD COLUMN '' @ [CHR 0x22]) @ c @ CHR 0x22 # '' '' @ ty @ '';''"
    by (simp add: add_column_sql_def quoted_def)
  have u: "until_quote (t @ (CHR 0x22 # '' ADD COLUMN '' @ [CHR 0x22]) @ r) = (t, (CHR 0x22 # '' ADD COLUMN '' @ [CHR 0x22]) @ r)" for r
    using until_quote_ident [OF i(1)] by simp
  show ?thesis unfolding e parse_add_def after_prefix_append option.case u prod.case using i(2) by simp
qed

lemma parse_add_create: "parse_add (create_sql t cs) = None"
  by (simp add: parse_add_def after_prefix_def create_sql_def)

type_synonym tables = "mig_row list \<times> (string \<Rightarrow> string list)"

definition small_ddl :: "tables ddl" where
  "small_ddl = \<lparr>exec_sql = (\<lambda>s d. case parse_add s of
       Some (t, c) \<Rightarrow> (True, (fst d, (snd d)(t := c # snd d t)))
     | None \<Rightarrow> (True, d)),
     select_columns = (\<lambda>t d. (Some (map Some (snd d t)), d)),
     columns_of = (\<lambda>t d. set (snd d t))\<rparr>"

lemma small_ddl_ok: "ddl_ok small_ddl"
  by (auto simp: ddl_ok_def small_ddl_def parse_add_column parse_add_create)

definition age_field :: field where
  "age_field = \<lparr>fname = ''age'', exported = True, ftype = GBasic KInt64, orm = [], pgname = [], pgtype = [], primarykey = []\<rparr>"

lemma age_column: "ParseTag age_field = Inr (Some (empty_tag\<lparr>Column := ''age'', CType := ''BIGINT''\<rparr>))"
proof -
  have "ToUnderScore ''age'' = ''age''"
    by (simp add: ToUnderScore_def abbrCommonReplace_def pairs_eval is_case_def char_eval)
  then show ?thesis
    by (simp add: ParseTag_def age_field_def shouldIncludeField_def createDefaultColumn_def inferTypeFromField_def empty_tag_def)
qed

lemma age_model: "expectedColumns [age_field] Map.empty = [''age'' \<mapsto> ''BIGINT'']" "model_plain ''users'' [age_field] Map.empty"
proof -
  have "getColumnInfo age_field = (''age'', ''BIGINT'')"
    by (simp add: getColumnInfo_def age_column) (simp add: age_field_def)
  then show e: "expectedColumns [age_field] Map.empty = [''age'' \<mapsto> ''BIGINT'']" by (simp add: expectedColumns_def)
  have "column_sql age_field = [quoted ''age'' @ '' BIGINT'']"
    by (simp add: column_sql_def age_column BuildColumnDefinition_def column_type_def sized_type_def empty_tag_def)
  then show "model_plain ''users'' [age_field] Map.empty"
    unfolding model_plain_def e by (simp add: ident_def type_text_def quoted_def)
qed

theorem createTableAndColumns_completes_witness:
  "''age'' \<in> columns_of small_ddl ''users''
     (snd (createTableAndColumns small_ddl [''age''] ''users'' [age_field] Map.empty ([], (\<lambda>_. []))))"
proof -
  obtain e d' where r: "createTableAndColumns small_ddl [''age''] ''users'' [age_field] Map.empty ([], (\<lambda>_. [])) = (e, d')"
    using prod.exhaust by blast
  moreover have "e = None"
    using r by (simp add: createTableAndColumns_def createTableIfNotExists_def addMissingColumns_def getExistingColumns_def
        age_model(1) small_ddl_def Let_def parse_add_create parse_add_column ident_def split: if_splits)
  moreover have "dom (expectedColumns [age_field] Map.empty) \<subseteq> set [''age'']" by (simp add: age_model)
  ultimately show ?thesis using createTableAndColumns_completes [OF small_ddl_ok age_model(2) _ r] by (simp add: age_model)
qed

end
