(* ===== verification/Auto_Migrator_Props.thy ===== *)
theory Auto_Migrator_Props
  imports Migrate_Props
begin

text \<open>
  The auto-migrator on top of the migrator: \<open>MigrateAll\<close> gives every registered model its columns, and
  what the ids of automatic migrations depend on.
\<close>

section \<open>What Up establishes\<close>

text \<open>
  A relation \<open>R\<close> that every step of \<open>Up\<close> keeps, and a property that the migration with id \<open>i\<close> establishes
  when it succeeds and that \<open>R\<close> preserves.
\<close>

lemma up_loop_establishes:
  assumes refl: "\<And>d. R d d" and trans: "\<And>a b c. R a b \<Longrightarrow> R b c \<Longrightarrow> R a c"
    and up: "\<And>i mg f d. migrations m i = Some mg \<Longrightarrow> Up_fn mg = Some f \<Longrightarrow> R d (snd (f d)) \<and> (fst (f d) \<longrightarrow> P i (snd (f d)))"
    and rec: "\<And>mg d. R d (snd (recordMigration m mg d))"
    and stable: "\<And>i d d'. P i d \<Longrightarrow> R d d' \<Longrightarrow> P i d'"
    and run: "up_loop m applied order d = (None, d')"
  shows "R d d' \<and> (\<forall>i \<in> set order. i \<in> dom (migrations m) \<longrightarrow> i \<notin> applied \<longrightarrow> P i d')"
  using run
proof (induction order arbitrary: d)
  case Nil
  then show ?case by (simp add: refl)
next
  case (Cons i order)
  show ?case
  proof (cases "migrations m i")
    case None
    then show ?thesis using Cons.IH [of d] Cons.prems by auto
  next
    case (Some mg)
    show ?thesis
    proof (cases "i \<in> applied")
      case True
      then show ?thesis using Cons.IH [of d] Cons.prems Some by auto
    next
      case False
      then obtain f where f: "Up_fn mg = Some f" using Cons.prems Some by (cases "Up_fn mg") auto
      obtain b d1 where b: "f d = (b, d1)" by fastforce
      obtain c d2 where c: "recordMigration m mg d1 = (c, d2)" by fastforce
      have bc: b c and rest: "up_loop m applied order d2 = (None, d')"
        using Cons.prems Some False f b c by (auto split: bool.splits)
      have "R d d1" "P i d1" using up [OF Some f, of d] b bc by simp_all
      moreover have "R d1 d2" using rec [of d1 mg] c by simp
      moreover note Cons.IH [OF rest]
      ultimately show ?thesis using trans stable by (metis set_ConsD)
    qed
  qed
qed

section \<open>Separate tables\<close>

text \<open>
  The migration table \<open>mt\<close> and the other tables do not disturb each other: the migrator's statements leave
  the columns of the others as they are, and the schema statements on others leave its rows.
\<close>

definition separate :: "'d ddl \<Rightarrow> 'd database \<Rightarrow> string \<Rightarrow> bool" where
  "separate db p mt \<longleftrightarrow> (\<forall>t d. t \<noteq> mt \<longrightarrow>
     columns_of db t (snd (ensure_table p mt d)) = columns_of db t d
   \<and> columns_of db t (snd (select_ids p mt d)) = columns_of db t d
   \<and> columns_of db t (snd (select_rows p mt d)) = columns_of db t d
   \<and> (\<forall>r. columns_of db t (snd (insert_row p mt r d)) = columns_of db t d)
   \<and> rows_of p mt (snd (select_columns db t d)) = rows_of p mt d
   \<and> (\<forall>c ty. ident t \<longrightarrow> ident c \<longrightarrow> type_text ty \<longrightarrow> rows_of p mt (snd (exec_sql db (add_column_sql t c ty) d)) = rows_of p mt d)
   \<and> (\<forall>cs. ident t \<longrightarrow> (\<forall>s \<in> set cs. CHR '';'' \<notin> set s) \<longrightarrow> rows_of p mt (snd (exec_sql db (create_sql t cs) d)) = rows_of p mt d)
   \<and> (ident t \<longrightarrow> rows_of p mt (snd (exec_sql db (drop_table_sql t) d)) = rows_of p mt d))"

lemma getExisting_state: "snd (getExistingColumns db t d) = snd (select_columns db t d)"
  by (simp add: getExistingColumns_def split: prod.splits option.splits)

lemma create_state: "snd (createTableIfNotExists db t flds d) =
    (if concat (map column_sql flds) = [] then d else snd (exec_sql db (create_sql t (concat (map column_sql flds))) d))"
  by (simp add: createTableIfNotExists_def Let_def split: prod.splits)

lemma add_loop_rows:
  assumes "separate db p mt" and "t \<noteq> mt" and "ident t"
    and "\<And>c ty. expected c = Some ty \<Longrightarrow> ident c \<and> type_text ty"
  shows "rows_of p mt (snd (add_loop db t expected existing order d)) = rows_of p mt d"
proof (induction order arbitrary: d)
  case (Cons c cs)
  show ?case
  proof (cases "expected c")
    case (Some ty)
    have "rows_of p mt (snd (exec_sql db (add_column_sql t c ty) d)) = rows_of p mt d"
      using assms(1-3) assms(4) [OF Some] unfolding separate_def by blast
    then show ?thesis using Cons Some by (auto split: prod.splits bool.splits)
  qed (use Cons in simp)
qed simp

lemma createTableAndColumns_rows:
  assumes "separate db p mt" and "t \<noteq> mt" and plain: "model_plain t flds extracols"
  shows "rows_of p mt (snd (createTableAndColumns db order t flds extracols d)) = rows_of p mt d"
proof -
  have t: "ident t" and e: "\<And>c ty. expectedColumns flds extracols c = Some ty \<Longrightarrow> ident c \<and> type_text ty"
    and s: "\<forall>s \<in> set (concat (map column_sql flds)). CHR '';'' \<notin> set s"
    using plain by (auto simp: model_plain_def)
  have create: "rows_of p mt (snd (exec_sql db (create_sql t (concat (map column_sql flds))) d)) = rows_of p mt d" for d
    using assms(1,2) t s unfolding separate_def by blast
  have query: "rows_of p mt (snd (select_columns db t d)) = rows_of p mt d" for d
    using assms(1,2) unfolding separate_def by blast
  have "rows_of p mt (snd (getExistingColumns db t d)) = rows_of p mt d" for d
    using query [of d] by (simp add: getExisting_state)
  then have "rows_of p mt (snd (addMissingColumns db order t flds extracols d)) = rows_of p mt d" for d
    using add_loop_rows [OF assms(1,2) t e] unfolding addMissingColumns_def
    by (simp split: prod.splits sum.splits) (metis snd_conv)
  moreover have "rows_of p mt (snd (createTableIfNotExists db t flds d)) = rows_of p mt d"
    using create [of d] by (simp add: create_state)
  ultimately show ?thesis unfolding createTableAndColumns_def
    by (simp split: prod.splits option.splits) (metis snd_conv)
qed

section \<open>The migrations of an auto-migrator\<close>

definition model_id :: "(string \<Rightarrow> 8 word list) \<Rightarrow> orders \<Rightarrow> string \<Rightarrow> modelInfo \<Rightarrow> string" where
  "model_id sha256 ords t info = generateMigrationID sha256 (fst (ords t)) t (mi_fields info) (mi_extracols info)"

definition model_migration :: "'d ddl \<Rightarrow> (string \<Rightarrow> 8 word list) \<Rightarrow> orders \<Rightarrow> string \<Rightarrow> modelInfo \<Rightarrow> 'd migration" where
  "model_migration db sha256 ords t info =
     \<lparr>ID = model_id sha256 ords t info,
      Up_fn = mig_fn (createTableAndColumns db (snd (ords t)) t (mi_fields info) (mi_extracols info)),
      Down_fn = mig_fn (dropTable db t), MComment = ''Auto-migrate table '' @ t\<rparr>"

lemma hex_length: "length (hex bs) = 2 * length bs"
  by (simp add: hex_def length_concat comp_def sum_list_triv)

text \<open>The id of a migration names its table.\<close>

lemma migration_id_table:
  assumes "\<And>s. 8 \<le> length (sha256 s)"
    and "generateMigrationID sha256 eo t flds ex = generateMigrationID sha256 eo' t' flds' ex'"
  shows "t = t'"
proof -
  have l: "length (hex (take 8 (sha256 s))) = 16" for s using assms(1) [of s] by (simp add: hex_length)
  have "(t @ ''_'') @ hex (take 8 (sha256 (id_text t flds ex eo))) = (t' @ ''_'') @ hex (take 8 (sha256 (id_text t' flds' ex' eo')))"
    using assms(2) by (simp add: generateMigrationID_def)
  then have "t @ ''_'' = t' @ ''_''" using l by (subst (asm) append_eq_append_conv) simp_all
  then show ?thesis by simp
qed

text \<open>The migrations after the models of \<open>S\<close> have been gone through.\<close>

definition holds_models ::
  "'d ddl \<Rightarrow> (string \<Rightarrow> 8 word list) \<Rightarrow> orders \<Rightarrow> 'd auto_migrator \<Rightarrow> string set \<Rightarrow> 'd auto_migrator \<Rightarrow> bool" where
  "holds_models db sha256 ords am0 S am \<longleftrightarrow>
     registeredModels am = registeredModels am0 \<and> mdb (am_migrator am) = mdb (am_migrator am0)
   \<and> tableName (am_migrator am) = tableName (am_migrator am0)
   \<and> (\<forall>i mg. migrations (am_migrator am) i = Some mg \<longleftrightarrow>
        (\<exists>t \<in> S. \<exists>info. registeredModels am0 t = Some info \<and> i = model_id sha256 ords t info
           \<and> mg = model_migration db sha256 ords t info))"

lemma migrateModel_holds:
  assumes sha: "\<And>s. 8 \<le> length (sha256 s)" and h: "holds_models db sha256 ords am0 S am"
    and info: "registeredModels am0 t = Some info"
  shows "holds_models db sha256 ords am0 (insert t S) (migrateModel db sha256 ords t info am)"
proof -
  let ?i = "model_id sha256 ords t info"
  have table: "u = t" if "model_id sha256 ords u x = ?i" for u x
    by (rule migration_id_table [OF sha that [unfolded model_id_def]])
  show ?thesis
  proof (cases "migrations (am_migrator am) ?i")
    case None
    have e: "migrateModel db sha256 ords t info am = am\<lparr>am_migrator :=
        add_model db ?i (snd (ords t)) t (mi_fields info) (mi_extracols info) (am_migrator am)\<rparr>"
      using None by (simp add: migrateModel_def model_id_def)
    have new: "migrations (am_migrator (migrateModel db sha256 ords t info am))
        = (migrations (am_migrator am))(?i \<mapsto> model_migration db sha256 ords t info)"
      by (simp add: e add_model_def AddFunc_def Add_def model_migration_def)
    have rest: "registeredModels (migrateModel db sha256 ords t info am) = registeredModels am"
      "mdb (am_migrator (migrateModel db sha256 ords t info am)) = mdb (am_migrator am)"
      "tableName (am_migrator (migrateModel db sha256 ords t info am)) = tableName (am_migrator am)"
      by (simp_all add: e add_model_def AddFunc_def Add_def)
    let ?Q = "\<lambda>i mg u. \<exists>x. registeredModels am0 u = Some x \<and> i = model_id sha256 ords u x \<and> mg = model_migration db sha256 ords u x"
    have here: "?Q i mg t \<longleftrightarrow> i = ?i \<and> mg = model_migration db sha256 ords t info" for i mg using info by simp
    have old: "migrations (am_migrator am) i = Some mg \<longleftrightarrow> (\<exists>u \<in> S. ?Q i mg u)" for i mg
      using h unfolding holds_models_def by blast
    have "((migrations (am_migrator am))(?i \<mapsto> model_migration db sha256 ords t info)) i = Some mg
        \<longleftrightarrow> (\<exists>u \<in> insert t S. ?Q i mg u)" for i mg
    proof (cases "i = ?i")
      case True
      have "(\<exists>u \<in> insert t S. ?Q i mg u) \<longleftrightarrow> ?Q i mg t" using table True by blast
      also have "\<dots> \<longleftrightarrow> mg = model_migration db sha256 ords t info" unfolding here using True by blast
      finally show ?thesis using True by auto
    next
      case False
      with here old show ?thesis by simp
    qed
    then show ?thesis using h unfolding holds_models_def new rest by (simp only: simp_thms)
  next
    case (Some mg)
    then have "migrateModel db sha256 ords t info am = am"
      by (simp add: migrateModel_def model_id_def)
    moreover from Some h obtain u x where "u \<in> S" "registeredModels am0 u = Some x" "?i = model_id sha256 ords u x"
      unfolding holds_models_def by blast
    then have "t \<in> S" using table [of u x] by simp
    ultimately show ?thesis using h by (simp add: insert_absorb)
  qed
qed

lemma register_all_holds:
  assumes sha: "\<And>s. 8 \<le> length (sha256 s)" and "migrations (am_migrator am) = Map.empty"
  shows "holds_models db sha256 ords am (set torder) (register_all db sha256 ords torder am)"
proof -
  have "holds_models db sha256 ords am (S \<union> set torder)
      (foldl (\<lambda>a t. case registeredModels am t of None \<Rightarrow> a | Some info \<Rightarrow> migrateModel db sha256 ords t info a) am1 torder)"
    if "holds_models db sha256 ords am S am1" for S am1
    using that
  proof (induction torder arbitrary: S am1)
    case (Cons t torder)
    have "holds_models db sha256 ords am (insert t S)
        (case registeredModels am t of None \<Rightarrow> am1 | Some info \<Rightarrow> migrateModel db sha256 ords t info am1)"
    proof (cases "registeredModels am t")
      case None
      then show ?thesis using Cons.prems by (auto simp: holds_models_def)
    qed (use migrateModel_holds [OF sha Cons.prems] in simp)
    from Cons.IH [OF this] show ?case by simp
  qed simp
  moreover have "holds_models db sha256 ords am {} am" using assms(2) by (simp add: holds_models_def)
  ultimately show ?thesis unfolding register_all_def by fastforce
qed

section \<open>MigrateAll\<close>

text \<open>A new auto-migrator with plain models whose tables are not the migration table.\<close>

definition auto_ok :: "'d ddl \<Rightarrow> (string \<Rightarrow> 8 word list) \<Rightarrow> orders \<Rightarrow> 'd auto_migrator \<Rightarrow> bool" where
  "auto_ok db sha256 ords am \<longleftrightarrow>
     ddl_ok db \<and> db_ok (mdb (am_migrator am)) \<and> reads_ok (mdb (am_migrator am))
   \<and> separate db (mdb (am_migrator am)) (tableName (am_migrator am))
   \<and> migrations (am_migrator am) = Map.empty \<and> (\<forall>s. 8 \<le> length (sha256 s))
   \<and> (\<forall>t info. registeredModels am t = Some info \<longrightarrow> t \<noteq> tableName (am_migrator am)
        \<and> model_plain t (mi_fields info) (mi_extracols info)
        \<and> dom (expectedColumns (mi_fields info) (mi_extracols info)) \<subseteq> set (snd (ords t)))"

lemma auto_migrator_ok:
  assumes "auto_ok db sha256 ords am"
  shows "migrator_ok (am_migrator (register_all db sha256 ords torder am))"
proof -
  let ?m = "am_migrator (register_all db sha256 ords torder am)"
  have h: "holds_models db sha256 ords am (set torder) (register_all db sha256 ords torder am)"
    using assms by (intro register_all_holds) (simp_all add: auto_ok_def)
  have "ID mg = i \<and> keeps_table ?m (Up_fn mg) \<and> keeps_table ?m (Down_fn mg)" if mg: "migrations ?m i = Some mg" for i mg
  proof -
    obtain t info where t: "registeredModels am t = Some info" "i = model_id sha256 ords t info"
      "mg = model_migration db sha256 ords t info" using h mg unfolding holds_models_def by blast
    have m: "mdb ?m = mdb (am_migrator am)" "tableName ?m = tableName (am_migrator am)" using h by (simp_all add: holds_models_def)
    have sep: "separate db (mdb ?m) (tableName ?m)" "t \<noteq> tableName ?m" "model_plain t (mi_fields info) (mi_extracols info)"
      using assms t(1) unfolding m by (auto simp: auto_ok_def)
    have drop: "rows_of (mdb ?m) (tableName ?m) (snd (dropTable db t d)) = rows_of (mdb ?m) (tableName ?m) d" for d
    proof -
      have "ident t" using sep(3) by (simp add: model_plain_def)
      then have "rows_of (mdb ?m) (tableName ?m) (snd (exec_sql db (drop_table_sql t) d)) = rows_of (mdb ?m) (tableName ?m) d"
        using sep(1,2) unfolding separate_def by blast
      moreover have "snd (dropTable db t d) = snd (exec_sql db (drop_table_sql t) d)"
        by (simp add: dropTable_def split: prod.splits)
      ultimately show ?thesis by simp
    qed
    show ?thesis using t(2) drop createTableAndColumns_rows [OF sep]
      by (auto simp: t(3) model_migration_def keeps_table_def mig_fn_def tab_def split: prod.splits) (metis snd_conv)+
  qed
  moreover have "db_ok (mdb ?m)" using assms h by (simp add: auto_ok_def holds_models_def)
  ultimately show ?thesis by (simp add: migrator_ok_def)
qed

text \<open>Running the migration of a model gives its table the expected columns and takes none from any table.\<close>

lemma model_migration_columns:
  assumes ok: "auto_ok db sha256 ords am" and u: "registeredModels am u = Some x"
    and f: "Up_fn (model_migration db sha256 ords u x) = Some f"
  shows "columns_of db v e \<subseteq> columns_of db v (snd (f e))"
    and "fst (f e) \<Longrightarrow> registeredModels am v = Some y \<Longrightarrow> model_id sha256 ords v y = model_id sha256 ords u x \<Longrightarrow>
      dom (expectedColumns (mi_fields y) (mi_extracols y)) \<subseteq> columns_of db v (snd (f e))"
proof -
  let ?c = "createTableAndColumns db (snd (ords u)) u (mi_fields x) (mi_extracols x) e"
  have fe: "fst (f e) = (fst ?c = None)" "snd (f e) = snd ?c"
    using f by (auto simp: model_migration_def mig_fn_def split: prod.splits)
  have "ddl_ok db" "model_plain u (mi_fields x) (mi_extracols x)"
    "dom (expectedColumns (mi_fields x) (mi_extracols x)) \<subseteq> set (snd (ords u))"
    using ok u by (simp_all add: auto_ok_def)
  note c = createTableAndColumns_columns [OF this, of e]
  show "columns_of db v e \<subseteq> columns_of db v (snd (f e))"
    unfolding fe using c by (cases "v = u") (simp_all add: extends_table_def)
  assume run: "fst (f e)" and v: "registeredModels am v = Some y" "model_id sha256 ords v y = model_id sha256 ords u x"
  have "8 \<le> length (sha256 s)" for s using ok by (simp add: auto_ok_def)
  then have "v = u" by (rule migration_id_table [OF _ v(2) [unfolded model_id_def]])
  with v(1) u have "y = x" by simp
  with \<open>v = u\<close> c run show "dom (expectedColumns (mi_fields y) (mi_extracols y)) \<subseteq> columns_of db v (snd (f e))"
    unfolding fe by blast
qed

text \<open>C19: When \<open>MigrateAll\<close> of a new auto-migrator succeeds on a database on which none of its migrations is
  recorded, every registered model is recorded and its table has all its columns, whatever the
  orders in which Go walks the maps of models, migrations, and columns. This rests on the ids of
  different tables being different, so that no model is taken for one that is registered already,
  and on no migration undoing what an earlier one did. It is for models whose table and columns have names of at most
  63 bytes without quotes (longer ones PostgreSQL cuts) and whose types are plain type texts, and for reads of the
  columns and of the applied ids that are complete when they succeed.
\<close>

theorem MigrateAll_creates_columns:
  assumes ok: "auto_ok db sha256 ords am" and models: "set torder = dom (registeredModels am)"
    and run: "MigrateAll db sha256 ords torder morder am d = (am', None, d')"
    and order: "set morder = dom (migrations (am_migrator am'))"
    and fresh: "set (ids (am_migrator am) d) \<inter> {model_id sha256 ords t info | t info. registeredModels am t = Some info} = {}"
    and info: "registeredModels am t = Some info"
  shows "dom (expectedColumns (mi_fields info) (mi_extracols info)) \<subseteq> columns_of db t d'
    \<and> model_id sha256 ords t info \<in> set (ids (am_migrator am) d')"
proof -
  let ?m = "am_migrator am'"
  have am': "am' = register_all db sha256 ords torder am" and up: "Up ?m morder d = (None, d')"
    using run by (auto simp: MigrateAll_def Let_def)
  have h: "holds_models db sha256 ords am (set torder) am'"
    unfolding am' using ok by (intro register_all_holds) (simp_all add: auto_ok_def)
  have m: "mdb ?m = mdb (am_migrator am)" "tableName ?m = tableName (am_migrator am)" using h by (simp_all add: holds_models_def)
  then have tab: "ids ?m x = ids (am_migrator am) x" for x by (simp add: ids_def tab_def)
  have mok: "migrator_ok ?m" unfolding am' by (rule auto_migrator_ok [OF ok])
  have reads: "reads_ok (mdb ?m)" using ok m by (simp add: auto_ok_def)
  let ?R = "\<lambda>d d'. \<forall>u info. registeredModels am u = Some info \<longrightarrow> columns_of db u d \<subseteq> columns_of db u d'"
  let ?P = "\<lambda>i d. \<forall>u info. registeredModels am u = Some info \<and> i = model_id sha256 ords u info \<longrightarrow>
      dom (expectedColumns (mi_fields info) (mi_extracols info)) \<subseteq> columns_of db u d"
  have sep: "separate db (mdb ?m) (tableName ?m)" "u \<noteq> tableName ?m" if "registeredModels am u = Some x" for u x
    using ok that unfolding m by (auto simp: auto_ok_def)
  have establishes: "?R e (snd (f e)) \<and> (fst (f e) \<longrightarrow> ?P i (snd (f e)))"
    if mg: "migrations ?m i = Some mg" and f: "Up_fn mg = Some f" for i mg f e
  proof -
    obtain u x where u: "registeredModels am u = Some x" "i = model_id sha256 ords u x" "mg = model_migration db sha256 ords u x"
      using h mg unfolding holds_models_def by blast
    note cols = model_migration_columns [OF ok u(1) f [unfolded u(3)]]
    have "?R e (snd (f e))" using cols(1) by blast
    moreover have "?P i (snd (f e))" if "fst (f e)" using cols(2) [OF that] u(2) by blast
    ultimately show ?thesis by blast
  qed
  have ins: "?R e (snd (recordMigration ?m mg e))" for mg e
    using sep unfolding separate_def recordMigration_def by blast
  let ?d2 = "snd (getAppliedMigrations ?m (snd (ensureMigrationTable ?m d)))"
  have loop: "up_loop ?m (set (ids ?m d)) morder ?d2 = (None, d')" by (rule Up_loop_run [OF mok reads up])
  have "?R ?d2 d' \<and> (\<forall>i \<in> set morder. i \<in> dom (migrations ?m) \<longrightarrow> i \<notin> set (ids ?m d) \<longrightarrow> ?P i d')"
  proof (rule up_loop_establishes [where R = ?R and P = ?P and m = ?m])
    show "?R a a" for a by simp
    show "?R a c" if "?R a b" "?R b c" for a b c using that by (meson order_trans)
    show "?R e (snd (f e)) \<and> (fst (f e) \<longrightarrow> ?P i (snd (f e)))"
      if "migrations ?m i = Some mg" "Up_fn mg = Some f" for i mg f e
      by (rule establishes [OF that])
    show "?R e (snd (recordMigration ?m mg e))" for mg e by (rule ins)
    show "?P i b" if p: "?P i a" and r: "?R a b" for i a b
    proof (intro allI impI)
      fix u x assume u: "registeredModels am u = Some x \<and> i = model_id sha256 ords u x"
      have "dom (expectedColumns (mi_fields x) (mi_extracols x)) \<subseteq> columns_of db u a" by (rule p [rule_format, OF u])
      also have "\<dots> \<subseteq> columns_of db u b" by (rule r [rule_format, OF conjunct1 [OF u]])
      finally show "dom (expectedColumns (mi_fields x) (mi_extracols x)) \<subseteq> columns_of db u b" .
    qed
    show "up_loop ?m (set (ids ?m d)) morder ?d2 = (None, d')" by (rule loop)
  qed
  moreover have "model_id sha256 ords t info \<in> dom (migrations ?m)"
    using h info models unfolding holds_models_def dom_def by blast
  moreover have "model_id sha256 ords t info \<notin> set (ids ?m d)"
    using fresh info unfolding tab by blast
  moreover have "dom (migrations ?m) \<subseteq> set (ids ?m d')" using Up_table [OF mok reads order, of d] up by auto
  ultimately show ?thesis using info by (simp add: order tab subset_iff)
qed

text \<open>One model on the small database, with constant digests.\<close>

definition users :: "tables auto_migrator" where
  "users = RegisterModel ''users'' [age_field] Map.empty (NewAutoMigrator row_db [])"

lemma users_fields: "registeredModels users = [''users'' \<mapsto> \<lparr>mi_fields = [age_field], mi_extracols = Map.empty\<rparr>]"
  "mdb (am_migrator users) = row_db" "tableName (am_migrator users) = ''auto_migrations''"
  "migrations (am_migrator users) = Map.empty"
  by (simp_all add: users_def RegisterModel_def NewAutoMigrator_def NewMigrator_def)

lemma users_separate: "separate small_ddl row_db mt"
  by (simp add: separate_def small_ddl_def row_db_def split: option.splits)

lemma users_ok: "auto_ok small_ddl (\<lambda>_. replicate 32 0) (\<lambda>_. ([], [''age''])) users"
  by (simp add: auto_ok_def users_fields small_ddl_ok row_db_ok users_separate age_model)

lemma age_migration: "createTableAndColumns small_ddl [''age''] ''users'' [age_field] Map.empty ([], (\<lambda>_. []))
    = (None, ([], (\<lambda>_. [])(''users'' := [''age''])))"
  by (simp add: createTableAndColumns_def createTableIfNotExists_def addMissingColumns_def getExistingColumns_def
      age_model(1) small_ddl_def Let_def parse_add_create parse_add_column ident_def)

theorem MigrateAll_creates_columns_witness:
  "\<exists>am' d'. MigrateAll small_ddl (\<lambda>_. replicate 32 0) (\<lambda>_. ([], [''age''])) [''users'']
       [model_id (\<lambda>_. replicate 32 0) (\<lambda>_. ([], [''age''])) ''users'' \<lparr>mi_fields = [age_field], mi_extracols = Map.empty\<rparr>]
       users ([], (\<lambda>_. [])) = (am', None, d') \<and> ''age'' \<in> columns_of small_ddl ''users'' d'"
proof -
  let ?sha = "\<lambda>_ :: string. replicate 32 (0 :: 8 word)" and ?ords = "\<lambda>_ :: string. ([] :: string list, [''age''])"
  let ?info = "\<lparr>mi_fields = [age_field], mi_extracols = Map.empty\<rparr>"
  define i where "i = model_id ?sha ?ords ''users'' ?info"
  define am where "am = register_all small_ddl ?sha ?ords [''users''] users"
  have am: "am = users\<lparr>am_migrator := add_model small_ddl i [''age''] ''users'' [age_field] Map.empty (am_migrator users)\<rparr>"
    by (simp add: am_def register_all_def users_fields migrateModel_def i_def model_id_def)
  have mig: "migrations (am_migrator am) = [i \<mapsto> model_migration small_ddl ?sha ?ords ''users'' ?info]"
    by (simp add: am add_model_def AddFunc_def Add_def users_fields model_migration_def i_def)
  have mdb: "mdb (am_migrator am) = row_db"
    by (simp add: am add_model_def AddFunc_def Add_def users_fields)
  have id: "ID (model_migration small_ddl ?sha ?ords ''users'' ?info) = i" by (simp add: model_migration_def i_def)
  have fn: "Up_fn (model_migration small_ddl ?sha ?ords ''users'' ?info)
      = mig_fn (createTableAndColumns small_ddl [''age''] ''users'' [age_field] Map.empty)"
    by (simp add: model_migration_def)
  have up: "\<exists>d'. Up (am_migrator am) [i] ([], (\<lambda>_. [])) = (None, d')"
    by (simp add: Up_def ensureMigrationTable_def getAppliedMigrations_def mdb mig fn id row_db_def recordMigration_def
        mig_record_def mig_fn_def age_migration)
  then obtain d' where d': "Up (am_migrator am) [i] ([], (\<lambda>_. [])) = (None, d')" by blast
  then have run: "MigrateAll small_ddl ?sha ?ords [''users''] [i] users ([], (\<lambda>_. [])) = (am, None, d')"
    by (simp add: MigrateAll_def am_def)
  have models: "set [''users''] = dom (registeredModels users)" by (simp add: users_fields)
  have order: "set [i] = dom (migrations (am_migrator am))" by (simp add: mig)
  have fresh: "set (ids (am_migrator users) ([], (\<lambda>_. []))) \<inter> X = {}" for X
    by (simp add: ids_def tab_def users_fields row_db_def)
  have info: "registeredModels users ''users'' = Some ?info" by (simp add: users_fields)
  from MigrateAll_creates_columns [OF users_ok models run order fresh info]
  have "''age'' \<in> columns_of small_ddl ''users'' d'" by (simp add: age_model(1))
  with run show ?thesis unfolding i_def by blast
qed

section \<open>Version control\<close>

text \<open>The branch of \<open>MigrateWithVersionControl\<close> for a migration that is applied already is never taken:
  its migrator is new, and \<open>Status\<close> lists registered migrations only, so the function is \<open>Status\<close>
  followed by \<open>Up\<close>, on every database. So once the migration of a model is recorded, a column that the
  table has lost is not noticed: a call changes no column of the table.
\<close>

theorem applied_migration_adds_no_column:
  assumes m_def: "m = NewMigrator pdb mt" and i_def: "i = generateMigrationID sha256 eorder t flds extracols"
    and ok: "db_ok pdb" and reads: "reads_ok pdb" and sep: "separate db pdb (tableName m)" and t: "t \<noteq> tableName m" and i: "i \<in> set (ids m d)"
  shows "MigrateWithVersionControl db pdb sha256 eorder order t flds extracols mt d =
      (case Status m [] d of
         (Inl e, d') \<Rightarrow> (Some (StatusFailed e), d')
       | (Inr _, d') \<Rightarrow> up_result (Up (add_model db i order t flds extracols m) [i] d'))
    \<and> columns_of db t (snd (MigrateWithVersionControl db pdb sha256 eorder order t flds extracols mt d)) = columns_of db t d"
proof -
  let ?M = "MigrateWithVersionControl db pdb sha256 eorder order t flds extracols mt d"
  let ?u = "add_model db i order t flds extracols m"
  have statuses: "fst (Status m [] e) = Inr ss \<Longrightarrow> ss = []" for e ss
    by (simp add: Status_def split: prod.splits option.splits bool.splits)
  have eq: "?M = (case Status m [] d of (Inl e, d') \<Rightarrow> (Some (StatusFailed e), d') | (Inr _, d') \<Rightarrow> up_result (Up ?u [i] d'))"
    using statuses [of d] unfolding MigrateWithVersionControl_def m_def [symmetric] i_def [symmetric] Let_def
    by (auto split: prod.splits sum.splits)
  have mdb: "mdb m = pdb" "mdb ?u = pdb" "tableName ?u = tableName m"
    by (simp_all add: m_def NewMigrator_def add_model_def AddFunc_def Add_def)
  have cols: "columns_of db t (snd (ensure_table pdb (tableName m) e)) = columns_of db t e"
    "columns_of db t (snd (select_rows pdb (tableName m) e)) = columns_of db t e"
    "columns_of db t (snd (select_ids pdb (tableName m) e)) = columns_of db t e" for e
    using sep t unfolding separate_def by blast+
  have rows: "rows_of pdb (tableName m) (snd (ensure_table pdb (tableName m) e)) = rows_of pdb (tableName m) e"
    "rows_of pdb (tableName m) (snd (select_rows pdb (tableName m) e)) = rows_of pdb (tableName m) e" for e
    using ok unfolding db_ok_def by blast+
  have status: "snd (Status m [] d) \<in> {snd (ensure_table pdb (tableName m) d),
      snd (select_rows pdb (tableName m) (snd (ensure_table pdb (tableName m) d)))}"
    by (auto simp: Status_def ensureMigrationTable_def mdb split: prod.splits option.splits bool.splits)
  define d1 where "d1 = snd (Status m [] d)"
  have d1: "columns_of db t d1 = columns_of db t d" "rows_of pdb (tableName m) d1 = rows_of pdb (tableName m) d"
    using status unfolding d1_def [symmetric] by (auto simp: cols rows)
  have get: "snd (getAppliedMigrations ?u e) = snd (select_ids pdb (tableName m) e)" for e
    by (simp add: getAppliedMigrations_def mdb split: prod.splits option.splits)
  have ens: "snd (ensureMigrationTable ?u e) = snd (ensure_table pdb (tableName m) e)" for e
    by (simp add: ensureMigrationTable_def mdb)
  have "columns_of db t (snd (Up ?u [i] d1)) = columns_of db t d1"
  proof (cases rule: Up_cases [of ?u "[i]" d1])
    case (3 applied)
    have "applied = set (ids ?u (snd (ensureMigrationTable ?u d1)))"
      using getApplied_ids [of ?u "snd (ensureMigrationTable ?u d1)" applied] reads 3(1) mdb by (simp add: prod_eq_iff)
    then have "i \<in> applied" using i d1(2) rows by (simp add: ids_def tab_def ens mdb)
    then have "up_loop ?u applied [i] e = (None, e)" for e by (simp split: option.splits)
    then show ?thesis using 3(2) by (simp add: get ens cols)
  qed (simp_all add: get ens cols)
  then have "columns_of db t (snd ?M) = columns_of db t d"
    using d1(1) unfolding eq d1_def by (auto simp: up_result_def split: prod.splits sum.splits)
  with eq show ?thesis by blast
qed

theorem applied_migration_adds_no_column_witness:
  "columns_of small_ddl ''users'' (snd (MigrateWithVersionControl small_ddl row_db (\<lambda>_. replicate 32 0) [] [''age''] ''users''
      [age_field] Map.empty ''log''
      ([\<lparr>row_id = generateMigrationID (\<lambda>_. replicate 32 0) [] ''users'' [age_field] Map.empty, row_comment = []\<rparr>], (\<lambda>_. [])))) = {}"
proof -
  let ?i = "generateMigrationID (\<lambda>_. replicate 32 0) [] ''users'' [age_field] Map.empty"
  have "?i \<in> set (ids (NewMigrator row_db ''log'') ([\<lparr>row_id = ?i, row_comment = []\<rparr>], (\<lambda>_ :: string. [] :: string list)))"
    by (simp add: ids_def tab_def NewMigrator_def row_db_def)
  from applied_migration_adds_no_column [OF refl refl row_db_ok users_separate _ this, THEN conjunct2]
  show ?thesis by (simp add: NewMigrator_def) (simp add: small_ddl_def)
qed

end
