(* ===== verification/Migrator_Concurrent.thy ===== *)
theory Migrator_Concurrent
  imports Migrator_Props Transition_Iface
begin

text \<open>
  Several processes that call \<open>Up\<close> of \<open>data/db/pg/migrate/migration.go\<close> on one database, as the instances of a
  server do when they start. \<open>Up\<close> takes no lock: what is atomic is one statement, or one migration function,
  and between two of them the others may act. The first part shows that the statements one after the
  other are \<open>Up\<close>, the second what holds in every interleaving, the third what does not.
\<close>

section \<open>Up, one statement at a time\<close>

text \<open>
  Where a call is: before \<open>CREATE TABLE\<close>, before \<open>SELECT\<close>, in the loop with the ids it found applied and the keys to
  come, before the \<open>INSERT\<close> for the migration that has run, or returned. The keys come in an order of its own.
\<close>

datatype 'd up_pc =
    UpIdle
  | UpEnsure "string list"
  | UpSelect "string list"
  | UpLoop "string set" "string list"
  | UpRecord "string set" "string list" "'d migration" string
  | UpReturned "mig_error option"

fun up_action :: "'d migrator \<Rightarrow> 'd up_pc \<Rightarrow> 'd \<Rightarrow> 'd up_pc \<times> 'd" where
  "up_action m (UpEnsure order) d = (case ensureMigrationTable m d of
     (False, d1) \<Rightarrow> (UpReturned (Some EnsureFailed), d1)
   | (True, d1) \<Rightarrow> (UpSelect order, d1))"
| "up_action m (UpSelect order) d = (case getAppliedMigrations m d of
     (None, d1) \<Rightarrow> (UpReturned (Some GetAppliedFailed), d1)
   | (Some applied, d1) \<Rightarrow> (UpLoop applied order, d1))"
| "up_action m (UpLoop applied []) d = (UpReturned None, d)"
| "up_action m (UpLoop applied (i # todo)) d = (case migrations m i of
     None \<Rightarrow> (UpLoop applied todo, d)
   | Some mg \<Rightarrow>
       if i \<in> applied then (UpLoop applied todo, d)
       else case Up_fn mg of
           None \<Rightarrow> (UpReturned (Some NilUpPanic), d)
         | Some up \<Rightarrow> (case up d of
             (False, d1) \<Rightarrow> (UpReturned (Some (RunFailed i)), d1)
           | (True, d1) \<Rightarrow> (UpRecord applied todo mg i, d1)))"
| "up_action m (UpRecord applied todo mg i) d = (case recordMigration m mg d of
     (False, d1) \<Rightarrow> (UpReturned (Some (RecordFailed i)), d1)
   | (True, d1) \<Rightarrow> (UpLoop applied todo, d1))"
| "up_action m UpIdle d = (UpIdle, d)"
| "up_action m (UpReturned e) d = (UpReturned e, d)"

text \<open>The actions of one call that nobody interrupts.\<close>

fun alone :: "'d migrator \<Rightarrow> nat \<Rightarrow> 'd up_pc \<times> 'd \<Rightarrow> 'd up_pc \<times> 'd" where
  "alone m 0 s = s"
| "alone m (Suc n) s = alone m n (up_action m (fst s) (snd s))"

lemma alone_loop: "\<exists>n \<le> 2 * length todo + 1. alone m n (UpLoop applied todo, d)
    = (UpReturned (fst (up_loop m applied todo d)), snd (up_loop m applied todo d))"
proof (induction todo arbitrary: d)
  case Nil
  show ?case by (intro exI [of _ 1]) simp
next
  case (Cons i todo)
  have skip: ?case if s: "up_action m (UpLoop applied (i # todo)) d = (UpLoop applied todo, d)"
    and l: "up_loop m applied (i # todo) d = up_loop m applied todo d"
  proof -
    obtain n where "n \<le> 2 * length todo + 1" "alone m n (UpLoop applied todo, d)
        = (UpReturned (fst (up_loop m applied todo d)), snd (up_loop m applied todo d))" using Cons by blast
    then show ?thesis by (intro exI [of _ "Suc n"]) (simp add: s l del: up_action.simps up_loop.simps)
  qed
  have halt: ?case if s: "up_action m (UpLoop applied (i # todo)) d = (UpReturned e, d1)"
    and l: "up_loop m applied (i # todo) d = (e, d1)" for e d1
    by (intro exI [of _ 1]) (simp add: s l del: up_action.simps up_loop.simps)
  show ?case
  proof (cases "migrations m i")
    case None
    then show ?thesis by (intro skip) simp_all
  next
    case (Some mg)
    show ?thesis
    proof (cases "i \<in> applied")
      case True
      with Some show ?thesis by (intro skip) simp_all
    next
      case False
      show ?thesis
      proof (cases "Up_fn mg")
        case None
        with Some False show ?thesis by (intro halt) simp_all
      next
        case up: (Some up)
        obtain b d1 where u: "up d = (b, d1)" by fastforce
        obtain c d2 where r: "recordMigration m mg d1 = (c, d2)" by fastforce
        show ?thesis
        proof (cases b)
          case b: True
          have s: "alone m (Suc (Suc n)) (UpLoop applied (i # todo), d) = alone m n (up_action m (UpRecord applied todo mg i) d1)" for n
            using Some False up u b by simp
          show ?thesis
          proof (cases c)
            case True
            obtain n where n: "n \<le> 2 * length todo + 1" "alone m n (UpLoop applied todo, d2)
                = (UpReturned (fst (up_loop m applied todo d2)), snd (up_loop m applied todo d2))" using Cons by blast
            have "alone m (Suc (Suc n)) (UpLoop applied (i # todo), d) = alone m n (UpLoop applied todo, d2)"
              unfolding s using r True by simp
            with n show ?thesis using Some False up u b r True by (intro exI [of _ "Suc (Suc n)"]) (simp del: alone.simps)
          next
            case False
            have "alone m (Suc (Suc 0)) (UpLoop applied (i # todo), d) = (UpReturned (Some (RecordFailed i)), d2)"
              unfolding s using r False by simp
            then show ?thesis using Some \<open>i \<notin> applied\<close> up u b r False by (intro exI [of _ "Suc (Suc 0)"]) (simp del: alone.simps)
          qed
        qed (use Some False up u in \<open>intro halt, simp_all\<close>)
      qed
    qed
  qed
qed

text \<open>Uninterrupted, the actions are \<open>Up\<close>.\<close>

lemma alone_is_Up: "\<exists>n \<le> 2 * length order + 3. alone m n (UpEnsure order, d) = (UpReturned (fst (Up m order d)), snd (Up m order d))"
proof -
  obtain b d1 where e: "ensureMigrationTable m d = (b, d1)" by fastforce
  obtain a d2 where g: "getAppliedMigrations m d1 = (a, d2)" by fastforce
  show ?thesis
  proof (cases b)
    case False
    with e show ?thesis by (intro exI [of _ 1]) (simp add: Up_def)
  next
    case True
    have s: "alone m (Suc n) (UpEnsure order, d) = alone m n (UpSelect order, d1)" for n
      using e True by simp
    show ?thesis
    proof (cases a)
      case None
      have "alone m (Suc (Suc 0)) (UpEnsure order, d) = (UpReturned (Some GetAppliedFailed), d2)"
        unfolding s using g None by simp
      moreover have "Up m order d = (Some GetAppliedFailed, d2)" using e g True None by (simp add: Up_def)
      ultimately show ?thesis by (intro exI [of _ "Suc (Suc 0)"]) (simp del: alone.simps)
    next
      case (Some applied)
      obtain n where n: "n \<le> 2 * length order + 1" "alone m n (UpLoop applied order, d2)
          = (UpReturned (fst (up_loop m applied order d2)), snd (up_loop m applied order d2))"
        using alone_loop [of order m applied d2] by blast
      have "alone m (Suc (Suc n)) (UpEnsure order, d) = alone m n (UpLoop applied order, d2)"
        unfolding s using g Some by simp
      moreover have "Up m order d = up_loop m applied order d2" using e g True Some by (simp add: Up_def)
      ultimately show ?thesis using n by (intro exI [of _ "Suc (Suc n)"]) (simp del: alone.simps)
    qed
  qed
qed

section \<open>Interleavings\<close>

text \<open>The database, the calls, and a log of the migrations that ran, with the call that ran them.\<close>

record 'd cluster =
  cdb :: 'd
  calls :: "nat \<Rightarrow> 'd up_pc"
  uplog :: "(nat \<times> string) list"

definition cluster_init :: "'d \<Rightarrow> 'd cluster" where
  "cluster_init d = \<lparr>cdb = d, calls = \<lambda>_. UpIdle, uplog = []\<rparr>"

fun ran_now :: "nat \<Rightarrow> 'd up_pc \<Rightarrow> 'd up_pc \<Rightarrow> (nat \<times> string) list" where
  "ran_now t (UpLoop _ _) (UpRecord _ _ _ i) = [(t, i)]"
| "ran_now t _ _ = []"

inductive cluster_step :: "'d migrator \<Rightarrow> 'd cluster \<Rightarrow> 'd cluster \<Rightarrow> bool" for m where
  begin_up: "calls w t = UpIdle \<Longrightarrow> set order = dom (migrations m) \<Longrightarrow>
    cluster_step m w (w\<lparr>calls := (calls w)(t := UpEnsure order)\<rparr>)"
| act: "calls w t \<noteq> UpIdle \<Longrightarrow> up_action m (calls w t) (cdb w) = (pc, d) \<Longrightarrow>
    cluster_step m w (w\<lparr>cdb := d, calls := (calls w)(t := pc), uplog := uplog w @ ran_now t (calls w t) pc\<rparr>)"

text \<open>
  What each call can rely on: every registered id is in the table or among the keys to come.
\<close>

fun call_ok :: "'d migrator \<Rightarrow> (nat \<times> string) list \<Rightarrow> string set \<Rightarrow> nat \<Rightarrow> 'd up_pc \<Rightarrow> bool" where
  "call_ok m lg tab_ids t UpIdle = True"
| "call_ok m lg tab_ids t (UpEnsure order) = (dom (migrations m) \<subseteq> set order)"
| "call_ok m lg tab_ids t (UpSelect order) = (dom (migrations m) \<subseteq> set order)"
| "call_ok m lg tab_ids t (UpLoop applied todo) = (applied \<subseteq> tab_ids \<and> dom (migrations m) \<subseteq> set todo \<union> tab_ids)"
| "call_ok m lg tab_ids t (UpRecord applied todo mg i) =
     (applied \<subseteq> tab_ids \<and> dom (migrations m) \<subseteq> {i} \<union> set todo \<union> tab_ids \<and> migrations m i = Some mg \<and> (t, i) \<in> set lg)"
| "call_ok m lg tab_ids t (UpReturned e) = (e = None \<longrightarrow> dom (migrations m) \<subseteq> tab_ids)"

definition cluster_inv :: "'d migrator \<Rightarrow> 'd \<Rightarrow> 'd cluster \<Rightarrow> bool" where
  "cluster_inv m d0 w \<longleftrightarrow> distinct (ids m (cdb w))
     \<and> (\<exists>did. tab m (cdb w) = tab m d0 @ map (record_of m) did \<and> set did \<subseteq> snd ` set (uplog w) \<inter> dom (migrations m))
     \<and> (\<forall>t. call_ok m (uplog w) (set (ids m (cdb w))) t (calls w t))"

lemma call_ok_mono: "call_ok m lg A t pc \<Longrightarrow> A \<subseteq> B \<Longrightarrow> set lg \<subseteq> set lg' \<Longrightarrow> call_ok m lg' B t pc"
  by (cases pc) auto

text \<open>An action changes the table only by the row of its own migration.\<close>

lemma up_action_tab:
  assumes "migrator_ok m" and "reads_ok (mdb m)" and "up_action m pc d = (pc', d')"
    and "call_ok m lg (set (ids m d)) t pc" and "pc \<noteq> UpIdle"
  shows "call_ok m (lg @ ran_now t pc pc') (set (ids m d')) t pc'
    \<and> (tab m d' = tab m d \<or> (\<exists>applied todo mg i. pc = UpRecord applied todo mg i \<and> tab m d' = tab m d @ [record_of m i]
         \<and> i \<notin> set (ids m d)))"
proof (cases pc)
  case (UpEnsure order)
  then show ?thesis using statements(1) [OF assms(1), of d] assms(3,4) by (auto split: prod.splits bool.splits)
next
  case (UpSelect order)
  then show ?thesis using statements(2) [OF assms(1), of d] getApplied_ids [OF assms(2), of d] assms(3,4)
    by (auto simp: ids_def dom_def subset_iff split: prod.splits option.splits)
next
  case (UpLoop applied todo)
  show ?thesis
  proof (cases todo)
    case Nil
    then show ?thesis using UpLoop assms(3,4) by auto
  next
    case (Cons i rest)
    have keep: "tab m e = tab m d" if "migrations m i = Some mg" "Up_fn mg = Some up" "up d = (b, e)" for mg up b e
    proof -
      have "keeps_table m (Up_fn mg)" using assms(1) that(1) by (simp add: migrator_ok_def)
      then show ?thesis using that(2,3) unfolding keeps_table_def by (metis snd_conv)
    qed
    have t: "tab m d' = tab m d"
      using UpLoop Cons assms(3) by (auto split: option.splits if_splits prod.splits bool.splits dest: keep)
    then have i: "ids m d' = ids m d" by (simp add: ids_def)
    have "call_ok m (lg @ ran_now t pc pc') (set (ids m d')) t pc'"
      unfolding i using UpLoop Cons assms(3,4)
      by (auto simp: dom_def subset_iff split: option.splits if_splits prod.splits bool.splits) (metis option.distinct(1))+
    with t show ?thesis by blast
  qed
next
  case (UpRecord applied todo mg i)
  have mg: "migrations m i = Some mg" using assms(4) UpRecord by simp
  then have rec: "mig_record mg = record_of m i" "row_id (mig_record mg) = i"
    using assms(1) by (simp_all add: record_of_def mig_record_def migrator_ok_def)
  have new: "i \<notin> set (ids m d)" if "fst (recordMigration m mg d)"
    using that assms(1) rec(2) unfolding migrator_ok_def db_ok_def recordMigration_def ids_def tab_def by auto
  show ?thesis using UpRecord assms(3,4) statements(4) [OF assms(1), of mg d] rec new
    by (auto simp: ids_def split: prod.splits bool.splits)
qed (use assms in auto)

lemma cluster_inv_init: "distinct (ids m d0) \<Longrightarrow> cluster_inv m d0 (cluster_init d0)"
  by (auto simp: cluster_inv_def cluster_init_def)

lemma cluster_inv_step:
  assumes "migrator_ok m" and "reads_ok (mdb m)" and "cluster_step m w w'" and inv: "cluster_inv m d0 w"
  shows "cluster_inv m d0 w'"
  using assms(3)
proof cases
  case (begin_up t order)
  with inv show ?thesis by (auto simp: cluster_inv_def)
next
  case (act t pc d)
  let ?lg = "uplog w @ ran_now t (calls w t) pc"
  have f: "cdb w' = d" "calls w' = (calls w)(t := pc)" "uplog w' = ?lg" using act(1) by simp_all
  have ok: "call_ok m (uplog w) (set (ids m (cdb w))) u (calls w u)" for u
    using inv by (simp add: cluster_inv_def)
  note step = up_action_tab [OF assms(1,2) act(3) ok act(2)]
  then have grow: "set (ids m (cdb w)) \<subseteq> set (ids m d)" by (auto simp: ids_def)
  have calls: "call_ok m ?lg (set (ids m d)) u (((calls w)(t := pc)) u)" for u
    using step call_ok_mono [OF ok [of u] grow, of ?lg] by (cases "u = t") simp_all
  obtain did where did: "tab m (cdb w) = tab m d0 @ map (record_of m) did"
      "set did \<subseteq> snd ` set (uplog w) \<inter> dom (migrations m)"
    using inv unfolding cluster_inv_def by blast
  from step consider "tab m d = tab m (cdb w)"
    | applied todo mg i where "calls w t = UpRecord applied todo mg i" "tab m d = tab m (cdb w) @ [record_of m i]"
        "i \<notin> set (ids m (cdb w))" by blast
  then have "distinct (ids m d) \<and> (\<exists>did. tab m d = tab m d0 @ map (record_of m) did
      \<and> set did \<subseteq> snd ` set ?lg \<inter> dom (migrations m))"
  proof cases
    case 1
    moreover have "distinct (ids m d)" using inv 1 by (simp add: cluster_inv_def ids_def)
    ultimately show ?thesis using did by (intro conjI exI [of _ did]) auto
  next
    case 2
    have i: "migrations m i = Some mg" "(t, i) \<in> set (uplog w)" using ok [of t] 2(1) by simp_all
    then have "row_id (record_of m i) = i" using assms(1) by (simp add: record_of_def mig_record_def migrator_ok_def)
    then have "distinct (ids m d)" using inv 2 by (simp add: cluster_inv_def ids_def)
    moreover have "i \<in> snd ` set (uplog w)" using i(2) by force
    ultimately show ?thesis using did i(1) 2(2) by (intro conjI exI [of _ "did @ [i]"]) auto
  qed
  then show ?thesis using calls unfolding cluster_inv_def f by blast
qed

interpretation cluster: guarded_system "\<lambda>w. migrator_ok m \<and> reads_ok (mdb m) \<and> distinct (ids m d0) \<and> w = cluster_init d0"
    "cluster_step m" "\<lambda>w. migrator_ok m \<and> reads_ok (mdb m) \<and> cluster_inv m d0 w" for m d0
proof
  show "migrator_ok m \<and> reads_ok (mdb m) \<and> cluster_inv m d0 w"
    if "migrator_ok m \<and> reads_ok (mdb m) \<and> distinct (ids m d0) \<and> w = cluster_init d0" for m :: "'a migrator" and d0 w
    using that by (simp add: cluster_inv_init)
  show "migrator_ok m \<and> reads_ok (mdb m) \<and> cluster_inv m d0 w'"
    if "cluster_step m w w'" "migrator_ok m \<and> reads_ok (mdb m) \<and> cluster_inv m d0 w" for m :: "'a migrator" and d0 w w'
    using that cluster_inv_step [of m w w' d0] by simp
qed

definition cluster_reach :: "'d migrator \<Rightarrow> 'd \<Rightarrow> 'd cluster \<Rightarrow> bool" where
  "cluster_reach m d0 w \<longleftrightarrow> (cluster_step m)\<^sup>*\<^sup>* (cluster_init d0) w"

lemma cluster_reach_inv:
  assumes "migrator_ok m" and "reads_ok (mdb m)" and "distinct (ids m d0)" and "cluster_reach m d0 w"
  shows "cluster_inv m d0 w"
  using cluster.inv_reachable [of m d0 "cluster_init d0" w] assms by (simp add: cluster_reach_def)

section \<open>Properties\<close>

text \<open>C5: Concurrent calls of \<open>Up\<close>. However the statements of any number of calls are interleaved, the ids in
  the migration table stay distinct, the table only grows, and only by rows of registered migrations that
  have run; and whenever a call has returned \<open>nil\<close>, every registered migration is in the table. A call
  alone is \<open>Up\<close>: its actions, at most three and two for each key of the map, end in the result of \<open>Up\<close>.
\<close>

theorem concurrent_Up_records_each_once:
  assumes "migrator_ok m" and "reads_ok (mdb m)" and "distinct (ids m d0)" and "cluster_reach m d0 w"
  shows "distinct (ids m (cdb w))
     \<and> (\<exists>did. tab m (cdb w) = tab m d0 @ map (record_of m) did \<and> set did \<subseteq> snd ` set (uplog w) \<inter> dom (migrations m))
     \<and> (\<forall>t. calls w t = UpReturned None \<longrightarrow> dom (migrations m) \<subseteq> set (ids m (cdb w)))
     \<and> (\<exists>n \<le> 2 * length order + 3.
          alone m n (UpEnsure order, d) = (UpReturned (fst (Up m order d)), snd (Up m order d)))"
proof -
  have inv: "cluster_inv m d0 w" by (rule cluster_reach_inv [OF assms])
  then have "call_ok m (uplog w) (set (ids m (cdb w))) t (calls w t)" for t by (simp add: cluster_inv_def)
  then have "calls w t = UpReturned None \<longrightarrow> dom (migrations m) \<subseteq> set (ids m (cdb w))" for t
    by (metis call_ok.simps(6))
  then show ?thesis using inv alone_is_Up [of order m d] unfolding cluster_inv_def by blast
qed

section \<open>Runs\<close>

lemma cluster_act:
  assumes "cluster_reach m d0 w" and "calls w t \<noteq> UpIdle" and "up_action m (calls w t) (cdb w) = (pc, d)"
  shows "cluster_reach m d0 (w\<lparr>cdb := d, calls := (calls w)(t := pc), uplog := uplog w @ ran_now t (calls w t) pc\<rparr>)"
  using assms(1) act [OF assms(2,3)] unfolding cluster_reach_def by (rule rtranclp.rtrancl_into_rtrancl)

lemma cluster_begin:
  assumes "cluster_reach m d0 w" and "calls w t = UpIdle" and "set order = dom (migrations m)"
  shows "cluster_reach m d0 (w\<lparr>calls := (calls w)(t := UpEnsure order)\<rparr>)"
  using assms(1) begin_up [OF assms(2,3)] unfolding cluster_reach_def by (rule rtranclp.rtrancl_into_rtrancl)

text \<open>Two calls on a new database with one migration, which counts how often it runs.\<close>

definition counter :: "small migrator" where
  "counter = AddFunc ''a'' ''add'' (Some (\<lambda>d. (True, (fst d, snd d + 1)))) None (NewMigrator small_db '''')"

lemma counter_fields:
  "mdb counter = small_db" "dom (migrations counter) = {''a''}" "tab counter d = fst d"
  by (auto simp: counter_def AddFunc_def Add_def NewMigrator_def tab_def small_db_def row_db_def split: if_splits)

lemma counter_ok: "migrator_ok counter" "reads_ok (mdb counter)"
  using small_db_ok unfolding migrator_ok_def keeps_table_def counter_fields
  by (auto simp: counter_def AddFunc_def Add_def NewMigrator_def split: if_splits)

definition counter_mg :: "small migration" where
  "counter_mg = \<lparr>ID = ''a'', Up_fn = Some (\<lambda>d. (True, (fst d, snd d + 1))), Down_fn = None, MComment = ''add''\<rparr>"

lemma counter_actions:
  "up_action counter (UpEnsure order) d = (UpSelect order, d)"
  "up_action counter (UpSelect order) ([], k) = (UpLoop {} order, ([], k))"
  "up_action counter (UpLoop {} [''a'']) ([], k) = (UpRecord {} [] counter_mg ''a'', ([], k + 1))"
  "up_action counter (UpRecord {} [] counter_mg ''a'') ([], k) = (UpLoop {} [], ([mig_record counter_mg], k))"
  "up_action counter (UpRecord {} [] counter_mg ''a'') ([mig_record counter_mg], k)
     = (UpReturned (Some (RecordFailed ''a'')), ([mig_record counter_mg], k))"
  by (simp_all add: counter_def counter_mg_def AddFunc_def Add_def NewMigrator_def small_db_def row_db_def
      ensureMigrationTable_def getAppliedMigrations_def recordMigration_def mig_record_def)

definition pair :: "small up_pc \<Rightarrow> small up_pc \<Rightarrow> nat \<Rightarrow> small up_pc" where
  "pair p q = (\<lambda>_. UpIdle)(0 := p, 1 := q)"

lemma pair_upd: "(pair p q) 0 = p" "(pair p q) 1 = q" "(pair p q)(0 := x) = pair x q" "(pair p q)(1 := y) = pair p y"
  "(pair p q) (Suc 0) = q" "(pair p q)(Suc 0 := y) = pair p y" "(\<lambda>_. UpIdle)(0 := x) = pair x UpIdle"
  by (simp_all add: pair_def fun_eq_iff)

definition two_calls :: "small up_pc \<Rightarrow> small up_pc \<Rightarrow> small \<Rightarrow> (nat \<times> string) list \<Rightarrow> small cluster" where
  "two_calls p q d lg = \<lparr>cdb = d, calls = pair p q, uplog = lg\<rparr>"

lemma act0:
  assumes "cluster_reach counter d0 (two_calls p q d lg)" and "p \<noteq> UpIdle" and "up_action counter p d = (p', d')"
  shows "cluster_reach counter d0 (two_calls p' q d' (lg @ ran_now 0 p p'))"
  using cluster_act [OF assms(1), of 0 p' d'] assms(2,3) by (simp add: two_calls_def pair_upd)

lemma act1:
  assumes "cluster_reach counter d0 (two_calls p q d lg)" and "q \<noteq> UpIdle" and "up_action counter q d = (q', d')"
  shows "cluster_reach counter d0 (two_calls p q' d' (lg @ ran_now 1 q q'))"
  using cluster_act [OF assms(1), of 1 q' d'] assms(2,3) by (simp add: two_calls_def pair_upd)

lemma two_began: "cluster_reach counter ([], 0) (two_calls (UpEnsure [''a'']) (UpEnsure [''a'']) ([], 0) [])"
proof -
  have "cluster_reach counter ([], 0) (cluster_init ([], 0))" by (simp add: cluster_reach_def)
  from cluster_begin [OF this, of 0 "[''a'']"]
  have "cluster_reach counter ([], 0) (two_calls (UpEnsure [''a'']) UpIdle ([], 0) [])"
    by (simp add: cluster_init_def counter_fields two_calls_def pair_upd)
  from cluster_begin [OF this, of 1 "[''a'']"] show ?thesis
    by (simp add: counter_fields two_calls_def pair_upd)
qed

text \<open>Both calls read the table before either has run its migration.\<close>

lemma both_read: "cluster_reach counter ([], 0) (two_calls (UpLoop {} [''a'']) (UpLoop {} [''a'']) ([], 0) [])"
proof -
  note a = act0 [OF two_began _ counter_actions(1), simplified]
  note b = act0 [OF a _ counter_actions(2), simplified]
  note c = act1 [OF b _ counter_actions(1), simplified]
  show ?thesis using act1 [OF c _ counter_actions(2)] by simp
qed

text \<open>A migration may run twice: two calls of \<open>Up\<close> on a new database both read the table before either has
  run the migration, so both run it; the first then records it and returns \<open>nil\<close>, and the second, which
  has run it too, fails to record it. The table shows one run.
\<close>

theorem concurrent_Up_runs_twice:
  "\<exists>w. cluster_reach counter ([], 0) w \<and> uplog w = [(0, ''a''), (1, ''a'')] \<and> calls w 0 = UpReturned None
     \<and> calls w 1 = UpReturned (Some (RecordFailed ''a'')) \<and> ids counter (cdb w) = [''a''] \<and> snd (cdb w) = 2"
proof -
  note a = act0 [OF both_read _ counter_actions(3), simplified]
  note b = act1 [OF a _ counter_actions(3), simplified]
  note c = act0 [OF b _ counter_actions(4), simplified]
  note d = act1 [OF c _ counter_actions(5), simplified]
  have e: "up_action counter (UpLoop {} []) d = (UpReturned None, d)" for d by simp
  note f = act0 [OF d _ e, simplified]
  show ?thesis
    by (intro exI conjI) (rule f, simp_all add: two_calls_def pair_def ids_def counter_fields mig_record_def counter_mg_def)
qed

theorem concurrent_Up_records_each_once_witness:
  "\<exists>w. cluster_reach counter ([], 0) w \<and> distinct (ids counter (cdb w)) \<and> {''a''} \<subseteq> set (ids counter (cdb w))"
proof -
  obtain w where w: "cluster_reach counter ([], 0) w" "calls w 0 = UpReturned None"
    using concurrent_Up_runs_twice by blast
  have "distinct (ids counter ([], 0))" by (simp add: ids_def counter_fields)
  from concurrent_Up_records_each_once [OF counter_ok this w(1)] w show ?thesis unfolding counter_fields by blast
qed

end
