(* ===== verification/Migrator_Pool.thy ===== *)
theory Migrator_Pool
  imports Migrator_Props
begin

text \<open>
  The migrator (\<open>data/db/pg/migrate/migration.go\<close>) on a pool with few connections. A statement takes a
  connection from the pool and waits until there is one; a query holds its connection until its rows are
  closed, by \<open>rows.Close\<close>, by the \<open>rows.Next\<close> that finds no more of them or by a failed scan. The calls here are alone on
  the pool, so a call that waits for a connection while it holds them all waits for ever: that is \<open>None\<close>.
\<close>

section \<open>Connections\<close>

text \<open>\<open>free\<close> is how many connections the pool can still give, \<open>n\<close> how many a piece of work needs at a time.\<close>

definition with_conns :: "nat \<Rightarrow> nat \<Rightarrow> 'r \<Rightarrow> 'r option" where
  "with_conns free n r = (if n \<le> free then Some r else None)"

lemma with_conns_simps [simp]:
  "n \<le> free \<Longrightarrow> with_conns free n r = Some r" "free < n \<Longrightarrow> with_conns free n r = None"
  by (simp_all add: with_conns_def)

text \<open>The connections that the functions of a migration use at a time, up and down.\<close>

record fn_needs =
  up_conns :: "string \<Rightarrow> nat"
  down_conns :: "string \<Rightarrow> nat"

definition one_at_a_time :: "fn_needs \<Rightarrow> bool" where
  "one_at_a_time need \<longleftrightarrow> (\<forall>i. up_conns need i \<le> 1 \<and> down_conns need i \<le> 1)"

section \<open>The operations on a pool\<close>

fun pooled_up_loop :: "fn_needs \<Rightarrow> nat \<Rightarrow> 'd migrator \<Rightarrow> string set \<Rightarrow> string list \<Rightarrow> 'd \<Rightarrow> (mig_error option \<times> 'd) option" where
  "pooled_up_loop need free m applied [] d = Some (None, d)"
| "pooled_up_loop need free m applied (i # todo) d =
     (case migrations m i of
        None \<Rightarrow> pooled_up_loop need free m applied todo d
      | Some mg \<Rightarrow>
          if i \<in> applied then pooled_up_loop need free m applied todo d
          else case Up_fn mg of
              None \<Rightarrow> Some (Some NilUpPanic, d)
            | Some up \<Rightarrow> (case with_conns free (up_conns need i) (up d) of
                None \<Rightarrow> None
              | Some (False, d1) \<Rightarrow> Some (Some (RunFailed i), d1)
              | Some (True, d1) \<Rightarrow> (case with_conns free 1 (recordMigration m mg d1) of
                  None \<Rightarrow> None
                | Some (False, d2) \<Rightarrow> Some (Some (RecordFailed i), d2)
                | Some (True, d2) \<Rightarrow> pooled_up_loop need free m applied todo d2)))"

text \<open>\<open>getAppliedMigrations\<close> closes its rows when it returns, so the loop has the whole pool.\<close>

definition pooled_Up :: "fn_needs \<Rightarrow> nat \<Rightarrow> 'd migrator \<Rightarrow> string list \<Rightarrow> 'd \<Rightarrow> (mig_error option \<times> 'd) option" where
  "pooled_Up need cap m order d = (case with_conns cap 1 (ensureMigrationTable m d) of
     None \<Rightarrow> None
   | Some (False, d1) \<Rightarrow> Some (Some EnsureFailed, d1)
   | Some (True, d1) \<Rightarrow> (case with_conns cap 1 (getAppliedMigrations m d1) of
       None \<Rightarrow> None
     | Some (None, d2) \<Rightarrow> Some (Some GetAppliedFailed, d2)
     | Some (Some applied, d2) \<Rightarrow> pooled_up_loop need cap m applied order d2))"

definition pooled_rollback :: "fn_needs \<Rightarrow> nat \<Rightarrow> 'd migrator \<Rightarrow> string \<Rightarrow> 'd \<Rightarrow> (mig_error option \<times> 'd) option" where
  "pooled_rollback need free m i d = (case migrations m i of
     None \<Rightarrow> Some (Some (NotRegistered i), d)
   | Some mg \<Rightarrow> (case Down_fn mg of
       None \<Rightarrow> Some (Some (NoDownFunction i), d)
     | Some down \<Rightarrow> (case with_conns free (down_conns need i) (down d) of
         None \<Rightarrow> None
       | Some (False, d1) \<Rightarrow> Some (Some (RollbackFailed i), d1)
       | Some (True, d1) \<Rightarrow> (case with_conns free 1 (removeMigrationRecord m i d1) of
           None \<Rightarrow> None
         | Some (False, d2) \<Rightarrow> Some (Some (RemoveFailed i), d2)
         | Some (True, d2) \<Rightarrow> Some (None, d2)))))"

fun pooled_rollback_loop :: "fn_needs \<Rightarrow> nat \<Rightarrow> 'd migrator \<Rightarrow> string list \<Rightarrow> 'd \<Rightarrow> (mig_error option \<times> 'd) option" where
  "pooled_rollback_loop need free m [] d = Some (None, d)"
| "pooled_rollback_loop need free m (i # todo) d = (case pooled_rollback need free m i d of
     None \<Rightarrow> None
   | Some (Some e, d1) \<Rightarrow> Some (Some e, d1)
   | Some (None, d1) \<Rightarrow> pooled_rollback_loop need free m todo d1)"

text \<open>The scan of \<open>QueryRow\<close> gives its connection back.\<close>

definition pooled_Down :: "fn_needs \<Rightarrow> nat \<Rightarrow> 'd migrator \<Rightarrow> 'd \<Rightarrow> (mig_error option \<times> 'd) option" where
  "pooled_Down need cap m d = (case with_conns cap 1 (ensureMigrationTable m d) of
     None \<Rightarrow> None
   | Some (False, d1) \<Rightarrow> Some (Some EnsureFailed, d1)
   | Some (True, d1) \<Rightarrow> (case with_conns cap 1 (select_desc (mdb m) (tableName m) d1) of
       None \<Rightarrow> None
     | Some (Some (Some lastMigrationID # _), d2) \<Rightarrow> pooled_rollback need cap m lastMigrationID d2
     | Some (_, d2) \<Rightarrow> Some (Some NothingToRollback, d2)))"

text \<open>
  \<open>DownTo\<close> leaves the loop over the rows at the target, before the last \<open>rows.Next\<close>, and closes the rows only when
  it returns: it rolls back with one connection less.
\<close>

definition pooled_DownTo :: "fn_needs \<Rightarrow> nat \<Rightarrow> 'd migrator \<Rightarrow> string \<Rightarrow> 'd \<Rightarrow> (mig_error option \<times> 'd) option" where
  "pooled_DownTo need cap m targetID d = (case with_conns cap 1 (ensureMigrationTable m d) of
     None \<Rightarrow> None
   | Some (False, d1) \<Rightarrow> Some (Some EnsureFailed, d1)
   | Some (True, d1) \<Rightarrow> (case with_conns cap 1 (select_desc (mdb m) (tableName m) d1) of
       None \<Rightarrow> None
     | Some (None, d2) \<Rightarrow> Some (Some QueryFailed, d2)
     | Some (Some rows, d2) \<Rightarrow> (case scan_to targetID rows of
         None \<Rightarrow> Some (Some ScanFailed, d2)
       | Some (toRollback, foundTarget) \<Rightarrow>
           if \<not> foundTarget then Some (Some (TargetNotFound targetID), d2)
           else pooled_rollback_loop need (cap - 1) m toRollback d2)))"

text \<open>The loop of \<open>Reset\<close> goes through all rows, so its last \<open>rows.Next\<close> has closed them.\<close>

definition pooled_Reset :: "fn_needs \<Rightarrow> nat \<Rightarrow> 'd migrator \<Rightarrow> 'd \<Rightarrow> (mig_error option \<times> 'd) option" where
  "pooled_Reset need cap m d = (case with_conns cap 1 (ensureMigrationTable m d) of
     None \<Rightarrow> None
   | Some (False, d1) \<Rightarrow> Some (Some EnsureFailed, d1)
   | Some (True, d1) \<Rightarrow> (case with_conns cap 1 (select_desc (mdb m) (tableName m) d1) of
       None \<Rightarrow> None
     | Some (None, d2) \<Rightarrow> Some (Some QueryFailed, d2)
     | Some (Some rows, d2) \<Rightarrow> (case scan_rows rows of
         None \<Rightarrow> Some (Some ScanFailed, d2)
       | Some toRollback \<Rightarrow> pooled_rollback_loop need cap m toRollback d2)))"

definition pooled_Status :: "nat \<Rightarrow> 'd migrator \<Rightarrow> string list \<Rightarrow> 'd \<Rightarrow> ((mig_error + mig_status list) \<times> 'd) option" where
  "pooled_Status cap m order d = (case with_conns cap 1 (ensureMigrationTable m d) of
     None \<Rightarrow> None
   | Some (False, d1) \<Rightarrow> Some (Inl EnsureFailed, d1)
   | Some (True, d1) \<Rightarrow> (case with_conns cap 1 (select_rows (mdb m) (tableName m) d1) of
       None \<Rightarrow> None
     | Some (None, d2) \<Rightarrow> Some (Inl QueryFailed, d2)
     | Some (Some rows, d2) \<Rightarrow> (case scan_rows rows of
         None \<Rightarrow> Some (Inl ScanFailed, d2)
       | Some rs \<Rightarrow> Some (Inr (concat (map (status_of m (applied_map rs)) order)), d2))))"

section \<open>With enough connections\<close>

lemma needs_one:
  assumes "one_at_a_time need" and "1 \<le> free"
  shows "with_conns free (up_conns need i) r = Some r" "with_conns free (down_conns need i) r = Some r"
    "with_conns free 1 r = Some r" "with_conns free (Suc 0) r = Some r"
proof -
  have "up_conns need i \<le> free" "down_conns need i \<le> free"
    using assms unfolding one_at_a_time_def by (meson order_trans)+
  with assms(2) show "with_conns free (up_conns need i) r = Some r" "with_conns free (down_conns need i) r = Some r"
    "with_conns free 1 r = Some r" "with_conns free (Suc 0) r = Some r" by simp_all
qed

lemma pooled_up_loop_eq:
  assumes "one_at_a_time need" and "1 \<le> free"
  shows "pooled_up_loop need free m applied todo d = Some (up_loop m applied todo d)"
  by (induction m applied todo d rule: up_loop.induct)
    (simp_all add: needs_one [OF assms] split: option.splits prod.splits bool.splits)

lemma pooled_rollback_eq:
  assumes "one_at_a_time need" and "1 \<le> free"
  shows "pooled_rollback need free m i d = Some (rollback m i d)"
  by (simp add: pooled_rollback_def rollback_def needs_one [OF assms] split: option.splits prod.splits bool.splits)

lemma pooled_rollback_loop_eq:
  assumes "one_at_a_time need" and "1 \<le> free"
  shows "pooled_rollback_loop need free m todo d = Some (rollback_loop m todo d)"
  by (induction m todo d rule: rollback_loop.induct)
    (simp_all add: pooled_rollback_eq [OF assms] split: option.splits prod.splits)

text \<open>Of all calls only \<open>DownTo\<close> needs a second connection.\<close>

lemma pooled_Up_eq:
  assumes "one_at_a_time need" and "1 \<le> cap"
  shows "pooled_Up need cap m order d = Some (Up m order d)"
  by (simp add: pooled_Up_def Up_def needs_one [OF assms] pooled_up_loop_eq [OF assms] split: option.splits prod.splits bool.splits)

lemma pooled_Down_eq:
  assumes "one_at_a_time need" and "1 \<le> cap"
  shows "pooled_Down need cap m d = Some (Down m d)"
  by (simp add: pooled_Down_def Down_def needs_one [OF assms] pooled_rollback_eq [OF assms]
      split: option.splits prod.splits bool.splits list.splits)

lemma pooled_Reset_eq:
  assumes "one_at_a_time need" and "1 \<le> cap"
  shows "pooled_Reset need cap m d = Some (Reset m d)"
  by (auto simp: pooled_Reset_def Reset_def needs_one [OF assms] pooled_rollback_loop_eq [OF assms]
      split: option.splits prod.splits bool.splits)

lemma pooled_Status_eq: "1 \<le> cap \<Longrightarrow> pooled_Status cap m order d = Some (Status m order d)"
  by (auto simp: pooled_Status_def Status_def split: option.splits prod.splits bool.splits)

lemma pooled_DownTo_eq:
  assumes "one_at_a_time need" and "2 \<le> cap"
  shows "pooled_DownTo need cap m target d = Some (DownTo m target d)"
proof -
  have c: "1 \<le> cap" using assms(2) by simp
  have l: "pooled_rollback_loop need (cap - Suc 0) m todo d' = Some (rollback_loop m todo d')" for todo d'
    using assms(2) by (intro pooled_rollback_loop_eq [OF assms(1)]) simp
  show ?thesis
    by (auto simp: pooled_DownTo_def DownTo_def needs_one [OF assms(1) c] l split: option.splits prod.splits bool.splits)
qed

section \<open>With one connection\<close>

text \<open>Without a connection a rollback that returns has failed before it removed a row.\<close>

lemma pooled_rollback_starved:
  assumes "pooled_rollback need 0 m i d = Some r"
  shows "r = rollback m i d \<and> fst r \<noteq> None"
proof (cases "migrations m i")
  case (Some mg)
  show ?thesis
  proof (cases "Down_fn mg")
    case dn: (Some dn)
    obtain b d1 where "dn d = (b, d1)" by fastforce
    then show ?thesis using assms Some dn
      by (cases b) (auto simp: pooled_rollback_def rollback_def with_conns_def split: if_splits)
  qed (use assms Some in \<open>auto simp: pooled_rollback_def rollback_def\<close>)
qed (use assms in \<open>auto simp: pooled_rollback_def rollback_def\<close>)

lemma rollback_loop_starved:
  assumes "migrator_ok m" and "pooled_rollback_loop need 0 m todo d = Some r"
  shows "r = rollback_loop m todo d \<and> tab m (snd r) = tab m d"
proof (cases todo)
  case (Cons i rest)
  with assms(2) obtain q where q: "pooled_rollback need 0 m i d = Some q" by (auto split: option.splits)
  obtain e d1 where e: "q = (Some e, d1)"
    using pooled_rollback_starved [OF q] by (metis option.exhaust prod.collapse)
  then have "rollback m i d = (Some e, d1)" using pooled_rollback_starved [OF q] by simp
  with e q Cons assms(2) rollback_table [OF assms(1), of i d] show ?thesis by auto
qed (use assms in auto)

lemma pooled_DownTo_starved:
  assumes ok: "migrator_ok m" and r: "pooled_DownTo need 1 m target d = Some r"
  shows "r = DownTo m target d \<and> tab m (snd r) = tab m d"
proof -
  obtain a d1 where e: "ensureMigrationTable m d = (a, d1)" by fastforce
  obtain q d2 where s: "select_desc (mdb m) (tableName m) d1 = (q, d2)" by fastforce
  have t: "tab m d1 = tab m d" "tab m d2 = tab m d"
    using statements(1) [OF ok, of d] statements(3) [OF ok, of d1] e s by simp_all
  show ?thesis
  proof (cases "\<exists>rows todo. a \<and> q = Some rows \<and> scan_to target rows = Some (todo, True)")
    case True
    then obtain rows todo where g: "a" "q = Some rows" "scan_to target rows = Some (todo, True)" by blast
    then have "pooled_rollback_loop need 0 m todo d2 = Some r" using r by (simp add: pooled_DownTo_def e s)
    note l = rollback_loop_starved [OF ok this]
    have "DownTo m target d = rollback_loop m todo d2" using g by (simp add: DownTo_def e s)
    then show ?thesis using l [THEN conjunct1] l [THEN conjunct2] t(2) by metis
  next
    case False
    then show ?thesis using r t
      by (cases a; cases q) (auto simp: pooled_DownTo_def DownTo_def e s split: option.splits prod.splits)
  qed
qed

section \<open>Properties\<close>

text \<open>C13: How many connections the migrator needs. When the functions of the migrations use one connection at a
  time, \<open>Up\<close>, \<open>Down\<close>, \<open>Reset\<close> and \<open>Status\<close> do on any pool what they do on an unlimited one, and so does \<open>DownTo\<close> on
  a pool of two connections. On a pool of one connection \<open>DownTo\<close>, which keeps its rows open while it rolls
  back, waits for ever in every case in which it would have changed the table.
\<close>

theorem only_DownTo_needs_two_connections:
  assumes "one_at_a_time need" and "1 \<le> cap" and "migrator_ok m"
  shows "pooled_Up need cap m order d = Some (Up m order d)
    \<and> pooled_Down need cap m d = Some (Down m d)
    \<and> pooled_Reset need cap m d = Some (Reset m d)
    \<and> pooled_Status cap m order d = Some (Status m order d)
    \<and> (2 \<le> cap \<longrightarrow> pooled_DownTo need cap m target d = Some (DownTo m target d))
    \<and> pooled_DownTo need 1 m target d \<in> {None, Some (DownTo m target d)}
    \<and> (tab m (snd (DownTo m target d)) \<noteq> tab m d \<longrightarrow> pooled_DownTo need 1 m target d = None)"
proof -
  have "pooled_DownTo need 1 m target d \<in> {None, Some (DownTo m target d)}
    \<and> (tab m (snd (DownTo m target d)) \<noteq> tab m d \<longrightarrow> pooled_DownTo need 1 m target d = None)"
    using pooled_DownTo_starved [OF assms(3), of need target d]
    by (cases "pooled_DownTo need 1 m target d") auto
  then show ?thesis
    by (intro conjI impI) (simp_all only: simp_thms pooled_Up_eq [OF assms(1,2)] pooled_Down_eq [OF assms(1,2)]
      pooled_Reset_eq [OF assms(1,2)] pooled_Status_eq [OF assms(2)] pooled_DownTo_eq [OF assms(1)])
qed

theorem only_DownTo_needs_two_connections_witness:
  "pooled_Up \<lparr>up_conns = \<lambda>_. 1, down_conns = \<lambda>_. 1\<rparr> 1 (small_migrator small_db) [''a'', ''b''] ([], 5)
     = Some (Up (small_migrator small_db) [''a'', ''b''] ([], 5))
   \<and> pooled_DownTo \<lparr>up_conns = \<lambda>_. 1, down_conns = \<lambda>_. 1\<rparr> 1 (small_migrator small_db) ''a''
       ([\<lparr>row_id = ''a'', row_comment = ''add''\<rparr>, \<lparr>row_id = ''b'', row_comment = ''double''\<rparr>], 12) = None"
proof -
  let ?need = "\<lparr>up_conns = \<lambda>_. 1, down_conns = \<lambda>_. 1\<rparr>"
  let ?d = "([\<lparr>row_id = ''a'', row_comment = ''add''\<rparr>, \<lparr>row_id = ''b'', row_comment = ''double''\<rparr>], 12) :: small"
  have n: "one_at_a_time ?need" by (simp add: one_at_a_time_def)
  have "snd (DownTo (small_migrator small_db) ''a'' ?d) = ([\<lparr>row_id = ''a'', row_comment = ''add''\<rparr>], 6)"
    by (simp add: small_eval)
  then have "tab (small_migrator small_db) (snd (DownTo (small_migrator small_db) ''a'' ?d)) \<noteq> tab (small_migrator small_db) ?d"
    unfolding small_migrator_fields(3) by simp
  with only_DownTo_needs_two_connections [OF n order_refl small_migrator_ok, of "[''a'', ''b'']" "([], 5)"]
    only_DownTo_needs_two_connections [OF n order_refl small_migrator_ok, of "[]" ?d "''a''"]
  show ?thesis by blast
qed

end
