(* ===== verification/File_Migrator_Model.thy ===== *)
theory File_Migrator_Model
  imports Migrator_Model Go_Strings "HOL-Library.Char_ord" "HOL-Library.List_Lexorder"
begin

text \<open>
  File-based migrations (\<open>data/db/pg/migrate/file_migrator.go\<close>): finding the migration files of a
  directory, registering them, running the statements of a file, and creating a pair of files. The
  operating system and the database are one world \<open>'d\<close> with the calls that the code makes.
\<close>

section \<open>The world\<close>

text \<open>
  \<open>missing\<close>: \<open>os.Stat\<close> says that the path does not exist; \<open>mkdir_all\<close>, \<open>write_file\<close>: success and the new
  world; \<open>walk\<close>: the path, base name and kind (directory?) of the entries that \<open>WalkDir\<close> visits, \<open>None\<close> when it meets an
  error; \<open>read_path\<close>: \<open>os.ReadFile\<close>; \<open>exec_stmt\<close>: \<open>ExecContext\<close>; \<open>unix_now\<close> and \<open>time_text\<close>: the time.
\<close>

record 'd world =
  missing :: "string \<Rightarrow> 'd \<Rightarrow> bool"
  mkdir_all :: "string \<Rightarrow> 'd \<Rightarrow> bool \<times> 'd"
  walk :: "string \<Rightarrow> 'd \<Rightarrow> (string \<times> string \<times> bool) list option"
  read_path :: "string \<Rightarrow> 'd \<Rightarrow> string option"
  write_file :: "string \<Rightarrow> string \<Rightarrow> 'd \<Rightarrow> bool \<times> 'd"
  exec_stmt :: "string \<Rightarrow> 'd \<Rightarrow> bool \<times> 'd"
  unix_now :: "'d \<Rightarrow> int"
  time_text :: "'d \<Rightarrow> string"

record 'd file_migrator =
  fm_migrator :: "'d migrator"
  migrationsDir :: string

definition NewFileMigrator :: "'d database \<Rightarrow> string \<Rightarrow> string \<Rightarrow> 'd file_migrator" where
  "NewFileMigrator db dir tn = \<lparr>fm_migrator = NewMigrator db tn, migrationsDir = dir\<rparr>"

record MigrationFile =
  mf_ID :: string
  UpPath :: string
  DownPath :: string
  mf_Comment :: string

datatype file_error =
    MkdirFailed
  | WalkFailed
  | ReadFileFailed string
  | StatementFailed string string
  | WriteFailed string

section \<open>Finding migration files\<close>

text \<open>
  The pattern \<open>^(\d+)_([^.]+)\.(up|down)\.sql$\<close>: timestamp, name, and whether it is the up direction.
  The digits end at the underscore and the name at the first dot, so there is one way to match.
\<close>

definition parse_name :: "string \<Rightarrow> (string \<times> string \<times> bool) option" where
  "parse_name s =
     (let timestamp = takeWhile is_digit s; r = dropWhile is_digit s in
      if timestamp = [] then None
      else case r of
          [] \<Rightarrow> None
        | u # r1 \<Rightarrow>
            if u \<noteq> CHR ''_'' then None
            else let name = takeWhile (\<lambda>c. c \<noteq> CHR ''.'') r1; suffix = dropWhile (\<lambda>c. c \<noteq> CHR ''.'') r1 in
              if name = [] then None
              else if suffix = ''.up.sql'' then Some (timestamp, name, True)
              else if suffix = ''.down.sql'' then Some (timestamp, name, False)
              else None)"

definition underscores_to_spaces :: "string \<Rightarrow> string" where
  "underscores_to_spaces s = replace_all s ''_'' '' ''"

text \<open>The function given to \<open>WalkDir\<close>, on the map of files found so far.\<close>

definition visit :: "(string \<rightharpoonup> MigrationFile) \<Rightarrow> string \<times> string \<times> bool \<Rightarrow> (string \<rightharpoonup> MigrationFile)" where
  "visit m entry = (case entry of (path, base, is_dir) \<Rightarrow>
     if is_dir then m
     else case parse_name base of
         None \<Rightarrow> m
       | Some (timestamp, name, up) \<Rightarrow>
           (let i = timestamp @ ''_'' @ name;
                f = (case m i of
                       None \<Rightarrow> \<lparr>mf_ID = i, UpPath = [], DownPath = [], mf_Comment = underscores_to_spaces name\<rparr>
                     | Some f \<Rightarrow> f)
            in m(i \<mapsto> (if up then f\<lparr>UpPath := path\<rparr> else f\<lparr>DownPath := path\<rparr>))))"

definition visit_all :: "(string \<times> string \<times> bool) list \<Rightarrow> string \<rightharpoonup> MigrationFile" where
  "visit_all entries = foldl visit Map.empty entries"

text \<open>\<open>order\<close> is the order of the map of files; \<open>sort.Slice\<close> sorts by ID, and no two files have the same ID.\<close>

definition found_files :: "string list \<Rightarrow> (string \<rightharpoonup> MigrationFile) \<Rightarrow> MigrationFile list" where
  "found_files order m = sort_key mf_ID
     (concat (map (\<lambda>i. case m i of None \<Rightarrow> [] | Some f \<Rightarrow> if UpPath f \<noteq> [] then [f] else []) order))"

definition findMigrationFiles ::
  "'d world \<Rightarrow> string list \<Rightarrow> 'd file_migrator \<Rightarrow> 'd \<Rightarrow> file_error + MigrationFile list" where
  "findMigrationFiles w order fm d = (case walk w (migrationsDir fm) d of
     None \<Rightarrow> Inl WalkFailed
   | Some entries \<Rightarrow> Inr (found_files order (visit_all entries)))"

definition ensureMigrationsDir :: "'d world \<Rightarrow> 'd file_migrator \<Rightarrow> 'd \<Rightarrow> file_error option \<times> 'd" where
  "ensureMigrationsDir w fm d =
     (if missing w (migrationsDir fm) d
      then (case mkdir_all w (migrationsDir fm) d of (ok, d') \<Rightarrow> (if ok then None else Some MkdirFailed, d'))
      else (None, d))"

section \<open>Running a file\<close>

fun exec_statements :: "'d world \<Rightarrow> string \<Rightarrow> string list \<Rightarrow> 'd \<Rightarrow> file_error option \<times> 'd" where
  "exec_statements w path [] d = (None, d)"
| "exec_statements w path (s # ss) d =
     (let stmt = trim_space s in
      if stmt = [] then exec_statements w path ss d
      else case exec_stmt w stmt d of
          (False, d') \<Rightarrow> (Some (StatementFailed path stmt), d')
        | (True, d') \<Rightarrow> exec_statements w path ss d')"

definition executeSQLFile :: "'d world \<Rightarrow> string \<Rightarrow> 'd \<Rightarrow> file_error option \<times> 'd" where
  "executeSQLFile w path d = (case read_path w path d of
     None \<Rightarrow> (Some (ReadFileFailed path), d)
   | Some content \<Rightarrow>
       (let sql = trim_space content in
        if sql = [] then (None, d) else exec_statements w path (split_on CHR '';'' sql) d))"

text \<open>The function that \<open>LoadMigrations\<close> makes of a file, as the migrator calls it.\<close>

definition file_fn :: "'d world \<Rightarrow> string \<Rightarrow> 'd \<Rightarrow> bool \<times> 'd" where
  "file_fn w path d = (case executeSQLFile w path d of (e, d') \<Rightarrow> (e = None, d'))"

definition file_migration :: "'d world \<Rightarrow> MigrationFile \<Rightarrow> 'd migration" where
  "file_migration w f = \<lparr>ID = mf_ID f, Up_fn = Some (file_fn w (UpPath f)),
     Down_fn = (if DownPath f \<noteq> [] then Some (file_fn w (DownPath f)) else None), MComment = mf_Comment f\<rparr>"

definition LoadMigrations ::
  "'d world \<Rightarrow> string list \<Rightarrow> 'd file_migrator \<Rightarrow> 'd \<Rightarrow> (file_error + 'd file_migrator) \<times> 'd" where
  "LoadMigrations w order fm d = (case ensureMigrationsDir w fm d of
     (Some e, d') \<Rightarrow> (Inl e, d')
   | (None, d') \<Rightarrow> (case findMigrationFiles w order fm d' of
       Inl e \<Rightarrow> (Inl e, d')
     | Inr fs \<Rightarrow> (Inr (fm\<lparr>fm_migrator := foldl (\<lambda>m f. Add (file_migration w f) m) (fm_migrator fm) fs\<rparr>), d')))"

section \<open>Creating migration files\<close>

definition file_path :: "string \<Rightarrow> string \<Rightarrow> string" where
  "file_path dir name = dir @ ''/'' @ name"

definition migration_base :: "int \<Rightarrow> string \<Rightarrow> string" where
  "migration_base timestamp name = itoa timestamp @ ''_'' @ name"

definition nl :: string where "nl = [CHR 0x0A]"

definition up_content :: "string \<Rightarrow> string \<Rightarrow> string" where
  "up_content name now = ''-- Migration: '' @ underscores_to_spaces name @ nl @ ''-- Created at: '' @ now @ nl @ nl
     @ ''-- Add your up migration here'' @ nl"

definition down_content :: "string \<Rightarrow> string \<Rightarrow> string" where
  "down_content name now = ''-- Rollback for: '' @ underscores_to_spaces name @ nl @ ''-- Created at: '' @ now @ nl @ nl
     @ ''-- Add your down migration here'' @ nl"

text \<open>\<open>CreateMigration\<close>, for a directory that is a clean path; the result has the timestamp it used.\<close>

definition CreateMigration :: "'d world \<Rightarrow> string \<Rightarrow> 'd file_migrator \<Rightarrow> 'd \<Rightarrow> (file_error + int) \<times> 'd" where
  "CreateMigration w name fm d0 = (case ensureMigrationsDir w fm d0 of
     (Some e, d) \<Rightarrow> (Inl e, d)
   | (None, d) \<Rightarrow>
       (let timestamp = unix_now w d;
            upFile = file_path (migrationsDir fm) (migration_base timestamp name @ ''.up.sql'');
            downFile = file_path (migrationsDir fm) (migration_base timestamp name @ ''.down.sql'')
        in case write_file w upFile (up_content name (time_text w d)) d of
            (False, d1) \<Rightarrow> (Inl (WriteFailed upFile), d1)
          | (True, d1) \<Rightarrow> (case write_file w downFile (down_content name (time_text w d1)) d1 of
              (False, d2) \<Rightarrow> (Inl (WriteFailed downFile), d2)
            | (True, d2) \<Rightarrow> (Inr timestamp, d2))))"

end
