(* ===== verification/File_Migrator_Props.thy ===== *)
theory File_Migrator_Props
  imports File_Migrator_Model
begin

text \<open>
  What the file migrator finds, loads and runs: the files of a directory give one migration for each
  id with an up file, in order; a created migration is found again; the statements of a file run in
  their order.
\<close>

section \<open>File names\<close>

lemma digits_then: "\<forall>c \<in> set ts. is_digit c \<Longrightarrow> takeWhile is_digit (ts @ CHR ''_'' # r) = ts"
  "\<forall>c \<in> set ts. is_digit c \<Longrightarrow> dropWhile is_digit (ts @ CHR ''_'' # r) = CHR ''_'' # r"
  by (simp_all add: takeWhile_append dropWhile_append)

lemma until_dot: "CHR ''.'' \<notin> set name \<Longrightarrow> takeWhile (\<lambda>c. c \<noteq> CHR ''.'') (name @ CHR ''.'' # s) = name"
  "CHR ''.'' \<notin> set name \<Longrightarrow> dropWhile (\<lambda>c. c \<noteq> CHR ''.'') (name @ CHR ''.'' # s) = CHR ''.'' # s"
  by (simp_all add: takeWhile_append dropWhile_append)

definition migration_suffix :: "bool \<Rightarrow> string" where
  "migration_suffix up = (if up then ''.up.sql'' else ''.down.sql'')"

text \<open>The pattern reads back the names that are built from a timestamp and a name without a dot.\<close>

lemma parse_built:
  assumes "0 \<le> ts" and "name \<noteq> []" and "CHR ''.'' \<notin> set name"
  shows "parse_name (migration_base ts name @ migration_suffix up) = Some (itoa ts, name, up)"
proof -
  have d: "\<forall>c \<in> set (itoa ts). is_digit c" "itoa ts \<noteq> []" using show_nat_digits assms(1) by (simp_all add: itoa_def)
  obtain s where s: "migration_suffix up = CHR ''.'' # s" by (cases up) (auto simp: migration_suffix_def)
  have "migration_base ts name @ migration_suffix up = itoa ts @ CHR ''_'' # (name @ CHR ''.'' # s)"
    by (simp add: migration_base_def s)
  then show ?thesis
    using assms(2) d s until_dot [OF assms(3), of s]
    by (cases up) (auto simp: parse_name_def Let_def digits_then [OF d(1)] migration_suffix_def)
qed

text \<open>A dot in the name hides the file from the pattern.\<close>

lemma parse_dotted:
  assumes "0 \<le> ts" and "CHR ''.'' \<in> set name"
  shows "parse_name (migration_base ts name @ migration_suffix up) = None"
proof -
  have d: "\<forall>c \<in> set (itoa ts). is_digit c" using show_nat_digits assms(1) by (simp add: itoa_def)
  obtain a b where n: "name = a @ CHR ''.'' # b" "CHR ''.'' \<notin> set a" using split_list_first [OF assms(2)] by blast
  have "migration_base ts name @ migration_suffix up = itoa ts @ CHR ''_'' # (a @ CHR ''.'' # (b @ migration_suffix up))"
    by (simp add: migration_base_def n)
  moreover have "CHR ''.'' # b @ migration_suffix up \<noteq> ''.up.sql''" "CHR ''.'' # b @ migration_suffix up \<noteq> ''.down.sql''"
    by (auto simp: migration_suffix_def Cons_eq_append_conv append_eq_Cons_conv)
  ultimately show ?thesis
    using until_dot [OF n(2), of "b @ migration_suffix up"]
    by (simp add: parse_name_def Let_def digits_then [OF d])
qed

section \<open>The files of a directory\<close>

text \<open>An entry for the up or the down direction of the migration \<open>i\<close>.\<close>

definition entry_for :: "string \<Rightarrow> bool \<Rightarrow> string \<times> string \<times> bool \<Rightarrow> bool" where
  "entry_for i up e = (case e of (path, base, is_dir) \<Rightarrow> \<not> is_dir \<and>
     (case parse_name base of None \<Rightarrow> False | Some (ts, name, u) \<Rightarrow> u = up \<and> ts @ ''_'' @ name = i))"

lemma visit_other: "\<not> entry_for i True e \<Longrightarrow> \<not> entry_for i False e \<Longrightarrow> visit m e i = m i"
  by (auto simp: visit_def entry_for_def Let_def split: prod.splits option.splits)

text \<open>An entry of the migration \<open>i\<close> sets its path for one direction and keeps the other.\<close>

lemma visit_entry:
  assumes "entry_for i up (path, base, is_dir)"
  shows "\<exists>f. visit m (path, base, is_dir) i = Some f
    \<and> (if up then UpPath f else DownPath f) = path
    \<and> (if up then DownPath f else UpPath f) = (case m i of None \<Rightarrow> [] | Some g \<Rightarrow> if up then DownPath g else UpPath g)"
proof -
  obtain ts name where p: "parse_name base = Some (ts, name, up)" "\<not> is_dir" "i = ts @ ''_'' @ name"
    using assms by (auto simp: entry_for_def split: option.splits)
  then show ?thesis by (cases "m i"; cases up) (simp_all add: visit_def Let_def)
qed

lemma visit_entry_fixed:
  assumes "visit m (path, base, is_dir) i = Some f" and "entry_for i up (path, base, is_dir)"
  shows "(\<exists>g. m i = Some g \<and> mf_ID f = mf_ID g \<and> mf_Comment f = mf_Comment g)
    \<or> (\<exists>ts name. parse_name base = Some (ts, name, up) \<and> i = ts @ ''_'' @ name
        \<and> mf_ID f = i \<and> mf_Comment f = underscores_to_spaces name)"
proof -
  obtain ts name where p: "parse_name base = Some (ts, name, up)" "\<not> is_dir" "i = ts @ ''_'' @ name"
    using assms(2) by (auto simp: entry_for_def split: option.splits)
  show ?thesis using assms(1) p by (cases "m i"; cases up) (auto simp: visit_def Let_def)
qed

lemma visit_all_snoc: "visit_all (es @ [e]) = visit (visit_all es) e"
  by (simp add: visit_all_def)

text \<open>The ID of a file is its key, and its comment comes from the name in the key.\<close>

definition key_comment :: "string \<Rightarrow> string" where
  "key_comment i = underscores_to_spaces (tl (dropWhile is_digit i))"

lemma key_comment: "\<forall>c \<in> set ts. is_digit c \<Longrightarrow> key_comment (ts @ ''_'' @ name) = underscores_to_spaces name"
  using digits_then(2) [of ts name] by (simp add: key_comment_def)

lemma parse_name_digits: "parse_name base = Some (ts, name, up) \<Longrightarrow> \<forall>c \<in> set ts. is_digit c"
  by (auto simp: parse_name_def Let_def dest: set_takeWhileD split: if_splits list.splits)

lemma visit_all_fixed: "visit_all es i = Some f \<Longrightarrow> mf_ID f = i \<and> mf_Comment f = key_comment i"
proof (induction es arbitrary: f rule: rev_induct)
  case (snoc e es)
  obtain path base is_dir where e: "e = (path, base, is_dir)" by (metis prod_cases3)
  have v: "visit (visit_all es) (path, base, is_dir) i = Some f" using snoc.prems e by (simp add: visit_all_snoc)
  show ?case
  proof (cases "entry_for i True e \<or> entry_for i False e")
    case False
    then show ?thesis using v visit_other [of i e "visit_all es"] e snoc.IH by auto
  next
    case True
    then obtain up where "entry_for i up e" by blast
    with visit_entry_fixed [OF v] e snoc.IH show ?thesis
      by (metis key_comment parse_name_digits)
  qed
qed (simp add: visit_all_def)

text \<open>The paths in the map: that of an entry for the direction, empty when there is none.\<close>

definition dir_path :: "bool \<Rightarrow> MigrationFile \<Rightarrow> string" where
  "dir_path up f = (if up then UpPath f else DownPath f)"

lemma visit_all_paths:
  assumes "\<And>path base is_dir. (path, base, is_dir) \<in> set es \<Longrightarrow> path \<noteq> []"
  shows "(visit_all es i = None \<longleftrightarrow> \<not> (\<exists>e \<in> set es. entry_for i True e \<or> entry_for i False e))
    \<and> (\<forall>f up. visit_all es i = Some f \<longrightarrow>
         (dir_path up f = [] \<longleftrightarrow> \<not> (\<exists>e \<in> set es. entry_for i up e))
       \<and> (dir_path up f \<noteq> [] \<longrightarrow> (\<exists>e \<in> set es. entry_for i up e \<and> fst e = dir_path up f)))"
  using assms
proof (induction es rule: rev_induct)
  case Nil
  show ?case by (simp add: visit_all_def)
next
  case (snoc e es)
  have IH: "(visit_all es i = None \<longleftrightarrow> \<not> (\<exists>e \<in> set es. entry_for i True e \<or> entry_for i False e))
    \<and> (\<forall>f up. visit_all es i = Some f \<longrightarrow>
         (dir_path up f = [] \<longleftrightarrow> \<not> (\<exists>e \<in> set es. entry_for i up e))
       \<and> (dir_path up f \<noteq> [] \<longrightarrow> (\<exists>e \<in> set es. entry_for i up e \<and> fst e = dir_path up f)))"
    using snoc by auto
  have one: "\<not> entry_for i (\<not> up) e" if "entry_for i up e" for up
    using that by (auto simp: entry_for_def split: prod.splits option.splits)
  obtain path base is_dir where e: "e = (path, base, is_dir)" by (metis prod_cases3)
  have p: "path \<noteq> []" using snoc.prems e by auto
  show ?case
  proof (cases "entry_for i True e \<or> entry_for i False e")
    case False
    then have "entry_for i up e \<Longrightarrow> False" for up by (cases up) auto
    then show ?thesis using IH visit_other [of i e "visit_all es"] False by (auto simp: visit_all_snoc)
  next
    case True
    then obtain up where up: "entry_for i up e" by blast
    obtain f where f: "visit (visit_all es) e i = Some f" "dir_path up f = path"
      "dir_path (\<not> up) f = (case visit_all es i of None \<Rightarrow> [] | Some g \<Rightarrow> dir_path (\<not> up) g)"
      using visit_entry [of i up path base is_dir "visit_all es"] up e
      by (cases up) (auto simp: dir_path_def split: option.splits)
    have other: "(dir_path (\<not> up) f = [] \<longleftrightarrow> \<not> (\<exists>e \<in> set es. entry_for i (\<not> up) e))
        \<and> (dir_path (\<not> up) f \<noteq> [] \<longrightarrow> (\<exists>e \<in> set es. entry_for i (\<not> up) e \<and> fst e = dir_path (\<not> up) f))"
    proof (cases "visit_all es i")
      case None
      then have "\<not> (\<exists>e \<in> set es. entry_for i (\<not> up) e)" using IH by (cases up) auto
      then show ?thesis using f(3) None by simp
    next
      case (Some g)
      then show ?thesis using IH f(3) by simp
    qed
    have "(dir_path u f = [] \<longleftrightarrow> \<not> (\<exists>e' \<in> set (es @ [e]). entry_for i u e'))
        \<and> (dir_path u f \<noteq> [] \<longrightarrow> (\<exists>e' \<in> set (es @ [e]). entry_for i u e' \<and> fst e' = dir_path u f))" for u
    proof (cases "u = up")
      case True
      then show ?thesis using f(2) p up e by auto
    next
      case False
      then have "u = (\<not> up)" by auto
      then show ?thesis using other one [OF up] by auto
    qed
    then show ?thesis using f(1) up by (cases up) (auto simp: visit_all_snoc)
  qed
qed

lemma found_files_set: "set order = dom m \<Longrightarrow> set (found_files order m) = {f. \<exists>i. m i = Some f \<and> UpPath f \<noteq> []}"
  by (force simp: found_files_def split: option.splits if_splits)

lemma found_files_sorted:
  assumes "distinct order" and "\<And>i f. m i = Some f \<Longrightarrow> mf_ID f = i"
  shows "sorted_wrt (<) (map mf_ID (found_files order m))"
proof -
  let ?one = "\<lambda>i. case m i of None \<Rightarrow> [] | Some f \<Rightarrow> if UpPath f \<noteq> [] then [f] else []"
  have ids: "map mf_ID (concat (map ?one order)) = filter (\<lambda>i. \<exists>f. m i = Some f \<and> UpPath f \<noteq> []) order" for order
  proof (induction order)
    case (Cons i order)
    then show ?case using assms(2) [of i] by (cases "m i") simp_all
  qed simp
  have "distinct (map mf_ID (concat (map ?one order)))" using assms(1) by (simp only: ids distinct_filter)
  then have "distinct (map mf_ID (found_files order m))"
    unfolding found_files_def by (simp add: distinct_map)
  then show ?thesis by (simp add: found_files_def strict_sorted_iff)
qed

lemma Add_all:
  "foldl (\<lambda>m f. Add (file_migration w f) m) m fs = m\<lparr>migrations := migrations (foldl (\<lambda>m f. Add (file_migration w f) m) m fs)\<rparr>"
proof -
  have "\<exists>M. foldl (\<lambda>m f. Add (file_migration w f) m) m fs = m\<lparr>migrations := M\<rparr>" for fs
  proof (induction fs rule: rev_induct)
    case Nil
    show ?case by (rule exI [of _ "migrations m"]) simp
  next
    case (snoc f fs)
    then obtain M where M: "foldl (\<lambda>m f. Add (file_migration w f) m) m fs = m\<lparr>migrations := M\<rparr>" by blast
    show ?case by (simp only: foldl_append foldl.simps M) (auto simp: Add_def)
  qed
  then obtain M where M: "foldl (\<lambda>m f. Add (file_migration w f) m) m fs = m\<lparr>migrations := M\<rparr>" by blast
  show ?thesis by (simp only: M) simp
qed

lemma Add_all_migrations:
  assumes "distinct (map mf_ID fs)"
  shows "(\<forall>f \<in> set fs. migrations (foldl (\<lambda>m f. Add (file_migration w f) m) m fs) (mf_ID f) = Some (file_migration w f))
    \<and> (\<forall>i. i \<notin> mf_ID ` set fs \<longrightarrow> migrations (foldl (\<lambda>m f. Add (file_migration w f) m) m fs) i = migrations m i)"
  using assms
proof (induction fs rule: rev_induct)
  case (snoc f fs)
  have new: "mf_ID f \<notin> mf_ID ` set fs" using snoc.prems by auto
  have ne: "mf_ID g \<noteq> mf_ID f" if "g \<in> set fs" for g using new that by (metis image_eqI)
  have i: "ID (file_migration w f) = mf_ID f" by (simp add: file_migration_def)
  show ?case using snoc ne by (simp add: Add_def i)
qed simp

text \<open>The files found among entries, and the migrator after they were added to it.\<close>

lemma found:
  assumes "distinct order" and "set order = dom (visit_all entries)"
  shows "set (found_files order (visit_all entries)) = {f. \<exists>i. visit_all entries i = Some f \<and> UpPath f \<noteq> []}"
    and "sorted_wrt (<) (map mf_ID (found_files order (visit_all entries)))"
    and "\<forall>f \<in> set (found_files order (visit_all entries)).
      migrations (foldl (\<lambda>m f. Add (file_migration w f) m) m (found_files order (visit_all entries))) (mf_ID f) = Some (file_migration w f)"
    and "\<forall>i. i \<notin> mf_ID ` set (found_files order (visit_all entries)) \<longrightarrow>
      migrations (foldl (\<lambda>m f. Add (file_migration w f) m) m (found_files order (visit_all entries))) i = migrations m i"
proof -
  show "set (found_files order (visit_all entries)) = {f. \<exists>i. visit_all entries i = Some f \<and> UpPath f \<noteq> []}"
    by (rule found_files_set [OF assms(2)])
  show sorted: "sorted_wrt (<) (map mf_ID (found_files order (visit_all entries)))"
    using visit_all_fixed by (intro found_files_sorted [OF assms(1)]) blast
  then have "distinct (map mf_ID (found_files order (visit_all entries)))" by (simp add: strict_sorted_iff)
  note A = Add_all_migrations [OF this, of w m]
  show "\<forall>f \<in> set (found_files order (visit_all entries)).
      migrations (foldl (\<lambda>m f. Add (file_migration w f) m) m (found_files order (visit_all entries))) (mf_ID f) = Some (file_migration w f)"
    "\<forall>i. i \<notin> mf_ID ` set (found_files order (visit_all entries)) \<longrightarrow>
      migrations (foldl (\<lambda>m f. Add (file_migration w f) m) m (found_files order (visit_all entries))) i = migrations m i"
    using A by (rule conjunct1, rule conjunct2)
qed

section \<open>Loading a directory\<close>

text \<open>The entries of a directory as \<open>WalkDir\<close> gives them, with no empty path.\<close>

definition paths_ok :: "(string \<times> string \<times> bool) list \<Rightarrow> bool" where
  "paths_ok entries \<longleftrightarrow> [] \<notin> fst ` set entries"

lemma LoadMigrations_eq:
  assumes "ensureMigrationsDir w fm d = (None, d')" and "walk w (migrationsDir fm) d' = Some entries"
  shows "LoadMigrations w order fm d = (Inr (fm\<lparr>fm_migrator :=
           foldl (\<lambda>m f. Add (file_migration w f) m) (fm_migrator fm) (found_files order (visit_all entries))\<rparr>), d')"
  using assms by (simp add: LoadMigrations_def findMigrationFiles_def)

lemma visit_all_up_down:
  assumes "paths_ok entries"
  shows "(\<exists>f. visit_all entries i = Some f \<and> UpPath f \<noteq> []) \<longleftrightarrow> (\<exists>e \<in> set entries. entry_for i True e)"
    and "visit_all entries i = Some f \<Longrightarrow> DownPath f \<noteq> [] \<longleftrightarrow> (\<exists>e \<in> set entries. entry_for i False e)"
    and "visit_all entries i = Some f \<Longrightarrow> dir_path up f \<noteq> [] \<Longrightarrow> \<exists>e \<in> set entries. entry_for i up e \<and> fst e = dir_path up f"
proof -
  have ok: "path \<noteq> []" if "(path, base, is_dir) \<in> set entries" for path base is_dir
    using assms that by (force simp: paths_ok_def)
  have P: "(visit_all entries i = None \<longleftrightarrow> \<not> (\<exists>e \<in> set entries. entry_for i True e \<or> entry_for i False e))
    \<and> (\<forall>f up. visit_all entries i = Some f \<longrightarrow>
         (dir_path up f = [] \<longleftrightarrow> \<not> (\<exists>e \<in> set entries. entry_for i up e))
       \<and> (dir_path up f \<noteq> [] \<longrightarrow> (\<exists>e \<in> set entries. entry_for i up e \<and> fst e = dir_path up f)))"
    by (rule visit_all_paths) (rule ok)
  show "visit_all entries i = Some f \<Longrightarrow> dir_path up f \<noteq> [] \<Longrightarrow> \<exists>e \<in> set entries. entry_for i up e \<and> fst e = dir_path up f"
    using P by blast
  have D: "dir_path up f \<noteq> [] \<longleftrightarrow> (\<exists>e \<in> set entries. entry_for i up e)" if "visit_all entries i = Some f" for f up
    using P that by blast
  show "visit_all entries i = Some f \<Longrightarrow> DownPath f \<noteq> [] \<longleftrightarrow> (\<exists>e \<in> set entries. entry_for i False e)"
    using D [of f False] by (simp add: dir_path_def)
  show "(\<exists>f. visit_all entries i = Some f \<and> UpPath f \<noteq> []) \<longleftrightarrow> (\<exists>e \<in> set entries. entry_for i True e)"
  proof (cases "visit_all entries i")
    case None
    then show ?thesis using P by auto
  next
    case (Some f)
    then show ?thesis using D [of f True] by (simp add: dir_path_def)
  qed
qed

text \<open>C20: Loading a directory registers exactly the migrations that have an up file there, whatever order
  the map of files is read in: the files come back sorted by ID with no ID twice, there is one for
  an ID iff some entry is its up file, each is registered with an up function, and with a down
  function iff there is a down file; what was registered under another ID stays.
\<close>

theorem LoadMigrations_registers_up_files:
  assumes "ensureMigrationsDir w fm d = (None, d')" and "walk w (migrationsDir fm) d' = Some entries"
    and "paths_ok entries" and "distinct order" and "set order = dom (visit_all entries)"
  shows "\<exists>fs m. findMigrationFiles w order fm d' = Inr fs
    \<and> LoadMigrations w order fm d = (Inr (fm\<lparr>fm_migrator := fm_migrator fm\<lparr>migrations := m\<rparr>\<rparr>), d')
    \<and> sorted_wrt (<) (map mf_ID fs)
    \<and> mf_ID ` set fs = {i. \<exists>e \<in> set entries. entry_for i True e}
    \<and> (\<forall>f \<in> set fs. m (mf_ID f) = Some (file_migration w f)
         \<and> (Down_fn (file_migration w f) \<noteq> None \<longleftrightarrow> (\<exists>e \<in> set entries. entry_for (mf_ID f) False e)))
    \<and> (\<forall>i. i \<notin> mf_ID ` set fs \<longrightarrow> m i = migrations (fm_migrator fm) i)"
proof -
  let ?fs = "found_files order (visit_all entries)"
  let ?m = "migrations (foldl (\<lambda>m f. Add (file_migration w f) m) (fm_migrator fm) ?fs)"
  note S = found(1) [OF assms(4,5)] and A = found(3,4) [OF assms(4,5), of w "fm_migrator fm"]
  have ids: "mf_ID ` set ?fs = {i. \<exists>e \<in> set entries. entry_for i True e}"
    unfolding visit_all_up_down(1) [OF assms(3), symmetric] S using visit_all_fixed by (force simp: image_iff)
  have down: "Down_fn (file_migration w f) \<noteq> None \<longleftrightarrow> (\<exists>e \<in> set entries. entry_for (mf_ID f) False e)" if "f \<in> set ?fs" for f
  proof -
    obtain i where i: "visit_all entries i = Some f" using \<open>f \<in> set ?fs\<close> S by auto
    then show ?thesis using visit_all_fixed [OF i] visit_all_up_down(2) [OF assms(3) i] by (simp add: file_migration_def)
  qed
  have "LoadMigrations w order fm d = (Inr (fm\<lparr>fm_migrator := fm_migrator fm\<lparr>migrations := ?m\<rparr>\<rparr>), d')"
    using LoadMigrations_eq [OF assms(1,2)] Add_all [of w "fm_migrator fm" ?fs] by simp
  moreover have "findMigrationFiles w order fm d' = Inr ?fs" using assms(2) by (simp add: findMigrationFiles_def)
  ultimately show ?thesis using found(2) [OF assms(4,5)] ids down A by (intro exI [of _ ?fs] exI [of _ ?m]) simp
qed

section \<open>Creating a migration and loading it\<close>

text \<open>
  What the code relies on: a file that was written reads back and no other file changed; a file of
  the directory is listed under its name when the directory is walked; writing into a directory means
  that it exists.
\<close>

definition world_ok :: "'d world \<Rightarrow> string \<Rightarrow> bool" where
  "world_ok w dir \<longleftrightarrow>
     (\<forall>p c d d'. write_file w p c d = (True, d') \<longrightarrow>
        read_path w p d' = Some c \<and> (\<forall>q. q \<noteq> p \<longrightarrow> read_path w q d' = read_path w q d))
   \<and> (\<forall>base c d d'. write_file w (file_path dir base) c d = (True, d') \<longrightarrow> \<not> missing w dir d')
   \<and> (\<forall>base d es. walk w dir d = Some es \<longrightarrow> CHR ''/'' \<notin> set base \<longrightarrow> read_path w (file_path dir base) d \<noteq> None \<longrightarrow>
        (file_path dir base, base, False) \<in> set es)"

text \<open>The files are in the directory itself, not in directories below it.\<close>

definition flat :: "string \<Rightarrow> (string \<times> string \<times> bool) list \<Rightarrow> bool" where
  "flat dir entries \<longleftrightarrow> (\<forall>(path, base, is_dir) \<in> set entries. path \<noteq> [] \<and> (\<not> is_dir \<longrightarrow> path = file_path dir base))"

lemma flat_paths_ok: "flat dir entries \<Longrightarrow> paths_ok entries"
  by (auto simp: flat_def paths_ok_def)

abbreviation migration_file :: "string \<Rightarrow> int \<Rightarrow> string \<Rightarrow> bool \<Rightarrow> string" where
  "migration_file dir ts name up \<equiv> file_path dir (migration_base ts name @ migration_suffix up)"

lemma CreateMigration_writes:
  assumes "world_ok w (migrationsDir fm)" and "CreateMigration w name fm d = (Inr ts, d')"
  shows "\<exists>now. read_path w (migration_file (migrationsDir fm) ts name True) d' = Some (up_content name now)"
    and "\<exists>now. read_path w (migration_file (migrationsDir fm) ts name False) d' = Some (down_content name now)"
    and "\<not> missing w (migrationsDir fm) d'"
proof -
  obtain d0 d1 where c: "ts = unix_now w d0"
    "write_file w (migration_file (migrationsDir fm) ts name True) (up_content name (time_text w d0)) d0 = (True, d1)"
    "write_file w (migration_file (migrationsDir fm) ts name False) (down_content name (time_text w d1)) d1 = (True, d')"
    using assms(2) by (auto simp: CreateMigration_def Let_def migration_suffix_def split: prod.splits option.splits bool.splits)
  have ne: "migration_file (migrationsDir fm) ts name True \<noteq> migration_file (migrationsDir fm) ts name False"
    by (simp add: file_path_def migration_suffix_def)
  have law: "read_path w p e' = Some x \<and> (\<forall>q. q \<noteq> p \<longrightarrow> read_path w q e' = read_path w q e)"
    if "write_file w p x e = (True, e')" for p x e e'
    using assms(1) that by (simp add: world_ok_def)
  show "\<exists>now. read_path w (migration_file (migrationsDir fm) ts name False) d' = Some (down_content name now)"
    using law [OF c(3)] by blast
  show "\<exists>now. read_path w (migration_file (migrationsDir fm) ts name True) d' = Some (up_content name now)"
    using law [OF c(2)] law [OF c(3)] ne by metis
  show "\<not> missing w (migrationsDir fm) d'" using assms(1) c(3) by (simp add: world_ok_def)
qed

lemma timestamp_digits: "0 \<le> ts \<Longrightarrow> \<forall>c \<in> set (itoa ts). is_digit c"
  using show_nat_digits by (simp add: itoa_def)

lemma created_entry:
  assumes "0 \<le> ts" and "name \<noteq> []" and "CHR ''.'' \<notin> set name"
  shows "entry_for (migration_base ts name) up (path, migration_base ts name @ migration_suffix up, False)"
  using parse_built [OF assms] by (simp add: entry_for_def migration_base_def)

lemma flat_entry_path:
  assumes "flat dir entries" and "e \<in> set entries" and "entry_for (migration_base ts name) up e"
    and "0 \<le> ts"
  shows "fst e = migration_file dir ts name up"
proof -
  obtain path base where e: "e = (path, base, False)" "path = file_path dir base"
    using assms(1-3) by (force simp: flat_def entry_for_def)
  obtain t n where p: "parse_name base = Some (t, n, up)" "t @ ''_'' @ n = migration_base ts name"
    using assms(3) e(1) by (auto simp: entry_for_def split: option.splits)
  have "base = t @ ''_'' @ n @ migration_suffix up"
    using p(1) takeWhile_dropWhile_id [of is_digit base]
    by (auto simp: parse_name_def Let_def migration_suffix_def split: if_splits list.splits)
      (metis takeWhile_dropWhile_id)+
  then show ?thesis using e p(2) [symmetric] by simp
qed

text \<open>C21: A created migration is found again: after \<open>CreateMigration\<close> succeeds for a non-empty name without
  a dot or a slash, loading a directory without subdirectories registers a migration for the
  timestamp and the name, with functions for both directions that run the two files just written.
\<close>

theorem CreateMigration_is_loaded:
  assumes "world_ok w (migrationsDir fm)" and "CreateMigration w name fm d = (Inr ts, d')" and "0 \<le> ts"
    and "name \<noteq> []" and "CHR ''.'' \<notin> set name" and "CHR ''/'' \<notin> set name"
    and "walk w (migrationsDir fm) d' = Some entries" and "flat (migrationsDir fm) entries"
    and "distinct order" and "set order = dom (visit_all entries)"
  shows "\<exists>m. LoadMigrations w order fm d' = (Inr (fm\<lparr>fm_migrator := m\<rparr>), d')
    \<and> migrations m (migration_base ts name) = Some \<lparr>ID = migration_base ts name,
        Up_fn = Some (file_fn w (migration_file (migrationsDir fm) ts name True)),
        Down_fn = Some (file_fn w (migration_file (migrationsDir fm) ts name False)),
        MComment = underscores_to_spaces name\<rparr>
    \<and> (\<exists>now. read_path w (migration_file (migrationsDir fm) ts name True) d' = Some (up_content name now))
    \<and> (\<exists>now. read_path w (migration_file (migrationsDir fm) ts name False) d' = Some (down_content name now))"
proof -
  let ?i = "migration_base ts name" and ?dir = "migrationsDir fm"
  note W = CreateMigration_writes [OF assms(1,2)]
  note ok = flat_paths_ok [OF assms(8)]
  have sl: "CHR ''/'' \<notin> set (?i @ migration_suffix up)" for up
    using timestamp_digits [OF assms(3)] assms(6) by (cases up) (auto simp: migration_base_def migration_suffix_def is_digit_def)
  have E: "\<exists>e \<in> set entries. entry_for ?i up e" for up
  proof -
    have "read_path w (migration_file ?dir ts name up) d' \<noteq> None" using W(1,2) by (cases up) auto
    then have "(migration_file ?dir ts name up, ?i @ migration_suffix up, False) \<in> set entries"
      using assms(1,7) sl by (simp add: world_ok_def)
    then show ?thesis using created_entry [OF assms(3,4,5)] by blast
  qed
  obtain f where f: "visit_all entries ?i = Some f" "UpPath f \<noteq> []" using visit_all_up_down(1) [OF ok] E by blast
  have dn: "DownPath f \<noteq> []" using visit_all_up_down(2) [OF ok f(1)] E by blast
  have path: "dir_path up f = migration_file ?dir ts name up" if "dir_path up f \<noteq> []" for up
    using visit_all_up_down(3) [OF ok f(1) that] flat_entry_path [OF assms(8) _ _ assms(3)] by metis
  have paths: "UpPath f = migration_file ?dir ts name True" "DownPath f = migration_file ?dir ts name False"
    using path [of True] path [of False] f(2) dn by (simp_all add: dir_path_def)
  have fixed: "mf_ID f = ?i" "mf_Comment f = underscores_to_spaces name"
    using visit_all_fixed [OF f(1)] key_comment [OF timestamp_digits [OF assms(3)]] by (simp_all add: migration_base_def)
  let ?fs = "found_files order (visit_all entries)"
  have "f \<in> set ?fs" using found(1) [OF assms(9,10)] f by auto
  with found(3) [OF assms(9,10), of w "fm_migrator fm"] fixed(1)
  have "migrations (foldl (\<lambda>m f. Add (file_migration w f) m) (fm_migrator fm) ?fs) ?i = Some (file_migration w f)" by metis
  moreover have "file_migration w f = \<lparr>ID = ?i, Up_fn = Some (file_fn w (migration_file ?dir ts name True)),
      Down_fn = Some (file_fn w (migration_file ?dir ts name False)), MComment = underscores_to_spaces name\<rparr>"
    using dn by (simp add: file_migration_def fixed paths)
  moreover have "ensureMigrationsDir w fm d' = (None, d')" using W(3) by (simp add: ensureMigrationsDir_def)
  ultimately show ?thesis using LoadMigrations_eq [OF _ assms(7), of d' order] W(1,2)
    by (intro exI [of _ "foldl (\<lambda>m f. Add (file_migration w f) m) (fm_migrator fm) ?fs"]) simp
qed

section \<open>Running a file\<close>

definition file_statements :: "string \<Rightarrow> string list" where
  "file_statements content = filter (\<lambda>s. s \<noteq> []) (map trim_space (split_on CHR '';'' (trim_space content)))"

definition run_all :: "'d world \<Rightarrow> string list \<Rightarrow> 'd \<Rightarrow> 'd" where
  "run_all w ss d = foldl (\<lambda>d s. snd (exec_stmt w s d)) d ss"

fun all_run :: "'d world \<Rightarrow> string list \<Rightarrow> 'd \<Rightarrow> bool" where
  "all_run w [] d = True"
| "all_run w (s # ss) d = (fst (exec_stmt w s d) \<and> all_run w ss (snd (exec_stmt w s d)))"

lemma exec_statements_cases:
  "(case exec_statements w path ps d of
      (None, d') \<Rightarrow> all_run w (filter (\<lambda>s. s \<noteq> []) (map trim_space ps)) d
        \<and> d' = run_all w (filter (\<lambda>s. s \<noteq> []) (map trim_space ps)) d
    | (Some e, d') \<Rightarrow> (\<exists>before s after. filter (\<lambda>s. s \<noteq> []) (map trim_space ps) = before @ s # after
        \<and> all_run w before d \<and> \<not> fst (exec_stmt w s (run_all w before d))
        \<and> e = StatementFailed path s \<and> d' = run_all w (before @ [s]) d))"
proof (induction ps arbitrary: d)
  case Nil
  show ?case by (simp add: run_all_def)
next
  case (Cons p ps)
  show ?case
  proof (cases "trim_space p = []")
    case True
    have step: "exec_statements w path (p # ps) d = exec_statements w path ps d" using True by simp
    have fs: "filter (\<lambda>s. s \<noteq> []) (map trim_space (p # ps)) = filter (\<lambda>s. s \<noteq> []) (map trim_space ps)"
      using True by simp
    show ?thesis unfolding step fs by (rule Cons.IH)
  next
    case False
    obtain ok d1 where x: "exec_stmt w (trim_space p) d = (ok, d1)" by fastforce
    show ?thesis
    proof (cases ok)
      case False
      then have step: "exec_statements w path (p # ps) d = (Some (StatementFailed path (trim_space p)), d1)"
        using x \<open>trim_space p \<noteq> []\<close> by simp
      have "filter (\<lambda>s. s \<noteq> []) (map trim_space (p # ps)) = [] @ trim_space p # filter (\<lambda>s. s \<noteq> []) (map trim_space ps)
          \<and> all_run w [] d \<and> \<not> fst (exec_stmt w (trim_space p) (run_all w [] d)) \<and> d1 = run_all w ([] @ [trim_space p]) d"
        using x False \<open>trim_space p \<noteq> []\<close> by (simp add: run_all_def)
      then show ?thesis unfolding step prod.case option.case by blast
    next
      case True
      obtain r d' where r: "exec_statements w path ps d1 = (r, d')" by fastforce
      have step: "exec_statements w path (p # ps) d = (r, d')"
        using x True \<open>trim_space p \<noteq> []\<close> r by simp
      have fs: "filter (\<lambda>s. s \<noteq> []) (map trim_space (p # ps)) = trim_space p # filter (\<lambda>s. s \<noteq> []) (map trim_space ps)"
        using \<open>trim_space p \<noteq> []\<close> by simp
      show ?thesis
      proof (cases r)
        case None
        then show ?thesis using Cons.IH [of d1] r x True unfolding step fs by (simp add: run_all_def)
      next
        case (Some e)
        then obtain before s after where b: "filter (\<lambda>s. s \<noteq> []) (map trim_space ps) = before @ s # after"
          "all_run w before d1" "\<not> fst (exec_stmt w s (run_all w before d1))" "e = StatementFailed path s" "d' = run_all w (before @ [s]) d1"
          using Cons.IH [of d1] r by auto
        then have "trim_space p # filter (\<lambda>s. s \<noteq> []) (map trim_space ps) = (trim_space p # before) @ s # after
            \<and> all_run w (trim_space p # before) d \<and> \<not> fst (exec_stmt w s (run_all w (trim_space p # before) d))
            \<and> e = StatementFailed path s \<and> d' = run_all w ((trim_space p # before) @ [s]) d"
          using x True by (simp add: run_all_def)
        then show ?thesis unfolding step fs Some prod.case option.case by blast
      qed
    qed
  qed
qed

lemma executeSQLFile_cases:
  assumes "read_path w path d = Some content"
  shows "case executeSQLFile w path d of
      (None, d') \<Rightarrow> all_run w (file_statements content) d \<and> d' = run_all w (file_statements content) d
    | (Some e, d') \<Rightarrow> (\<exists>before s after. file_statements content = before @ s # after
        \<and> all_run w before d \<and> \<not> fst (exec_stmt w s (run_all w before d))
        \<and> e = StatementFailed path s \<and> d' = run_all w (before @ [s]) d)"
proof (cases "trim_space content = []")
  case True
  then have "file_statements content = []" unfolding file_statements_def True by (simp add: trim_space_def trim_left_def)
  then show ?thesis using assms True by (simp add: executeSQLFile_def run_all_def)
next
  case False
  then have "executeSQLFile w path d = exec_statements w path (split_on CHR '';'' (trim_space content)) d"
    using assms by (simp add: executeSQLFile_def)
  then show ?thesis unfolding file_statements_def by (simp only: exec_statements_cases)
qed

text \<open>C26: Running a file executes its statements in the order of the file, each once, and stops at the first
  that fails: with no error every statement ran; an error names a statement, every statement before it
  ran, that one failed, and none after it was sent. The statements are the pieces between the
  semicolons without the space around them, and an empty piece is not sent.
\<close>

theorem executeSQLFile_runs_statements_in_order:
  assumes "read_path w path d = Some content"
  shows "case executeSQLFile w path d of
      (None, d') \<Rightarrow> all_run w (file_statements content) d \<and> d' = run_all w (file_statements content) d
    | (Some e, d') \<Rightarrow> (\<exists>before s after. file_statements content = before @ s # after
        \<and> all_run w before d \<and> \<not> fst (exec_stmt w s (run_all w before d))
        \<and> e = StatementFailed path s \<and> d' = run_all w (before @ [s]) d)"
  by (rule executeSQLFile_cases [OF assms])

text \<open>
  A migration whose name has a dot is created but never loaded: \<open>CreateMigration\<close> takes the name and
  writes both files, and the pattern of \<open>findMigrationFiles\<close>, which wants no dot in the name, skips them.
\<close>

theorem dotted_migration_is_skipped:
  assumes "0 \<le> ts" and "CHR ''.'' \<in> set name"
  shows "visit found (migration_file dir ts name up, migration_base ts name @ migration_suffix up, False) = found"
  using parse_dotted [OF assms] by (simp add: visit_def)

section \<open>A disk\<close>

text \<open>The files of the directory \<open>m\<close> with their contents, and the statements that were executed.\<close>

type_synonym disk = "(string \<rightharpoonup> string) \<times> string list \<times> string list"

definition disk_world :: "disk world" where
  "disk_world = \<lparr>missing = \<lambda>p d. False, mkdir_all = \<lambda>p d. (True, d),
     walk = \<lambda>dir (fs, names, sent). Some (map (\<lambda>p. (p, drop 2 p, False)) (filter (\<lambda>p. has_prefix p ''m/'') names)),
     read_path = \<lambda>p (fs, names, sent). if p \<in> set names then fs p else None,
     write_file = \<lambda>p c (fs, names, sent). (True, (fs(p \<mapsto> c), names @ [p], sent)),
     exec_stmt = \<lambda>s (fs, names, sent). (s \<noteq> ''BAD'', (fs, names, sent @ [s])),
     unix_now = \<lambda>d. 7, time_text = \<lambda>d. ''now''\<rparr>"

lemma disk_world_ok: "world_ok disk_world ''m''"
  by (auto simp: world_ok_def disk_world_def file_path_def image_iff split: prod.splits)

lemmas disk_eval = disk_world_def visit_all_def visit_def parse_name_def is_digit_def underscores_to_spaces_def
  NewFileMigrator_def NewMigrator_def ensureMigrationsDir_def Let_def

theorem LoadMigrations_registers_up_files_witness:
  "\<forall>db. \<exists>fs. findMigrationFiles disk_world [''2_b'', ''3_c'', ''1_a''] (NewFileMigrator db ''m'' [])
       (Map.empty, [''m/2_b.up.sql'', ''m/1_a.up.sql'', ''m/3_c.down.sql'', ''m/1_a.down.sql'', ''m/readme''], []) = Inr fs
     \<and> sorted_wrt (<) (map mf_ID fs) \<and> mf_ID ` set fs = {''1_a'', ''2_b''}"
proof
  fix db :: "disk database"
  let ?fm = "NewFileMigrator db ''m'' []"
  let ?d = "(Map.empty, [''m/2_b.up.sql'', ''m/1_a.up.sql'', ''m/3_c.down.sql'', ''m/1_a.down.sql'', ''m/readme''], []) :: disk"
  let ?es = "[(''m/2_b.up.sql'', ''2_b.up.sql'', False), (''m/1_a.up.sql'', ''1_a.up.sql'', False),
    (''m/3_c.down.sql'', ''3_c.down.sql'', False), (''m/1_a.down.sql'', ''1_a.down.sql'', False), (''m/readme'', ''readme'', False)]"
  have e: "ensureMigrationsDir disk_world ?fm ?d = (None, ?d)" by (simp add: disk_eval)
  have w: "walk disk_world (migrationsDir ?fm) ?d = Some ?es" by (simp add: disk_eval)
  have p: "paths_ok ?es" by (simp add: paths_ok_def)
  have o: "set [''2_b'', ''3_c'', ''1_a''] = dom (visit_all ?es)" by (auto simp: disk_eval)
  have ids: "{i. \<exists>e \<in> set ?es. entry_for i True e} = {''1_a'', ''2_b''}" by (auto simp: entry_for_def parse_name_def is_digit_def)
  show "\<exists>fs. findMigrationFiles disk_world [''2_b'', ''3_c'', ''1_a''] ?fm ?d = Inr fs
      \<and> sorted_wrt (<) (map mf_ID fs) \<and> mf_ID ` set fs = {''1_a'', ''2_b''}"
    using LoadMigrations_registers_up_files [OF e w p _ o] unfolding ids by auto
qed

text \<open>The text is split at every semicolon, also inside what the database reads as one statement.\<close>

theorem executeSQLFile_runs_statements_in_order_witness:
  "\<exists>d'. snd (executeSQLFile disk_world ''m/1_a.up.sql'' ([''m/1_a.up.sql'' \<mapsto> ''INSERT INTO t VALUES (1 ; 2);''], [''m/1_a.up.sql''], [])) = d'
     \<and> snd (snd d') = [''INSERT INTO t VALUES (1'', ''2)'']"
proof -
  let ?c = "''INSERT INTO t VALUES (1 ; 2);''"
  let ?d = "([''m/1_a.up.sql'' \<mapsto> ?c], [''m/1_a.up.sql''], []) :: disk"
  have r: "read_path disk_world ''m/1_a.up.sql'' ?d = Some ?c" by (simp add: disk_world_def)
  have f: "file_statements ?c = [''INSERT INTO t VALUES (1'', ''2)'']"
    by (simp add: file_statements_def trim_space_def trim_left_def is_space_def)
  obtain e d' where x: "executeSQLFile disk_world ''m/1_a.up.sql'' ?d = (e, d')" using prod.exhaust by blast
  have ok: "fst (exec_stmt disk_world s d) \<longleftrightarrow> s \<noteq> ''BAD''" for s d by (simp add: disk_world_def split: prod.splits)
  have good: "s \<noteq> ''BAD''" if "file_statements ?c = before @ s # after" for before s after
  proof -
    have "s \<in> set (file_statements ?c)" unfolding that by simp
    then show ?thesis by (auto simp: f)
  qed
  have "e = None"
  proof (cases e)
    case (Some err)
    then obtain before s after where "file_statements ?c = before @ s # after"
      "\<not> fst (exec_stmt disk_world s (run_all disk_world before ?d))"
      using executeSQLFile_runs_statements_in_order [OF r] unfolding x Some prod.case option.case by blast
    then show ?thesis using good ok by blast
  qed
  then have "d' = run_all disk_world [''INSERT INTO t VALUES (1'', ''2)''] ?d"
    using executeSQLFile_runs_statements_in_order [OF r] x f by simp
  then show ?thesis using x by (simp add: run_all_def disk_world_def)
qed

theorem dotted_migration_is_skipped_witness:
  "visit Map.empty (migration_file ''m'' 7 ''v1.2'' True, migration_base 7 ''v1.2'' @ migration_suffix True, False) = Map.empty"
  by (rule dotted_migration_is_skipped) simp_all

theorem CreateMigration_is_loaded_witness:
  "\<forall>db. \<exists>d' m. CreateMigration disk_world ''add_x'' (NewFileMigrator db ''m'' []) (Map.empty, [], []) = (Inr 7, d')
     \<and> LoadMigrations disk_world [''7_add_x''] (NewFileMigrator db ''m'' []) d' = (Inr ((NewFileMigrator db ''m'' [])\<lparr>fm_migrator := m\<rparr>), d')
     \<and> (\<exists>mg. migrations m ''7_add_x'' = Some mg \<and> MComment mg = ''add x'')"
proof
  fix db :: "disk database"
  let ?fm = "NewFileMigrator db ''m'' []"
  let ?up = "migration_file ''m'' 7 ''add_x'' True" and ?down = "migration_file ''m'' 7 ''add_x'' False"
  let ?d = "([?up \<mapsto> up_content ''add_x'' ''now'', ?down \<mapsto> down_content ''add_x'' ''now''], [?up, ?down], []) :: disk"
  let ?es = "[(?up, ''7_add_x.up.sql'', False), (?down, ''7_add_x.down.sql'', False)]"
  have seven: "itoa 7 = ''7''" by (simp add: itoa_def show_nat.simps digit_def char_of_def bit_0)
  note ev = seven migration_base_def file_path_def migration_suffix_def
  have c: "CreateMigration disk_world ''add_x'' ?fm (Map.empty, [], []) = (Inr 7, ?d)"
    by (simp add: CreateMigration_def Let_def disk_eval ev)
  have w: "walk disk_world (migrationsDir ?fm) ?d = Some ?es" by (simp add: disk_eval ev)
  have o: "set [''7_add_x''] = dom (visit_all ?es)" by (auto simp: disk_eval ev)
  have f: "flat (migrationsDir ?fm) ?es" by (simp add: flat_def ev NewFileMigrator_def)
  have ok: "world_ok disk_world (migrationsDir ?fm)" using disk_world_ok by (simp add: NewFileMigrator_def)
  have "migration_base 7 ''add_x'' = ''7_add_x''" "underscores_to_spaces ''add_x'' = ''add x''"
    by (simp_all add: ev underscores_to_spaces_def)
  with CreateMigration_is_loaded [OF ok c _ _ _ _ w f _ o]
  have "\<exists>m. LoadMigrations disk_world [''7_add_x''] ?fm ?d = (Inr (?fm\<lparr>fm_migrator := m\<rparr>), ?d)
      \<and> (\<exists>mg. migrations m ''7_add_x'' = Some mg \<and> MComment mg = ''add x'')" by auto
  with c show "\<exists>d' m. CreateMigration disk_world ''add_x'' ?fm (Map.empty, [], []) = (Inr 7, d')
      \<and> LoadMigrations disk_world [''7_add_x''] ?fm d' = (Inr (?fm\<lparr>fm_migrator := m\<rparr>), d')
      \<and> (\<exists>mg. migrations m ''7_add_x'' = Some mg \<and> MComment mg = ''add x'')" by blast
qed

end
