(* ===== verification/File_Migrator_Runs.thy ===== *)
theory File_Migrator_Runs
  imports File_Migrator_Props Migrator_Props
begin

text \<open>
  The file migrator and the migrator together (\<open>data/db/pg/migrate/file_migrator.go\<close> with
  \<open>migration.go\<close>): what is sent to the database when \<open>Up\<close> runs migrations that were loaded from files.
\<close>

section \<open>The log of statements\<close>

text \<open>
  An observation \<open>sent d\<close> of the world: the statements of migration files that the database was
  sent so far. The statements of files change neither the files nor the migration table, and those
  of the migrator itself change neither the files nor this log.
\<close>

definition quiet :: "'d world \<Rightarrow> ('d \<Rightarrow> string list) \<Rightarrow> ('d \<Rightarrow> 'd) \<Rightarrow> bool" where
  "quiet w sent f \<longleftrightarrow> (\<forall>d. sent (f d) = sent d \<and> (\<forall>p. read_path w p (f d) = read_path w p d))"

definition client_ok :: "'d world \<Rightarrow> 'd database \<Rightarrow> ('d \<Rightarrow> string list) \<Rightarrow> bool" where
  "client_ok w db sent \<longleftrightarrow>
     (\<forall>s d. sent (snd (exec_stmt w s d)) = sent d @ [s]
        \<and> (\<forall>p. read_path w p (snd (exec_stmt w s d)) = read_path w p d)
        \<and> (\<forall>t. rows_of db t (snd (exec_stmt w s d)) = rows_of db t d))
   \<and> (\<forall>t. quiet w sent (snd \<circ> ensure_table db t) \<and> quiet w sent (snd \<circ> select_ids db t)
        \<and> (\<forall>r. quiet w sent (snd \<circ> insert_row db t r)))"

lemma run_all_effect:
  assumes "client_ok w db sent"
  shows "sent (run_all w ss d) = sent d @ ss \<and> read_path w p (run_all w ss d) = read_path w p d
    \<and> rows_of db t (run_all w ss d) = rows_of db t d"
  using assms unfolding run_all_def by (induction ss arbitrary: d) (simp_all add: client_ok_def)

text \<open>A function made of a file: it keeps files and table, and when it succeeds it has sent the file.\<close>

lemma file_fn_effect:
  assumes "client_ok w db sent" and "file_fn w path d = (ok, d')"
  shows "read_path w p d' = read_path w p d" and "rows_of db t d' = rows_of db t d"
    and "ok \<Longrightarrow> sent d' = sent d @ file_statements (the (read_path w path d))"
proof -
  obtain e where x: "executeSQLFile w path d = (e, d')" "ok = (e = None)"
    using assms(2) by (auto simp: file_fn_def split: prod.splits)
  have "read_path w p d' = read_path w p d \<and> rows_of db t d' = rows_of db t d
      \<and> (ok \<longrightarrow> sent d' = sent d @ file_statements (the (read_path w path d)))"
  proof (cases "read_path w path d")
    case None
    then show ?thesis using x by (auto simp: executeSQLFile_def)
  next
    case (Some content)
    note c = executeSQLFile_cases [OF Some, unfolded x(1) prod.case]
    show ?thesis
    proof (cases e)
      case None
      then have "d' = run_all w (file_statements content) d" using c by simp
      then show ?thesis using run_all_effect [OF assms(1), of "file_statements content" d] Some by simp
    next
      case e: (Some err)
      then obtain ss where "d' = run_all w ss d" using c by auto
      then show ?thesis using run_all_effect [OF assms(1), of ss d] e x(2) by simp
    qed
  qed
  then show "read_path w p d' = read_path w p d" "rows_of db t d' = rows_of db t d"
    "ok \<Longrightarrow> sent d' = sent d @ file_statements (the (read_path w path d))" by simp_all
qed

section \<open>Up on files\<close>

text \<open>A migrator whose migrations all come from files, \<open>path\<close> the up file of each.\<close>

definition from_files :: "'d world \<Rightarrow> (string \<Rightarrow> string) \<Rightarrow> 'd migrator \<Rightarrow> bool" where
  "from_files w path m \<longleftrightarrow> (\<forall>i mg. migrations m i = Some mg \<longrightarrow>
     ID mg = i \<and> Up_fn mg = Some (file_fn w (path i)) \<and> (\<forall>g. Down_fn mg = Some g \<longrightarrow> (\<exists>q. g = file_fn w q)))"

lemma from_files_ok:
  assumes "client_ok w (mdb m) sent" and "db_ok (mdb m)" and "from_files w path m"
  shows "migrator_ok m"
proof -
  have "tab m (snd (file_fn w q d)) = tab m d" for q d
    using file_fn_effect(2) [OF assms(1), of q d "fst (file_fn w q d)" "snd (file_fn w q d)"] by (simp add: tab_def)
  then show ?thesis using assms(2,3) unfolding migrator_ok_def from_files_def keeps_table_def by fastforce
qed

lemma up_loop_sends:
  assumes ok: "client_ok w (mdb m) sent" and files: "from_files w path m"
    and "up_loop m applied order d = (None, d')"
  shows "sent d' = sent d @ concat (map (\<lambda>i. file_statements (the (read_path w (path i) d))) (pending m applied order))"
  using assms(3)
proof (induction order arbitrary: d)
  case (Cons i order)
  show ?case
  proof (cases "migrations m i = None \<or> i \<in> applied")
    case True
    then have "pending m applied (i # order) = pending m applied order" by (auto simp: pending_def)
    moreover have "up_loop m applied order d = (None, d')" using Cons.prems True by (auto split: option.splits)
    ultimately show ?thesis using Cons.IH by simp
  next
    case False
    then obtain mg where mg: "migrations m i = Some mg" "i \<notin> applied" by auto
    then have up: "Up_fn mg = Some (file_fn w (path i))" using files by (simp add: from_files_def)
    obtain b d1 where d1: "file_fn w (path i) d = (b, d1)" using prod.exhaust by blast
    obtain c d2 where d2: "recordMigration m mg d1 = (c, d2)" using prod.exhaust by blast
    have "b" "c" and loop: "up_loop m applied order d2 = (None, d')"
      using Cons.prems mg up d1 d2 by (auto split: bool.splits)
    note f = file_fn_effect [OF ok d1]
    have "quiet w sent (snd \<circ> insert_row (mdb m) (tableName m) (mig_record mg))" using ok by (simp add: client_ok_def)
    then have r: "sent d2 = sent d1" "read_path w p d2 = read_path w p d1" for p
      using d2 unfolding quiet_def recordMigration_def by (metis comp_apply snd_conv)+
    have "pending m applied (i # order) = i # pending m applied order" using mg by (simp add: pending_def dom_def)
    then show ?thesis using Cons.IH [OF loop] f(1) f(3) [OF \<open>b\<close>] r by simp
  qed
qed (simp add: pending_def)

text \<open>\<open>Up\<close> on migrations from files: which rows it adds, and what it sends.\<close>

lemma Up_on_files:
  assumes "client_ok w (mdb m) sent" and "db_ok (mdb m)" and "reads_ok (mdb m)" and "from_files w path m"
    and "set order = dom (migrations m)" and "Up m order d = (None, d')"
  shows "set (ids m d') = set (ids m d) \<union> dom (migrations m)"
    and "sent d' = sent d @ concat (map (\<lambda>i. file_statements (the (read_path w (path i) d))) (pending m (set (ids m d)) order))"
proof -
  have ok: "migrator_ok m" by (rule from_files_ok [OF assms(1,2,4)])
  obtain did where "tab m d' = tab m d @ map (record_of m) did" "did = pending m (set (ids m d)) order"
    "dom (migrations m) \<subseteq> set (ids m d')"
    using Up_table [OF ok assms(3,5), of d] assms(6) by auto
  moreover have "row_id (record_of m i) = i" if "i \<in> dom (migrations m)" for i
    using that assms(4) by (auto simp: from_files_def record_of_def mig_record_def)
  ultimately show "set (ids m d') = set (ids m d) \<union> dom (migrations m)"
    by (auto simp: ids_def pending_def)
  let ?d1 = "snd (ensureMigrationTable m d)" and ?d2 = "snd (getAppliedMigrations m (snd (ensureMigrationTable m d)))"
  have loop: "up_loop m (set (ids m d)) order ?d2 = (None, d')" by (rule Up_loop_run [OF ok assms(3,6)])
  have "quiet w sent (snd \<circ> ensure_table (mdb m) (tableName m))" "quiet w sent (snd \<circ> select_ids (mdb m) (tableName m))"
    using assms(1) by (simp_all add: client_ok_def)
  moreover have "?d2 = snd (select_ids (mdb m) (tableName m) ?d1)"
    by (simp add: getAppliedMigrations_def split: prod.splits option.splits)
  ultimately have "sent ?d2 = sent d" "read_path w p ?d2 = read_path w p d" for p
    by (simp_all add: quiet_def ensureMigrationTable_def)
  then show "sent d' = sent d @ concat (map (\<lambda>i. file_statements (the (read_path w (path i) d))) (pending m (set (ids m d)) order))"
    using up_loop_sends [OF assms(1,4) loop] by simp
qed

section \<open>Up after loading\<close>

text \<open>Loading into a new migrator gives one whose migrations are those of the files.\<close>

lemma loaded_from_files:
  assumes "ensureMigrationsDir w (NewFileMigrator db dir tn) d = (None, d0)" and "walk w dir d0 = Some entries"
    and "paths_ok entries" and "distinct order" and "set order = dom (visit_all entries)"
    and "LoadMigrations w order (NewFileMigrator db dir tn) d = (Inr fm, d1)"
  shows "mdb (fm_migrator fm) = db" and "d1 = d0"
    and "dom (migrations (fm_migrator fm)) = {i. \<exists>e \<in> set entries. entry_for i True e}"
    and "\<exists>path. from_files w path (fm_migrator fm)
      \<and> (\<forall>i \<in> dom (migrations (fm_migrator fm)). \<exists>e \<in> set entries. entry_for i True e \<and> fst e = path i)"
proof -
  let ?fm = "NewFileMigrator db dir tn" and ?fs = "found_files order (visit_all entries)"
  let ?m = "foldl (\<lambda>m f. Add (file_migration w f) m) (fm_migrator ?fm) ?fs"
  have dir: "migrationsDir ?fm = dir" "mdb (fm_migrator ?fm) = db" "migrations (fm_migrator ?fm) = Map.empty"
    by (simp_all add: NewFileMigrator_def NewMigrator_def)
  have "walk w (migrationsDir ?fm) d0 = Some entries" using assms(2) dir by simp
  from LoadMigrations_eq [OF assms(1) this, of order] assms(6) show fm: "d1 = d0" by simp
  from LoadMigrations_eq [OF assms(1) \<open>walk w (migrationsDir ?fm) d0 = Some entries\<close>, of order] assms(6)
  have m: "fm_migrator fm = ?m" by auto
  have "mdb ?m = mdb (fm_migrator ?fm)" by (subst Add_all) simp
  then show "mdb (fm_migrator fm) = db" using dir m by simp
  note S = found(1) [OF assms(4,5)] and A = found(3,4) [OF assms(4,5), of w "fm_migrator ?fm"]
  have M: "migrations ?m i = Some mg \<longleftrightarrow> (\<exists>f. visit_all entries i = Some f \<and> UpPath f \<noteq> [] \<and> mg = file_migration w f)" for i mg
  proof (cases "i \<in> mf_ID ` set ?fs")
    case True
    then obtain f where f: "f \<in> set ?fs" "i = mf_ID f" by blast
    then have "visit_all entries i = Some f" "UpPath f \<noteq> []" using S visit_all_fixed by auto
    moreover have "migrations ?m i = Some (file_migration w f)" using A f by blast
    ultimately show ?thesis by auto
  next
    case False
    then have "migrations ?m i = None" using A dir by simp
    moreover have "\<not> (visit_all entries i = Some f \<and> UpPath f \<noteq> [])" for f
      using False S visit_all_fixed by (force simp: image_iff)
    ultimately show ?thesis by auto
  qed
  then have D: "i \<in> dom (migrations ?m) \<longleftrightarrow> (\<exists>f. visit_all entries i = Some f \<and> UpPath f \<noteq> [])" for i by (auto simp: dom_def)
  show "dom (migrations (fm_migrator fm)) = {i. \<exists>e \<in> set entries. entry_for i True e}"
    unfolding m by (rule set_eqI) (simp only: D visit_all_up_down(1) [OF assms(3)] mem_Collect_eq)
  let ?path = "\<lambda>i. UpPath (the (visit_all entries i))"
  have "from_files w ?path ?m"
    unfolding from_files_def
  proof (intro allI impI)
    fix i mg assume "migrations ?m i = Some mg"
    then obtain f where f: "visit_all entries i = Some f" "mg = file_migration w f" using M by blast
    have "ID mg = i" using conjunct1 [OF visit_all_fixed [OF f(1)]] by (simp add: f(2) file_migration_def)
    moreover have "Up_fn mg = Some (file_fn w (?path i))" by (simp add: f file_migration_def)
    moreover have "\<exists>q. g = file_fn w q" if "Down_fn mg = Some g" for g
      by (rule exI [of _ "DownPath f"]) (use that in \<open>simp add: f(2) file_migration_def split: if_splits\<close>)
    ultimately show "ID mg = i \<and> Up_fn mg = Some (file_fn w (?path i)) \<and> (\<forall>g. Down_fn mg = Some g \<longrightarrow> (\<exists>q. g = file_fn w q))"
      by blast
  qed
  moreover have up: "\<exists>e \<in> set entries. entry_for i True e \<and> fst e = ?path i" if "i \<in> dom (migrations ?m)" for i
  proof -
    have "\<exists>f. visit_all entries i = Some f \<and> UpPath f \<noteq> []" by (rule iffD1 [OF D that])
    then obtain f where f: "visit_all entries i = Some f" "UpPath f \<noteq> []" by blast
    then show ?thesis using visit_all_up_down(3) [OF assms(3) f(1), of True] by (simp add: dir_path_def)
  qed
  ultimately show "\<exists>path. from_files w path (fm_migrator fm)
      \<and> (\<forall>i \<in> dom (migrations (fm_migrator fm)). \<exists>e \<in> set entries. entry_for i True e \<and> fst e = path i)"
    unfolding m using up by (intro exI [of _ ?path] conjI ballI)
qed

section \<open>A disk and a database\<close>

text \<open>The world of a disk beside a table of migrations.\<close>

definition beside :: "'d world \<Rightarrow> ('r \<times> 'd) world" where
  "beside w = \<lparr>missing = \<lambda>p d. missing w p (snd d), mkdir_all = \<lambda>p d. apsnd (Pair (fst d)) (mkdir_all w p (snd d)),
     walk = \<lambda>dir d. walk w dir (snd d), read_path = \<lambda>p d. read_path w p (snd d),
     write_file = \<lambda>p c d. apsnd (Pair (fst d)) (write_file w p c (snd d)),
     exec_stmt = \<lambda>s d. apsnd (Pair (fst d)) (exec_stmt w s (snd d)),
     unix_now = \<lambda>d. unix_now w (snd d), time_text = \<lambda>d. time_text w (snd d)\<rparr>"

definition disk_log :: "mig_row list \<times> disk \<Rightarrow> string list" where
  "disk_log d = snd (snd (snd d))"

lemma disk_client_ok: "client_ok (beside disk_world) row_db disk_log"
  by (auto simp: client_ok_def quiet_def beside_def disk_world_def row_db_def disk_log_def split: prod.splits)

end
