(* ===== verification/Pg_Builder.thy ===== *)
theory Pg_Builder
  imports Prelude Go_Strings
begin

text \<open>
  The builders of SQL fragments (\<open>data/db/pg/util.go\<close>). A builder is the number of its first
  placeholder and the columns and values in the order of the calls of \<open>Append\<close>. Values are of any
  type \<open>'v\<close>, as they are only collected. A \<open>nil\<close> slice and an empty one are the same list, so the
  defaults at the end of the constructors leave the lists as they are.
\<close>

section \<open>The builders\<close>

record 'v builder =
  b_index :: int
  b_fields :: "string list"
  b_values :: "'v list"

datatype InsertSQLOption = WithIndex int | WithFieldSize int

text \<open>An option, applied to the builder; a negative capacity makes \<open>make\<close> panic.\<close>

fun insert_option :: "'v builder \<Rightarrow> InsertSQLOption \<Rightarrow> 'v builder go" where
  "insert_option f (WithIndex index) = Inr (f\<lparr>b_index := index\<rparr>)"
| "insert_option f (WithFieldSize n) =
     (if n < 0 then Inl MakeSliceLen else Inr (f\<lparr>b_fields := [], b_values := []\<rparr>))"

definition NewInsertSQLFieldBuilder :: "InsertSQLOption list \<Rightarrow> 'v builder go" where
  "NewInsertSQLFieldBuilder opts = foldR insert_option \<lparr>b_index = 1, b_fields = [], b_values = []\<rparr> opts"

text \<open>The package has no option for the other two builders; an option is a function on the builder.\<close>

definition NewUpdateSQLFieldBuilder :: "int \<Rightarrow> ('v builder \<Rightarrow> 'v builder) list \<Rightarrow> 'v builder" where
  "NewUpdateSQLFieldBuilder index opts = foldl (\<lambda>f opt. opt f) \<lparr>b_index = index, b_fields = [], b_values = []\<rparr> opts"

definition NewSelectSQLFieldBuilder :: "('v builder \<Rightarrow> 'v builder) list \<Rightarrow> 'v builder" where
  "NewSelectSQLFieldBuilder opts = foldl (\<lambda>f opt. opt f) \<lparr>b_index = 0, b_fields = [], b_values = []\<rparr> opts"

text \<open>\<open>Append\<close> is the same for the three.\<close>

definition Append :: "string \<Rightarrow> 'v \<Rightarrow> 'v builder \<Rightarrow> 'v builder" where
  "Append key x f = f\<lparr>b_fields := b_fields f @ [key], b_values := b_values f @ [x]\<rparr>"

definition InsertBuild :: "'v builder \<Rightarrow> string \<times> string \<times> 'v list" where
  "InsertBuild f =
     (join '', '' (b_fields f),
      concat (map (\<lambda>i. ''$'' @ itoa (wrap64 (b_index f + int i)) @ '', '') [0..<length (b_fields f)]),
      b_values f)"

definition UpdateBuild :: "'v builder \<Rightarrow> string \<times> 'v list" where
  "UpdateBuild f =
     (concat (map (\<lambda>i. b_fields f ! i @ '' = $'' @ itoa (wrap64 (b_index f + int i)) @ '', '') [0..<length (b_fields f)]),
      b_values f)"

definition SelectBuild :: "'v builder \<Rightarrow> string \<times> 'v list" where
  "SelectBuild f = (concat (map (\<lambda>i. b_fields f ! i @ '', '') [0..<length (b_fields f)]), b_values f)"

definition AppendValueFirst :: "'v list \<Rightarrow> 'v list \<Rightarrow> 'v list" where
  "AppendValueFirst xs toAppend = toAppend @ xs"

section \<open>Appending\<close>

definition append_all :: "(string \<times> 'v) list \<Rightarrow> 'v builder \<Rightarrow> 'v builder" where
  "append_all kvs f = foldl (\<lambda>f (k, v). Append k v f) f kvs"

lemma append_all_fields [simp]:
  "b_index (append_all kvs f) = b_index f"
  "b_fields (append_all kvs f) = b_fields f @ map fst kvs"
  "b_values (append_all kvs f) = b_values f @ map snd kvs"
  unfolding append_all_def by (induction kvs arbitrary: f) (auto simp: Append_def)

lemma NewUpdate_fields [simp]:
  "b_index (NewUpdateSQLFieldBuilder index []) = index"
  "b_fields (NewUpdateSQLFieldBuilder index []) = []"
  "b_values (NewUpdateSQLFieldBuilder index []) = []"
  by (simp_all add: NewUpdateSQLFieldBuilder_def)

section \<open>Reading the fragments\<close>

text \<open>A column name that the fragment shows as it is: no space, comma or equals sign in it.\<close>

definition plain :: "string \<Rightarrow> bool" where
  "plain k \<longleftrightarrow> (\<forall>c \<in> set k. \<not> is_space c \<and> c \<noteq> CHR '','' \<and> c \<noteq> CHR ''='')"

text \<open>What a placeholder \<open>$k\<close> stands for: the argument number \<open>k\<close>, counted from 1.\<close>

definition placeholder :: "'v list \<Rightarrow> string \<Rightarrow> 'v option" where
  "placeholder args p = (case p of
     [] \<Rightarrow> None
   | c # ds \<Rightarrow> if c \<noteq> CHR ''$'' then None
       else (case parse_int ds of
           Inl _ \<Rightarrow> None
         | Inr k \<Rightarrow> if 1 \<le> k \<and> k \<le> int (length args) then Some (args ! nat (k - 1)) else None))"

text \<open>An assignment \<open>column = $k\<close>.\<close>

definition assignment :: "'v list \<Rightarrow> string \<Rightarrow> (string \<times> 'v) option" where
  "assignment args piece = (case split_on CHR ''='' piece of
     [l, r] \<Rightarrow> map_option (Pair (trim_space l)) (placeholder args (trim_space r))
   | _ \<Rightarrow> None)"

lemma trim_plain:
  assumes "\<forall>c \<in> set k. \<not> is_space c"
  shows "trim_space k = k" "trim_space (CHR '' '' # k) = k" "trim_space (k @ '' '') = k" "trim_space (CHR '' '' # k @ '' '') = k"
proof -
  have sp: "is_space CHR '' ''" by (simp add: is_space_def)
  have d: "dropWhile is_space k = k" using assms by (cases k) auto
  have r: "dropWhile is_space (rev k) = rev k" using assms by (cases k rule: rev_cases) auto
  show "trim_space k = k" "trim_space (CHR '' '' # k) = k"
    by (simp_all add: trim_space_def trim_left_def sp d r)
  have e: "dropWhile is_space (k @ '' '') = (if k = [] then [] else k @ '' '')"
    using assms sp by (cases k) auto
  show "trim_space (k @ '' '') = k" "trim_space (CHR '' '' # k @ '' '') = k"
    by (simp_all add: trim_space_def trim_left_def sp e d r)
qed

lemma itoa_clean: "c \<in> set (itoa i) \<Longrightarrow> \<not> is_space c \<and> c \<noteq> CHR '','' \<and> c \<noteq> CHR ''=''"
proof -
  assume "c \<in> set (itoa i)"
  then have "is_digit c \<or> c = CHR ''-''" using show_nat_digits by (auto simp: itoa_def split: if_splits)
  then show ?thesis by (auto simp: is_digit_def is_space_def)
qed

lemma split_pieces:
  assumes "\<forall>p \<in> set (x # ps). CHR '','' \<notin> set p"
  shows "split_on CHR '','' (x @ concat (map (\<lambda>p. p @ '', '') ps))
    = (case ps of [] \<Rightarrow> [x] | p # qs \<Rightarrow> (x @ p) # map (\<lambda>q. CHR '' '' # q) qs @ ['' ''])"
  using assms
proof (induction ps arbitrary: x)
  case Nil
  then show ?case by (simp add: split_on_absent)
next
  case (Cons p ps)
  have "CHR '','' \<notin> set (x @ p)" using Cons.prems by simp
  from split_on_append [OF this, of "'' '' @ concat (map (\<lambda>p. p @ '', '') ps)"]
  have "split_on CHR '','' (x @ concat (map (\<lambda>p. p @ '', '') (p # ps)))
      = (x @ p) # split_on CHR '','' ('' '' @ concat (map (\<lambda>p. p @ '', '') ps))" by simp
  also have "split_on CHR '','' ('' '' @ concat (map (\<lambda>p. p @ '', '') ps))
      = (case ps of [] \<Rightarrow> ['' ''] | p # qs \<Rightarrow> ('' '' @ p) # map (\<lambda>q. CHR '' '' # q) qs @ ['' ''])"
    using Cons.prems by (intro Cons.IH) simp
  also have "\<dots> = map (\<lambda>q. CHR '' '' # q) ps @ ['' '']" by (cases ps) simp_all
  finally show ?case by simp
qed

lemma placeholder_at:
  assumes "1 \<le> k" and "k \<le> int (length args)" and "is_i64 k"
  shows "placeholder args (CHR ''$'' # itoa k) = Some (args ! nat (k - 1))"
  using assms by (simp add: placeholder_def parse_int_itoa)

lemma assignment_at:
  assumes "plain c" and "1 \<le> k" and "k \<le> int (length args)" and "is_i64 k"
  shows "assignment args (c @ '' = $'' @ itoa k) = Some (c, args ! nat (k - 1))"
    and "assignment args (CHR '' '' # c @ '' = $'' @ itoa k) = Some (c, args ! nat (k - 1))"
proof -
  have c: "\<forall>x \<in> set c. \<not> is_space x" "CHR ''='' \<notin> set c" using assms(1) by (auto simp: plain_def)
  have e: "CHR ''='' \<notin> set (c @ '' '')" "CHR ''='' \<notin> set (CHR '' '' # c @ '' '')" using c(2) by auto
  have r: "split_on CHR ''='' ('' $'' @ itoa k) = ['' $'' @ itoa k]"
    using itoa_clean [of _ k] by (intro split_on_absent) auto
  have s: "split_on CHR ''='' (c @ '' = $'' @ itoa k) = [c @ '' '', '' $'' @ itoa k]"
    "split_on CHR ''='' (CHR '' '' # c @ '' = $'' @ itoa k) = [CHR '' '' # c @ '' '', '' $'' @ itoa k]"
    using split_on_append [OF e(1), of "'' $'' @ itoa k"] split_on_append [OF e(2), of "'' $'' @ itoa k"] r by simp_all
  have "\<forall>x \<in> set (CHR ''$'' # itoa k). \<not> is_space x" using itoa_clean by (auto simp: is_space_def)
  from trim_plain(2) [OF this] have t: "trim_space (CHR '' '' # CHR ''$'' # itoa k) = CHR ''$'' # itoa k" .
  show "assignment args (c @ '' = $'' @ itoa k) = Some (c, args ! nat (k - 1))"
    "assignment args (CHR '' '' # c @ '' = $'' @ itoa k) = Some (c, args ! nat (k - 1))"
    unfolding assignment_def s by (simp_all add: t trim_plain(3,4) [OF c(1), simplified] placeholder_at [OF assms(2-4)])
qed

text \<open>C35: An update binds each column to its own value. For plain column names, and with the placeholders starting after the arguments
  that go first, the fragment that \<open>Build\<close> gives reads back, assignment by assignment and against the
  argument list of \<open>AppendValueFirst\<close>, as the columns and values in the order of the calls of \<open>Append\<close>;
  what is left after the last comma is one space.
\<close>

theorem Update_binds_columns_to_values:
  assumes "kvs \<noteq> []" and "list_all (\<lambda>kv. plain (fst kv)) kvs" and "int (length keys) + int (length kvs) < 2 ^ 63"
  shows "\<exists>pieces. let (sql, vs) = UpdateBuild (append_all kvs (NewUpdateSQLFieldBuilder (int (length keys) + 1) [])) in
      split_on CHR '','' sql = pieces @ ['' '']
      \<and> map (assignment (AppendValueFirst vs keys)) pieces = map Some kvs"
proof -
  let ?n = "length kvs" and ?args = "keys @ map snd kvs"
  let ?piece = "\<lambda>i. fst (kvs ! i) @ '' = $'' @ itoa (int (length keys) + 1 + int i)"
  let ?pieces = "?piece 0 # map (\<lambda>i. CHR '' '' # ?piece i) [1..<?n]"
  have i64: "is_i64 (int (length keys) + 1 + int i)" if "i < ?n" for i using that assms(3) by (simp add: is_i64_def)
  have sql: "concat (map (\<lambda>i. map fst kvs ! i @ '' = $'' @ itoa (wrap64 (int (length keys) + 1 + int i)) @ '', '') [0..<?n])
      = concat (map (\<lambda>p. p @ '', '') (map ?piece [0..<?n]))"
    unfolding map_map by (intro arg_cong [of _ _ concat] map_cong) (simp_all add: wrap64_id i64)
  have nocomma: "CHR '','' \<notin> set (?piece i)" if "i < ?n" for i
    using assms(2) that itoa_clean by (auto simp: plain_def list_all_length)
  have n: "[0..<?n] = 0 # [1..<?n]" using assms(1) by (simp add: upt_rec)
  have "split_on CHR '','' ([] @ concat (map (\<lambda>p. p @ '', '') (map ?piece [0..<?n])))
      = (case map ?piece [0..<?n] of [] \<Rightarrow> [[]] | p # qs \<Rightarrow> ([] @ p) # map (\<lambda>q. CHR '' '' # q) qs @ ['' ''])"
    by (rule split_pieces) (use nocomma in auto)
  then have split: "split_on CHR '','' (concat (map (\<lambda>p. p @ '', '') (map ?piece [0..<?n]))) = ?pieces @ ['' '']"
    by (simp add: n comp_def)
  have one: "assignment ?args (?piece i) = Some (kvs ! i)" "assignment ?args (CHR '' '' # ?piece i) = Some (kvs ! i)" if "i < ?n" for i
  proof -
    have "plain (fst (kvs ! i))" using assms(2) that by (simp add: list_all_length)
    moreover have "?args ! nat (int (length keys) + 1 + int i - 1) = snd (kvs ! i)"
      using that by (simp add: nat_add_distrib nth_append)
    ultimately show "assignment ?args (?piece i) = Some (kvs ! i)" "assignment ?args (CHR '' '' # ?piece i) = Some (kvs ! i)"
      using assignment_at [of "fst (kvs ! i)" "int (length keys) + 1 + int i" ?args] i64 [OF that] that by simp_all
  qed
  have "map (assignment ?args) ?pieces = map (\<lambda>i. Some (kvs ! i)) [0..<?n]"
    unfolding n using one one(1) [of 0] assms(1) by simp
  also have "\<dots> = map Some kvs" by (rule nth_equalityI) simp_all
  finally show ?thesis
    using split sql by (intro exI [of _ ?pieces]) (simp add: UpdateBuild_def AppendValueFirst_def)
qed

lemma split_join_columns:
  assumes "\<forall>p \<in> set (p # ps). CHR '','' \<notin> set p"
  shows "split_on CHR '','' (join '', '' (p # ps)) = p # map (\<lambda>q. CHR '' '' # q) ps"
  using assms
proof (induction ps arbitrary: p)
  case (Cons q ps)
  have j: "CHR '' '' # join '', '' (q # ps) = join '', '' ((CHR '' '' # q) # ps)" by (cases ps) simp_all
  have "split_on CHR '','' (join '', '' (p # q # ps)) = p # split_on CHR '','' (CHR '' '' # join '', '' (q # ps))"
    using Cons.prems split_on_append [of "CHR '',''" p "CHR '' '' # join '', '' (q # ps)"] by simp
  then show ?case unfolding j using Cons.IH [of "CHR '' '' # q"] Cons.prems by simp
qed (simp add: split_on_absent)

text \<open>
  The two lists of an insert do not fit together: the column list has one entry for each call of
  \<open>Append\<close>, and the placeholder list one more, as \<open>Build\<close> ends it with a comma and leaves the column
  list without one. So \<open>INSERT INTO t (cols) VALUES (args)\<close> is not a statement as it stands.
\<close>

theorem Insert_placeholders_end_in_comma:
  assumes "kvs \<noteq> []" and "list_all (\<lambda>kv. plain (fst kv)) kvs" and "0 \<le> index" and "index + int (length kvs) < 2 ^ 63"
    and "NewInsertSQLFieldBuilder [WithIndex index] = Inr f"
  shows "let (cols, args, vs) = InsertBuild (append_all kvs f) in
      map trim_space (split_on CHR '','' cols) = map fst kvs
      \<and> map trim_space (split_on CHR '','' args) = map (\<lambda>i. CHR ''$'' # itoa (index + int i)) [0..<length kvs] @ [[]]
      \<and> vs = map snd kvs"
proof -
  let ?n = "length kvs" and ?piece = "\<lambda>i. CHR ''$'' # itoa (index + int i)"
  have f: "b_index f = index" "b_fields f = []" "b_values f = []" using assms(5) by (auto simp: NewInsertSQLFieldBuilder_def)
  have i64: "is_i64 (index + int i)" if "i < ?n" for i using that assms(3,4) by (simp add: is_i64_def)
  have clean: "\<forall>c \<in> set (?piece i). \<not> is_space c" for i using itoa_clean by (auto simp: is_space_def)
  have n: "[0..<?n] = 0 # [1..<?n]" using assms(1) by (simp add: upt_rec)
  have sql: "concat (map (\<lambda>i. ''$'' @ itoa (wrap64 (index + int i)) @ '', '') [0..<?n])
      = [] @ concat (map (\<lambda>p. p @ '', '') (map ?piece [0..<?n]))"
    unfolding map_map append_Nil by (intro arg_cong [of _ _ concat] map_cong) (simp_all add: wrap64_id i64)
  have "split_on CHR '','' ([] @ concat (map (\<lambda>p. p @ '', '') (map ?piece [0..<?n])))
      = (case map ?piece [0..<?n] of [] \<Rightarrow> [[]] | p # qs \<Rightarrow> ([] @ p) # map (\<lambda>q. CHR '' '' # q) qs @ ['' ''])"
    by (rule split_pieces) (use itoa_clean in auto)
  then have "split_on CHR '','' (concat (map (\<lambda>i. ''$'' @ itoa (wrap64 (index + int i)) @ '', '') [0..<?n]))
      = ?piece 0 # map (\<lambda>q. CHR '' '' # ?piece q) [1..<?n] @ ['' '']"
    unfolding sql by (simp add: n comp_def)
  moreover have "trim_space '' '' = []" using trim_plain(2) [of "[]"] by simp
  ultimately have args: "map trim_space (split_on CHR '','' (concat (map (\<lambda>i. ''$'' @ itoa (wrap64 (index + int i)) @ '', '') [0..<?n])))
      = map ?piece [0..<?n] @ [[]]"
    using trim_plain(1,2) [OF clean] trim_plain(1) [OF clean [of 0]] by (simp add: n comp_def)
  obtain k ks where k: "map fst kvs = k # ks" using assms(1) by (cases "map fst kvs") auto
  have pk: "\<forall>c \<in> set p. \<not> is_space c" "CHR '','' \<notin> set p" if "p \<in> set (k # ks)" for p
    using that assms(2) unfolding k [symmetric] by (auto simp: list_all_iff plain_def)
  have "split_on CHR '','' (join '', '' (map fst kvs)) = k # map (\<lambda>q. CHR '' '' # q) ks"
    unfolding k using pk(2) by (intro split_join_columns) blast
  then have "map trim_space (split_on CHR '','' (join '', '' (map fst kvs))) = map fst kvs"
    using trim_plain(1,2) [OF pk(1)] by (simp add: k comp_def cong: map_cong)
  then show ?thesis using args by (simp add: InsertBuild_def f)
qed

theorem Update_binds_columns_to_values_witness:
  "\<exists>pieces. let (sql, vs) = UpdateBuild (append_all [(''name'', ''x''), (''age'', ''y'')] (NewUpdateSQLFieldBuilder (int (length [''id'']) + 1) [])) in
      split_on CHR '','' sql = pieces @ ['' '']
      \<and> map (assignment (AppendValueFirst vs [''id''])) pieces = map Some [(''name'', ''x''), (''age'', ''y'')]"
  by (rule Update_binds_columns_to_values) (simp_all add: plain_def is_space_def)

theorem Insert_placeholders_end_in_comma_witness:
  "let (cols, args, vs) = InsertBuild (append_all [(''name'', ''x''), (''age'', ''y'')] \<lparr>b_index = 1, b_fields = [], b_values = []\<rparr>) in
      map trim_space (split_on CHR '','' cols) = map fst [(''name'', ''x''), (''age'', ''y'')]
      \<and> map trim_space (split_on CHR '','' args) = map (\<lambda>i. CHR ''$'' # itoa (1 + int i)) [0..<length [(''name'', ''x''), (''age'', ''y'')]] @ [[]]
      \<and> vs = map snd [(''name'', ''x''), (''age'', ''y'')]"
  by (rule Insert_placeholders_end_in_comma) (simp_all add: plain_def is_space_def NewInsertSQLFieldBuilder_def)

end
