(* ===== verification/Connection_Model.thy ===== *)
theory Connection_Model
  imports Prelude
begin

text \<open>
  Opening and closing connections (\<open>data/db/pg/pool.go\<close>, \<open>data/db/pg/postgresql.go\<close>,
  \<open>data/db/mongo/mongo.go\<close>, \<open>data/redis/redis.go\<close>). The drivers are third-party code: parameters that
  act on a world \<open>'w\<close>. A context is the background, one that the caller gave, or one made of another
  with a timeout in nanoseconds; a cleanup function is a function on the world. Log lines are left out.
\<close>

datatype 'k ctx = Background | Given 'k | WithTimeout "'k ctx" int

datatype conn_error =
    DsnEmpty
  | DbnameEmpty
  | ParseDsnFailed
  | CreateFailed
  | PingFailed
  | NilPool
  | ExecFailed
  | QueryFailed
  | BeginFailed
  | LastInsertIdUnsupported
  | Wrapped conn_error

section \<open>The PostgreSQL pool\<close>

text \<open>\<open>Config\<close>; durations in nanoseconds, \<open>Tracer\<close> is \<open>nil\<close> or a tracer of the driver.\<close>

record 't pg_config =
  DSN :: string
  DBName :: string
  MaxConns :: int
  MinConns :: int
  ConnMaxIdleTime :: int
  ConnMaxLifetime :: int
  ConnectTimeout :: int
  HealthCheckPeriod :: int
  Tracer :: "'t option"

definition DefaultConfig :: "'t pg_config" where
  "DefaultConfig = \<lparr>DSN = [], DBName = [], MaxConns = 20, MinConns = 5, ConnMaxIdleTime = 15 * 60 * 10 ^ 9,
     ConnMaxLifetime = 30 * 60 * 10 ^ 9, ConnectTimeout = 5 * 10 ^ 9, HealthCheckPeriod = 60 * 10 ^ 9, Tracer = None\<rparr>"

definition NewConfig :: "string \<Rightarrow> string \<Rightarrow> 't pg_config" where
  "NewConfig dsn dbname = DefaultConfig\<lparr>DSN := dsn, DBName := dbname\<rparr>"

text \<open>The fields of the driver's own configuration that the code sets, and the rest of it, \<open>'x\<close>.\<close>

record ('t, 'x) pool_config =
  pc_MaxConns :: int
  pc_MinConns :: int
  pc_MaxConnIdleTime :: int
  pc_MaxConnLifetime :: int
  pc_HealthCheckPeriod :: int
  pc_Tracer :: "'t option"
  pc_rest :: 'x

text \<open>The functions of \<open>pgxpool\<close>: \<open>None\<close> and \<open>False\<close> are errors.\<close>

record ('k, 'p, 't, 'x, 'w) pgxpool =
  ParseConfig :: "string \<Rightarrow> ('t, 'x) pool_config option"
  NewWithConfig :: "'k ctx \<Rightarrow> ('t, 'x) pool_config \<Rightarrow> 'w \<Rightarrow> 'p option \<times> 'w"
  PoolPing :: "'k ctx \<Rightarrow> 'p \<Rightarrow> 'w \<Rightarrow> bool \<times> 'w"
  PoolClose :: "'p \<Rightarrow> 'w \<Rightarrow> 'w"

definition configure :: "'t pg_config \<Rightarrow> ('t, 'x) pool_config \<Rightarrow> ('t, 'x) pool_config" where
  "configure config pc =
     (let pc = pc\<lparr>pc_MaxConns := MaxConns config, pc_MinConns := MinConns config,
                   pc_MaxConnIdleTime := ConnMaxIdleTime config, pc_MaxConnLifetime := ConnMaxLifetime config,
                   pc_HealthCheckPeriod := HealthCheckPeriod config\<rparr>
      in if Tracer config \<noteq> None then pc\<lparr>pc_Tracer := Tracer config\<rparr> else pc)"

definition NewPool ::
  "('k, 'p, 't, 'x, 'w) pgxpool \<Rightarrow> 't pg_config \<Rightarrow> 'w \<Rightarrow> (conn_error + 'p \<times> ('w \<Rightarrow> 'w)) \<times> 'w" where
  "NewPool drv config w =
     (if DSN config = [] then (Inl DsnEmpty, w)
      else if DBName config = [] then (Inl DbnameEmpty, w)
      else case ParseConfig drv (DSN config) of
          None \<Rightarrow> (Inl (Wrapped ParseDsnFailed), w)
        | Some pc \<Rightarrow>
            (let ctx = WithTimeout Background (ConnectTimeout config)
             in case NewWithConfig drv ctx (configure config pc) w of
                 (None, w1) \<Rightarrow> (Inl (Wrapped CreateFailed), w1)
               | (Some pool, w1) \<Rightarrow> (case PoolPing drv ctx pool w1 of
                   (False, w2) \<Rightarrow> (Inl (Wrapped PingFailed), PoolClose drv pool w2)
                 | (True, w2) \<Rightarrow> (Inr (pool, PoolClose drv pool), w2))))"

definition NewPoolSimple ::
  "('k, 'p, 't, 'x, 'w) pgxpool \<Rightarrow> string \<Rightarrow> string \<Rightarrow> 'w \<Rightarrow> (conn_error + 'p \<times> ('w \<Rightarrow> 'w)) \<times> 'w" where
  "NewPoolSimple drv dsn dbname w =
     (case NewPool drv (DefaultConfig\<lparr>DSN := dsn, DBName := dbname\<rparr>) w of
        (Inl e, w1) \<Rightarrow> (Inl (Wrapped e), w1)
      | (Inr r, w1) \<Rightarrow> (Inr r, w1))"

definition HealthCheck ::
  "('k, 'p, 't, 'x, 'w) pgxpool \<Rightarrow> 'k ctx \<Rightarrow> 'p option \<Rightarrow> 'w \<Rightarrow> conn_error option \<times> 'w" where
  "HealthCheck drv ctx pool w = (case pool of
     None \<Rightarrow> (Some NilPool, w)
   | Some p \<Rightarrow> (case PoolPing drv (WithTimeout ctx (3 * 10 ^ 9)) p w of
       (False, w1) \<Rightarrow> (Some (Wrapped PingFailed), w1)
     | (True, w1) \<Rightarrow> (None, w1)))"

definition GetConnectionStats :: "('p \<Rightarrow> 'w \<Rightarrow> 's) \<Rightarrow> 'p option \<Rightarrow> 'w \<Rightarrow> 's option" where
  "GetConnectionStats stat pool w = (case pool of None \<Rightarrow> None | Some p \<Rightarrow> Some (stat p w))"

section \<open>The database handle\<close>

record 'p DB =
  pool :: "'p option"

definition NewDB :: "'p option \<Rightarrow> 'p DB" where
  "NewDB p = \<lparr>pool = p\<rparr>"

definition NewDBFromConfig ::
  "('k, 'p, 't, 'x, 'w) pgxpool \<Rightarrow> 't pg_config \<Rightarrow> 'w \<Rightarrow> (conn_error + 'p DB \<times> ('w \<Rightarrow> 'w)) \<times> 'w" where
  "NewDBFromConfig drv config w = (case NewPool drv config w of
     (Inl e, w1) \<Rightarrow> (Inl e, w1)
   | (Inr (p, cleanup), w1) \<Rightarrow> (Inr (NewDB (Some p), cleanup), w1))"

definition NewDBSimple ::
  "('k, 'p, 't, 'x, 'w) pgxpool \<Rightarrow> string \<Rightarrow> string \<Rightarrow> 'w \<Rightarrow> (conn_error + 'p DB \<times> ('w \<Rightarrow> 'w)) \<times> 'w" where
  "NewDBSimple drv dsn dbname w = (case NewPoolSimple drv dsn dbname w of
     (Inl e, w1) \<Rightarrow> (Inl e, w1)
   | (Inr (p, cleanup), w1) \<Rightarrow> (Inr (NewDB (Some p), cleanup), w1))"

record 'c pgxResult =
  cmdTag :: 'c

text \<open>The statements: \<open>exec\<close>, \<open>query\<close>, \<open>query_row\<close> and \<open>begin_tx\<close> are the methods of the pool.\<close>

definition ExecContext ::
  "('k ctx \<Rightarrow> 'p \<Rightarrow> string \<Rightarrow> 'a list \<Rightarrow> 'w \<Rightarrow> 'c option \<times> 'w) \<Rightarrow> 'k ctx \<Rightarrow> 'p DB \<Rightarrow> string \<Rightarrow> 'a list \<Rightarrow> 'w
     \<Rightarrow> (conn_error + 'c pgxResult) \<times> 'w" where
  "ExecContext exec ctx db query args w = (case pool db of
     None \<Rightarrow> (Inl NilPool, w)
   | Some p \<Rightarrow> (case exec ctx p query args w of
       (None, w1) \<Rightarrow> (Inl (Wrapped ExecFailed), w1)
     | (Some tag, w1) \<Rightarrow> (Inr \<lparr>cmdTag = tag\<rparr>, w1)))"

definition Exec where "Exec exec db query args w = ExecContext exec Background db query args w"

definition QueryContext ::
  "('k ctx \<Rightarrow> 'p \<Rightarrow> string \<Rightarrow> 'a list \<Rightarrow> 'w \<Rightarrow> 'r option \<times> 'w) \<Rightarrow> 'k ctx \<Rightarrow> 'p DB \<Rightarrow> string \<Rightarrow> 'a list \<Rightarrow> 'w
     \<Rightarrow> (conn_error + 'r) \<times> 'w" where
  "QueryContext query_op ctx db query args w = (case pool db of
     None \<Rightarrow> (Inl NilPool, w)
   | Some p \<Rightarrow> (case query_op ctx p query args w of
       (None, w1) \<Rightarrow> (Inl (Wrapped ExecFailed), w1)
     | (Some rows, w1) \<Rightarrow> (Inr rows, w1)))"

definition Query where "Query query_op db query args w = QueryContext query_op Background db query args w"

text \<open>\<open>QueryRowContext\<close> gives a \<open>nil\<close> row, \<open>None\<close>, when there is no pool.\<close>

definition QueryRowContext ::
  "('k ctx \<Rightarrow> 'p \<Rightarrow> string \<Rightarrow> 'a list \<Rightarrow> 'w \<Rightarrow> 'r \<times> 'w) \<Rightarrow> 'k ctx \<Rightarrow> 'p DB \<Rightarrow> string \<Rightarrow> 'a list \<Rightarrow> 'w \<Rightarrow> 'r option \<times> 'w" where
  "QueryRowContext query_row ctx db query args w = (case pool db of
     None \<Rightarrow> (None, w)
   | Some p \<Rightarrow> (case query_row ctx p query args w of (row, w1) \<Rightarrow> (Some row, w1)))"

definition QueryRow where "QueryRow query_row db query args w = QueryRowContext query_row Background db query args w"

definition BeginTx ::
  "('k ctx \<Rightarrow> 'p \<Rightarrow> 'o \<Rightarrow> 'w \<Rightarrow> 'tx option \<times> 'w) \<Rightarrow> 'k ctx \<Rightarrow> 'p DB \<Rightarrow> 'o \<Rightarrow> 'w \<Rightarrow> (conn_error + 'tx) \<times> 'w" where
  "BeginTx begin_tx ctx db opts w = (case pool db of
     None \<Rightarrow> (Inl NilPool, w)
   | Some p \<Rightarrow> (case begin_tx ctx p opts w of
       (None, w1) \<Rightarrow> (Inl (Wrapped BeginFailed), w1)
     | (Some tx, w1) \<Rightarrow> (Inr tx, w1)))"

text \<open>\<open>zero\<close> is the zero value of the transaction options.\<close>

definition Begin where "Begin begin_tx zero db w = BeginTx begin_tx Background db zero w"

definition DB_Close :: "('k, 'p, 't, 'x, 'w) pgxpool \<Rightarrow> 'p DB \<Rightarrow> 'w \<Rightarrow> 'w" where
  "DB_Close drv db w = (case pool db of None \<Rightarrow> w | Some p \<Rightarrow> PoolClose drv p w)"

definition PingContext :: "('k, 'p, 't, 'x, 'w) pgxpool \<Rightarrow> 'k ctx \<Rightarrow> 'p DB \<Rightarrow> 'w \<Rightarrow> conn_error option \<times> 'w" where
  "PingContext drv ctx db w = (case pool db of
     None \<Rightarrow> (Some NilPool, w)
   | Some p \<Rightarrow> (case PoolPing drv ctx p w of (ok, w1) \<Rightarrow> (if ok then None else Some PingFailed, w1)))"

definition Ping where "Ping drv db w = PingContext drv Background db w"

record DBStats =
  MaxOpenConnections :: int
  OpenConnections :: int
  InUse :: int
  Idle :: int

text \<open>The counters of the pool: its limit, all its connections, those in use and those idle.\<close>

definition Stats :: "('p \<Rightarrow> 'w \<Rightarrow> int \<times> int \<times> int \<times> int) \<Rightarrow> 'p DB \<Rightarrow> 'w \<Rightarrow> DBStats" where
  "Stats stat db w = (case pool db of
     None \<Rightarrow> \<lparr>MaxOpenConnections = 0, OpenConnections = 0, InUse = 0, Idle = 0\<rparr>
   | Some p \<Rightarrow> (case stat p w of (max_conns, total_conns, acquired, idle) \<Rightarrow>
       \<lparr>MaxOpenConnections = max_conns, OpenConnections = total_conns, InUse = acquired, Idle = idle\<rparr>))"

definition GetPool :: "'p DB \<Rightarrow> 'p option" where "GetPool db = pool db"

definition LastInsertId :: "'c pgxResult \<Rightarrow> conn_error + int" where "LastInsertId r = Inl LastInsertIdUnsupported"

definition RowsAffected :: "('c \<Rightarrow> int) \<Rightarrow> 'c pgxResult \<Rightarrow> conn_error + int" where
  "RowsAffected rows_affected r = Inr (rows_affected (cmdTag r))"

section \<open>MongoDB\<close>

text \<open>\<open>Connect\<close> takes the URI; the write concern and the read preference are the same for every call.\<close>

record ('k, 'c, 'w) mongo_driver =
  Connect :: "string \<Rightarrow> 'w \<Rightarrow> 'c option \<times> 'w"
  PingPrimary :: "'k ctx \<Rightarrow> 'c \<Rightarrow> 'w \<Rightarrow> bool \<times> 'w"
  Disconnect :: "'c \<Rightarrow> 'w \<Rightarrow> bool \<times> 'w"

definition mongo_New ::
  "('k, 'c, 'w) mongo_driver \<Rightarrow> 'k ctx \<Rightarrow> string \<Rightarrow> string \<Rightarrow> 'w \<Rightarrow> (conn_error + ('c \<times> string) \<times> ('w \<Rightarrow> 'w)) \<times> 'w" where
  "mongo_New drv ctx dbsn dbname w =
     (if dbsn = [] then (Inl DsnEmpty, w)
      else if dbname = [] then (Inl DbnameEmpty, w)
      else case Connect drv (''mongodb://'' @ dbsn) w of
          (None, w1) \<Rightarrow> (Inl (Wrapped CreateFailed), w1)
        | (Some cli, w1) \<Rightarrow>
            (let cleanup = (\<lambda>w. snd (Disconnect drv cli w))
             in case PingPrimary drv (WithTimeout ctx (2 * 10 ^ 9)) cli w1 of
                 (False, w2) \<Rightarrow> (Inl (Wrapped PingFailed), cleanup w2)
               | (True, w2) \<Rightarrow> (Inr ((cli, dbname), cleanup), w2)))"

section \<open>Redis\<close>

record ('k, 'o, 'c, 'w) redis_driver =
  NewClient :: "'o \<Rightarrow> 'w \<Rightarrow> 'c \<times> 'w"
  DialTimeout :: "'o \<Rightarrow> int"
  RedisPing :: "'k ctx \<Rightarrow> 'c \<Rightarrow> 'w \<Rightarrow> bool \<times> 'w"
  RedisClose :: "'c \<Rightarrow> 'w \<Rightarrow> bool \<times> 'w"

text \<open>The named results are all returned, also when the ping fails: client, cleanup and error.\<close>

definition NewStandalone ::
  "('k, 'o, 'c, 'w) redis_driver \<Rightarrow> 'o \<Rightarrow> 'w \<Rightarrow> ('c \<times> ('w \<Rightarrow> 'w) \<times> conn_error option) \<times> 'w" where
  "NewStandalone drv c w = (case NewClient drv c w of (rdb, w1) \<Rightarrow>
     (case RedisPing drv (WithTimeout Background (DialTimeout drv c)) rdb w1 of (ok, w2) \<Rightarrow>
        ((rdb, \<lambda>w. snd (RedisClose drv rdb w), if ok then None else Some (Wrapped PingFailed)), w2)))"

text \<open>\<open>NewCluster\<close> is the same on the options and the client of a cluster.\<close>

definition NewCluster ::
  "('k, 'o, 'c, 'w) redis_driver \<Rightarrow> 'o \<Rightarrow> 'w \<Rightarrow> ('c \<times> ('w \<Rightarrow> 'w) \<times> conn_error option) \<times> 'w" where
  "NewCluster drv c w = (case NewClient drv c w of (rdb, w1) \<Rightarrow>
     (case RedisPing drv (WithTimeout Background (DialTimeout drv c)) rdb w1 of (ok, w2) \<Rightarrow>
        ((rdb, \<lambda>w. snd (RedisClose drv rdb w), if ok then None else Some (Wrapped PingFailed)), w2)))"

section \<open>No connection is left behind\<close>

text \<open>
  What the drivers promise of the connections \<open>opened w\<close> that are open in a world: creating one opens a
  new one or, with an error, none; a ping leaves them as they are; closing closes that one.
\<close>

definition opens :: "('w \<Rightarrow> 'p set) \<Rightarrow> ('w \<Rightarrow> 'p option \<times> 'w) \<Rightarrow> bool" where
  "opens opened create \<longleftrightarrow> (\<forall>w. case create w of
     (None, w1) \<Rightarrow> opened w1 = opened w
   | (Some p, w1) \<Rightarrow> p \<notin> opened w \<and> opened w1 = insert p (opened w))"

definition keeps_open :: "('w \<Rightarrow> 'p set) \<Rightarrow> ('w \<Rightarrow> 'w) \<Rightarrow> bool" where
  "keeps_open opened step \<longleftrightarrow> (\<forall>w. opened (step w) = opened w)"

definition closes :: "('w \<Rightarrow> 'p set) \<Rightarrow> 'p \<Rightarrow> ('w \<Rightarrow> 'w) \<Rightarrow> bool" where
  "closes opened p close \<longleftrightarrow> (\<forall>w. opened (close w) = opened w - {p})"

definition pgxpool_ok :: "('k, 'p, 't, 'x, 'w) pgxpool \<Rightarrow> ('w \<Rightarrow> 'p set) \<Rightarrow> bool" where
  "pgxpool_ok drv opened \<longleftrightarrow> (\<forall>ctx pc p.
     opens opened (NewWithConfig drv ctx pc)
   \<and> keeps_open opened (\<lambda>w. snd (PoolPing drv ctx p w))
   \<and> closes opened p (PoolClose drv p))"

definition mongo_ok :: "('k, 'c, 'w) mongo_driver \<Rightarrow> ('w \<Rightarrow> 'c set) \<Rightarrow> bool" where
  "mongo_ok drv opened \<longleftrightarrow> (\<forall>ctx uri c.
     opens opened (Connect drv uri)
   \<and> keeps_open opened (\<lambda>w. snd (PingPrimary drv ctx c w))
   \<and> closes opened c (\<lambda>w. snd (Disconnect drv c w)))"

definition redis_ok :: "('k, 'o, 'c, 'w) redis_driver \<Rightarrow> ('w \<Rightarrow> 'c set) \<Rightarrow> bool" where
  "redis_ok drv opened \<longleftrightarrow> (\<forall>ctx opts c.
     opens opened (\<lambda>w. apfst Some (NewClient drv opts w))
   \<and> keeps_open opened (\<lambda>w. snd (RedisPing drv ctx c w))
   \<and> closes opened c (\<lambda>w. snd (RedisClose drv c w)))"

text \<open>
  A constructor is clean: an error leaves the open connections as they were, and success opens one
  new connection, which is the one of the result, and the cleanup function closes just that one.
\<close>

definition clean :: "('w \<Rightarrow> 'p set) \<Rightarrow> ('r \<Rightarrow> 'p option) \<Rightarrow> 'w \<Rightarrow> (conn_error + 'r \<times> ('w \<Rightarrow> 'w)) \<times> 'w \<Rightarrow> bool" where
  "clean opened handle w result = (case result of
     (Inl e, w1) \<Rightarrow> opened w1 = opened w
   | (Inr (r, cleanup), w1) \<Rightarrow> (\<exists>p. handle r = Some p \<and> p \<notin> opened w \<and> opened w1 = insert p (opened w)
       \<and> closes opened p cleanup))"

lemma opensD: "opens opened create \<Longrightarrow> create w = (None, w1) \<Longrightarrow> opened w1 = opened w"
  "opens opened create \<Longrightarrow> create w = (Some p, w1) \<Longrightarrow> p \<notin> opened w \<and> opened w1 = insert p (opened w)"
  unfolding opens_def by (auto dest!: spec [of _ w])

lemma closes_new: "closes opened p close \<Longrightarrow> p \<notin> opened w \<Longrightarrow> opened w1 = insert p (opened w) \<Longrightarrow> opened (close w1) = opened w"
  by (simp add: closes_def)

lemma NewPool_clean:
  assumes "pgxpool_ok drv opened"
  shows "clean opened Some w (NewPool drv config w)"
proof -
  let ?ctx = "WithTimeout Background (ConnectTimeout config)"
  have law: "opens opened (NewWithConfig drv ?ctx pc)" "closes opened p (PoolClose drv p)" for pc p
    using assms by (simp_all add: pgxpool_ok_def)
  have ping: "opened w2 = opened w1" if "PoolPing drv ?ctx p w1 = (ok, w2)" for p w1 ok w2
  proof -
    have "keeps_open opened (\<lambda>w. snd (PoolPing drv ?ctx p w))" using assms by (simp add: pgxpool_ok_def)
    then show ?thesis using that by (metis keeps_open_def snd_conv)
  qed
  show ?thesis
  proof (cases "DSN config = [] \<or> DBName config = [] \<or> ParseConfig drv (DSN config) = None")
    case True
    then show ?thesis by (auto simp: NewPool_def clean_def)
  next
    case False
    then obtain pc where pc: "ParseConfig drv (DSN config) = Some pc" by blast
    obtain r w1 where create: "NewWithConfig drv ?ctx (configure config pc) w = (r, w1)" using prod.exhaust by blast
    show ?thesis
    proof (cases r)
      case None
      then show ?thesis using False pc create opensD(1) [OF law(1) create [unfolded None]] by (simp add: NewPool_def clean_def)
    next
      case (Some p)
      note new = opensD(2) [OF law(1) create [unfolded Some]]
      obtain ok w2 where p: "PoolPing drv ?ctx p w1 = (ok, w2)" using prod.exhaust by blast
      have w2: "opened w2 = insert p (opened w)" using ping [OF p] new by simp
      have res: "NewPool drv config w =
          (if ok then (Inr (p, PoolClose drv p), w2) else (Inl (Wrapped PingFailed), PoolClose drv p w2))"
        using False pc create Some p by (simp add: NewPool_def)
      show ?thesis
        using new w2 law(2) [of p] closes_new [OF law(2) conjunct1 [OF new] w2]
        unfolding res by (simp add: clean_def)
    qed
  qed
qed

text \<open>C34: The constructors of the database handle leave no pool behind. Whatever the driver answers, an error
  means that no pool stays open, also when a pool was made and the ping failed; success means one new
  pool, the one in the handle, that the cleanup function closes.
\<close>

theorem NewDB_constructors_are_clean:
  assumes "pgxpool_ok drv opened"
  shows "clean opened pool w (NewDBFromConfig drv config w) \<and> clean opened pool w (NewDBSimple drv dsn dbname w)"
proof
  show "clean opened pool w (NewDBFromConfig drv config w)"
    using NewPool_clean [OF assms, of w config]
    by (auto simp: clean_def NewDBFromConfig_def NewDB_def split: prod.splits sum.splits)
  show "clean opened pool w (NewDBSimple drv dsn dbname w)"
    using NewPool_clean [OF assms, of w "DefaultConfig\<lparr>DSN := dsn, DBName := dbname\<rparr>"]
    by (auto simp: clean_def NewDBSimple_def NewPoolSimple_def NewDB_def split: prod.splits sum.splits)
qed

lemma mongo_New_clean:
  assumes "mongo_ok drv opened"
  shows "clean opened (Some \<circ> fst) w (mongo_New drv ctx dbsn dbname w)"
proof (cases "dbsn = [] \<or> dbname = []")
  case True
  then show ?thesis by (auto simp: mongo_New_def clean_def)
next
  case False
  have law: "opens opened (Connect drv uri)" "closes opened c (\<lambda>w. snd (Disconnect drv c w))" for uri c
    using assms by (simp_all add: mongo_ok_def)
  obtain r w1 where create: "Connect drv (''mongodb://'' @ dbsn) w = (r, w1)" using prod.exhaust by blast
  show ?thesis
  proof (cases r)
    case None
    then show ?thesis using False create opensD(1) [OF law(1) create [unfolded None]] by (simp add: mongo_New_def clean_def)
  next
    case (Some c)
    note new = opensD(2) [OF law(1) create [unfolded Some]]
    obtain ok w2 where p: "PingPrimary drv (WithTimeout ctx (2 * 10 ^ 9)) c w1 = (ok, w2)" using prod.exhaust by blast
    have "keeps_open opened (\<lambda>w. snd (PingPrimary drv (WithTimeout ctx (2 * 10 ^ 9)) c w))" using assms by (simp add: mongo_ok_def)
    then have "opened (snd (PingPrimary drv (WithTimeout ctx (2 * 10 ^ 9)) c w1)) = opened w1" by (simp add: keeps_open_def)
    then have w2: "opened w2 = insert c (opened w)" using p new by simp
    have res: "mongo_New drv ctx dbsn dbname w =
        (if ok then (Inr ((c, dbname), \<lambda>w. snd (Disconnect drv c w)), w2)
         else (Inl (Wrapped PingFailed), snd (Disconnect drv c w2)))"
      using False create Some p by (simp add: mongo_New_def)
    show ?thesis
      using new w2 law(2) [of c] closes_new [OF law(2) conjunct1 [OF new] w2] unfolding res by (simp add: clean_def)
  qed
qed

text \<open>
  Opening MongoDB is clean as well, but a Redis client is open whenever the constructor returns, also
  with an error: then the caller still holds the client and has to call the cleanup function, which
  closes it, where the other constructors return nothing to clean up.
\<close>

theorem mongo_is_clean_and_redis_stays_open:
  assumes "mongo_ok mdrv opened" and "redis_ok rdrv opened'"
  shows "clean opened (Some \<circ> fst) w (mongo_New mdrv ctx dbsn dbname w)
    \<and> (case NewStandalone rdrv opts w' of ((rdb, cleanup, err), w1) \<Rightarrow>
         rdb \<notin> opened' w' \<and> opened' w1 = insert rdb (opened' w') \<and> closes opened' rdb cleanup)
    \<and> (case NewCluster rdrv opts w' of ((rdb, cleanup, err), w1) \<Rightarrow>
         rdb \<notin> opened' w' \<and> opened' w1 = insert rdb (opened' w') \<and> closes opened' rdb cleanup)"
proof -
  obtain rdb w1 where create: "NewClient rdrv opts w' = (rdb, w1)" using prod.exhaust by blast
  let ?ctx = "WithTimeout Background (DialTimeout rdrv opts)"
  obtain ok w2 where p: "RedisPing rdrv ?ctx rdb w1 = (ok, w2)" using prod.exhaust by blast
  have "opens opened' (\<lambda>w. apfst Some (NewClient rdrv opts w))" using assms(2) by (simp add: redis_ok_def)
  then have new: "rdb \<notin> opened' w' \<and> opened' w1 = insert rdb (opened' w')"
    by (rule opensD(2)) (simp add: create)
  have "keeps_open opened' (\<lambda>w. snd (RedisPing rdrv ?ctx rdb w))" using assms(2) by (simp add: redis_ok_def)
  then have "opened' w2 = opened' w1" using p by (metis keeps_open_def snd_conv)
  moreover have "closes opened' rdb (\<lambda>w. snd (RedisClose rdrv rdb w))" using assms(2) by (simp add: redis_ok_def)
  ultimately show ?thesis
    using mongo_New_clean [OF assms(1)] create p new by (simp add: NewStandalone_def NewCluster_def)
qed

section \<open>Drivers that count\<close>

text \<open>A world is the number of the next connection and the numbers of the open ones; pings fail.\<close>

type_synonym counted = "nat \<times> nat set"

definition counted_open :: "counted \<Rightarrow> nat set" where
  "counted_open w = {p \<in> snd w. p < fst w}"

definition counted_new :: "counted \<Rightarrow> nat \<times> counted" where
  "counted_new w = (fst w, (Suc (fst w), insert (fst w) (counted_open w)))"

definition counted_close :: "nat \<Rightarrow> counted \<Rightarrow> counted" where
  "counted_close p w = (fst w, snd w - {p})"

definition counted_pool :: "(unit, nat, unit, unit, counted) pgxpool" where
  "counted_pool = \<lparr>ParseConfig = \<lambda>dsn. Some \<lparr>pc_MaxConns = 4, pc_MinConns = 0, pc_MaxConnIdleTime = 0, pc_MaxConnLifetime = 0,
       pc_HealthCheckPeriod = 0, pc_Tracer = None, pc_rest = ()\<rparr>,
     NewWithConfig = \<lambda>ctx pc w. apfst Some (counted_new w), PoolPing = \<lambda>ctx p w. (False, w), PoolClose = counted_close\<rparr>"

definition counted_mongo :: "(unit, nat, counted) mongo_driver" where
  "counted_mongo = \<lparr>Connect = \<lambda>uri w. apfst Some (counted_new w), PingPrimary = \<lambda>ctx p w. (False, w),
     Disconnect = \<lambda>p w. (True, counted_close p w)\<rparr>"

definition counted_redis :: "(unit, unit, nat, counted) redis_driver" where
  "counted_redis = \<lparr>NewClient = \<lambda>opts. counted_new, DialTimeout = \<lambda>opts. 5, RedisPing = \<lambda>ctx p w. (False, w),
     RedisClose = \<lambda>p w. (True, counted_close p w)\<rparr>"

lemma counted_laws:
  "opens counted_open (\<lambda>w. apfst Some (counted_new w))"
  "keeps_open counted_open (\<lambda>w. w)"
  "closes counted_open p (counted_close p)"
  by (auto simp: opens_def keeps_open_def closes_def counted_open_def counted_new_def counted_close_def)

lemma counted_ok: "pgxpool_ok counted_pool counted_open" "mongo_ok counted_mongo counted_open" "redis_ok counted_redis counted_open"
  using counted_laws by (simp_all add: pgxpool_ok_def mongo_ok_def redis_ok_def counted_pool_def counted_mongo_def counted_redis_def)

theorem NewDB_constructors_are_clean_witness:
  "clean counted_open pool (0, {}) (NewDBFromConfig counted_pool (NewConfig ''dsn'' ''db'') (0, {}))
   \<and> NewDBFromConfig counted_pool (NewConfig ''dsn'' ''db'') (0, {}) = (Inl (Wrapped PingFailed), (1, {}))"
  by (rule conjI, rule conjunct1 [OF NewDB_constructors_are_clean [OF counted_ok(1)]])
    (simp add: NewDBFromConfig_def NewPool_def NewConfig_def DefaultConfig_def counted_pool_def counted_new_def
      counted_close_def counted_open_def)

theorem mongo_is_clean_and_redis_stays_open_witness:
  "clean counted_open (Some \<circ> fst) (0, {}) (mongo_New counted_mongo Background ''host'' ''db'' (0, {}))
   \<and> (\<exists>cleanup w1. NewStandalone counted_redis () (0, {}) = ((0, cleanup, Some (Wrapped PingFailed)), w1)
        \<and> counted_open w1 = {0} \<and> counted_open (cleanup w1) = {})"
proof -
  have "NewStandalone counted_redis () (0, {}) = ((0, \<lambda>w. counted_close 0 w, Some (Wrapped PingFailed)), (1, {0}))"
    by (simp add: NewStandalone_def counted_redis_def counted_new_def counted_open_def)
  then show ?thesis
    using mongo_is_clean_and_redis_stays_open [OF counted_ok(2,3), where w = "(0, {})" and ctx = Background
        and dbsn = "''host''" and dbname = "''db''" and opts = "()" and w' = "(0, {})"]
    by (auto simp: counted_open_def counted_close_def)
qed

end
