(* ===== verification/Spec2Isabelle.thy ===== *)
theory Spec2Isabelle
  imports Bloom_Model Xid_Model Ring_Model Stopper_Spec Stopper_Go_Model Future_Spec Routines_Model Delayer_Model
    Multipool_Model Camel_Model Compress_Model Crypto_Examples Tag_Parser Template_Demo
    Auto_Migrator_Props Migrator_Concurrent Migrator_Pool File_Migrator_Runs Pg_Builder Connection_Model
begin

text \<open>
  A verification development for fabrica-util, the Go utility library of go-pantheon. The library is a
  set of packages that a game server uses; few of them call one another. This text says which theory
  models which package, what is proved of it, and what is left out. Paths are those of the repository.

  \<^bold>\<open>How Go is modelled.\<close> An \<open>int\<close>, \<open>int64\<close> or \<open>Duration\<close> is an \<open>int\<close> in the range \<open>is_i64\<close>, and every operation
  that can leave the range is followed by \<open>wrap64\<close>; the unsigned types and bytes are words. A run-time panic is
  a value of \<open>panic\<close> and code that may panic has a result in \<open>'a go\<close>; an error is a value of the
  component's own error type. A slice is a list with checked reads and writes, a map is \<open>'k \<rightharpoonup> 'v\<close>, and where
  the code ranges over a map the order of the keys is an argument, so a theorem that holds for each order
  holds for whatever order Go takes. Strings are byte strings. Code that is not in the repository (drivers,
  hashes, ciphers, the file system) is an argument of the definitions, and what is assumed of it is
  a named predicate that a witness instantiates. Concurrent code is a step relation, with a step for
  each access to shared state, and the theorems hold in every reachable state. A mutex that is held for a
  whole method makes the method one step. All loops of the models are structural recursions or folds, so
  there is no fuel, and a theorem that says that a call returns says so outright.

  \<^bold>\<open>Shared theories.\<close> \<open>Prelude\<close> (panics, sequencing, 64-bit arithmetic, slices), \<open>Go_Strings\<close> (the
  functions of \<open>strings\<close> and \<open>strconv\<close> that the code calls), \<open>Calendar\<close> (the proleptic Gregorian calendar and the
  locations of \<open>time\<close>). Three interfaces are locales: \<open>Bitset_Iface\<close> (what a bit set promises its users, with
  \<open>counted_bitset\<close> on top, provided by the bitmap and used by the Bloom filter), \<open>Ring_Iface\<close> (a hash ring,
  provided by both consistent-hashing rings) and \<open>Transition_Iface\<close> (invariants and ranking functions of step
  relations, and \<open>simulation\<close>, by which one system implements another, provided by the stopper, the future, the
  delayer and \<open>Timeout\<close>).

  \<^bold>\<open>Data structures.\<close>
  \<^item> \<open>Bitmap_Model\<close>: \<open>bitmap/bitmap.go\<close>. Every operation refines the operation on sets of indexes; \<open>MSet\<close> sets
    all its indexes or none.
  \<^item> \<open>Bloom_Model\<close>: \<open>bloom/bloom.go\<close>, over the bitmap. An added element is found, now and after further additions;
    \<open>MAdd\<close> is repeated \<open>Add\<close>; the constructor accepts every sensible estimate. The floating-point estimate is an argument.
  \<^item> \<open>Ring_Model\<close>: \<open>consistenthash/int64_ketama.go\<close> and \<open>string_ketama.go\<close>. Rings that the operations build are sorted
    and give each node its spots; a key goes to the first spot at or after its hash; adding a node moves
    keys to it only, and removing one moves only its own keys.
  \<^item> \<open>Multipool_Model\<close>: \<open>multipool/multipool.go\<close>. No sequence of calls leaves the range of the
    layers; an object that \<open>Get\<close> returns is new, or was put into the same layer and reset.
  \<^item> \<open>Xid_Model\<close>: \<open>xid/id.go\<close>. Building and splitting identifiers, encoding and decoding them, are inverse.

  \<^bold>\<open>Concurrency\<close> (\<open>xsync\<close>).
  \<^item> \<open>Stopper_Model\<close>, \<open>Stopper_Runs\<close>: \<open>TurnOff\<close> of \<open>stopper.go\<close> by any number of callers. The shutdown function runs at
    most once, no channel is closed twice, with a timeout no caller waits for a function that never returns
    (without one only its own caller does), and each caller's result is the one the function gave.
    The result variable is read and written in separate steps, so that its race shows. \<open>Stopper_Spec\<close> states what callers may rely on as a one-shot shutdown of four fields (owner, outcome,
    release, answers) and proves that \<open>TurnOff\<close> refines it. \<open>Stopper_Go_Model\<close>: the workers and waiters, with the
    wait group written out as \<open>sync.WaitGroup\<close> works (counter, waiters, semaphore, and the panics for its misuse), and
    what a misuse by a late worker leads to.
  \<^item> \<open>Future_Model\<close>: \<open>future.go\<close>. A future is completed once and keeps its value; \<open>Then\<close> composes. \<open>Future_Spec\<close>: the
    futures refine a dataflow of cells that are written once, and the goroutine of \<open>Then\<close> delivers.
  \<^item> \<open>Delayer_Model\<close>: \<open>delayer.go\<close> with a clock and timers. No tick comes before the expiry time that is set, unless
    the goroutine of an earlier one is about to send it (\<open>stale_tick_after_SetExpiryTime\<close>), and an
    expiry time that is set leads to a tick.
  \<^item> \<open>Routines_Model\<close>: \<open>routines.go\<close>: panics caught and logged, \<open>Timeout\<close>, the routine number.
  \<^item> \<open>Errors_Model\<close>: \<open>errors/errors.go\<close>, on which the others rest; \<open>pkg/errors\<close>, which it wraps, is a parameter.

  \<^bold>\<open>Text, bytes and keys.\<close> \<open>Camel_Model\<close> (\<open>camelcase/camel.go\<close>: the words of a camel-case name come out
  in lower case with underscores between them), \<open>Xrand_Model\<close> (\<open>xrand\<close>: the
  bytes are the little-endian stream of the generator's values; the seeds of the pool keep all their 128 bits), \<open>Compress_Model\<close> (\<open>compress/compress.go\<close>),
  \<open>Security_Model\<close> (\<open>security/aes\<close>, \<open>rsa\<close>, \<open>ecdh\<close>: round trips and rejection of altered text),
  \<open>Certificate_Model\<close> (\<open>security/certificate/ed25519.go\<close>: signing, checking, PEM round trips, the template of a
  self-signed certificate and its validity), \<open>Base64_Model\<close> (its Base64 wrappers, with the encoding written out:
  decoding undoes encoding). \<open>Crypto_Examples\<close>: the example programs of \<open>security/aes\<close> and \<open>security/certificate\<close>,
  which put these packages together: the key that \<open>xrand\<close> makes encrypts, and the signature verifies.

  \<^bold>\<open>Time\<close> (\<open>xtime\<close>).
  \<^item> \<open>Time_Model\<close>: \<open>time.go\<close>. In a zone with one offset the next daily, weekly and monthly times are the first instants
    of their kind after the given one; in a zone that skips midnight the daily one need not be.
  \<^item> \<open>Locale_Model\<close>: \<open>locale.go\<close> and \<open>Init\<close>. After any sequence of calls there is a current locale, and
    only the five supported languages reach the file system.
  \<^item> \<open>Format_Model\<close>, \<open>Format_Props\<close>: \<open>format.go\<close>. The seven replacements of a template equal one pass over it; a
    duration is shown as a number of its largest unit, rounded down, in the singular for exactly one.
  \<^item> \<open>Locale_Data\<close>, \<open>Shipped_Locales\<close>: the files of \<open>xtime/lang\<close>, and the three parts above together: with these files, after
    any calls, dates and times are one pass over the template of a shipped language.
  \<^item> \<open>Template_Demo\<close>: \<open>xtime/examples/template_demo.go\<close>, which prints what its comment says.

  \<^bold>\<open>Databases\<close> (\<open>data\<close>).
  \<^item> \<open>Tag_Model\<close>, \<open>Tag_Parser\<close>: \<open>migrate/tag_parser.go\<close>. A tag that is accepted is valid; the column
    definition made from it has no semicolon and its name no quote. What follows the first parenthesis of a
    type is not checked (\<open>type_suffix_is_not_checked\<close>).
  \<^item> \<open>Migrator_Model\<close>, \<open>Migrator_Props\<close>: \<open>migrate/migration.go\<close>. \<open>Up\<close> runs what it records, and at most one migration, named by its
    error, that it does not record; it runs nothing twice,
    \<open>DownTo\<close> keeps the target and what is older, \<open>Reset\<close> undoes \<open>Up\<close>. \<open>Migrator_Concurrent\<close>: calls of \<open>Up\<close> by
    several processes, statement by statement: no id is recorded twice and a call that succeeds leaves every id in the
    table, but a migration may run twice. \<open>Migrator_Pool\<close>: the connections that each operation holds. All but \<open>DownTo\<close> do with
    one; \<open>DownTo\<close> needs two, and on a pool of one it waits for ever.
  \<^item> \<open>Migrate_Model\<close>, \<open>Migrate_Props\<close>, \<open>Auto_Migrator_Props\<close>: \<open>migrate/migrate.go\<close>, which registers functions with
    the migrator. After \<open>MigrateAll\<close> each table has the columns of its model.
  \<^item> \<open>File_Migrator_Model\<close>, \<open>File_Migrator_Props\<close>: \<open>migrate/file_migrator.go\<close>, the other client of the migrator. Exactly the
    migrations with an up file are loaded, a created one is loaded, a file runs its statements in order.
    \<open>File_Migrator_Runs\<close>: the two together, with the property that spans them at the end of this theory.
  \<^item> \<open>Pg_Builder\<close>: \<open>pg/util.go\<close>. An update binds each column to its own value.
  \<^item> \<open>Connection_Model\<close>: \<open>pg/pool.go\<close>, \<open>pg/postgresql.go\<close>, \<open>mongo/mongo.go\<close>, \<open>redis/redis.go\<close>. What the constructors
    leave open on each path.

  \<^bold>\<open>Not modelled.\<close> The texts of errors where the code does not read them; how stack frames and format
  verbs are printed, and reflection in \<open>As\<close>; the memory of the Go runtime (capacities, the contents of \<open>sync.Pool\<close> beyond what may come out of it); the
  floating-point functions; data races (\<open>xtime\<close> writes its map of locales without a lock, and its calls are modelled one
  after the other); the limit of \<open>make\<close> on lengths that memory does not
  hold; case and spaces beyond ASCII (\<open>camelcase\<close>, and \<open>strings.TrimSpace\<close> of migration files); instants
  outside the range of \<open>time.Time\<close>, whose seconds wrap; and what \<open>crypto/x509\<close> makes of a name, which is a
  parameter. Time zones with transitions are modelled, and the theorems on periods are for those
  without, apart from the one that shows the gap.
\<close>

section \<open>Migrations from files\<close>

text \<open>C22: From the files of a directory to the database. When the migrations of a directory are loaded and \<open>Up\<close>
  succeeds, the ids in the migration table are those that were there and those with an up file; and the
  statements that were sent are those of the up files of the new ids, each file once and whole, its
  statements in their order, the files in the order in which the map of migrations was read. This is for
  migrations that leave the migration table and the files alone (\<open>client_ok\<close> says so of every statement that may
  be sent, not only of those in the files).
\<close>

theorem loaded_migrations_run_their_files:
  assumes "client_ok w db sent" and "db_ok db" and "reads_ok db"
    and "ensureMigrationsDir w (NewFileMigrator db dir tn) d = (None, d0)" and "walk w dir d0 = Some entries"
    and "paths_ok entries" and "distinct order" and "set order = dom (visit_all entries)"
    and "LoadMigrations w order (NewFileMigrator db dir tn) d = (Inr fm, d1)"
    and "set morder = dom (migrations (fm_migrator fm))" and "Up (fm_migrator fm) morder d1 = (None, d')"
  shows "set (ids (fm_migrator fm) d') = set (ids (fm_migrator fm) d1) \<union> {i. \<exists>e \<in> set entries. entry_for i True e}
    \<and> (\<exists>path. sent d' = sent d1 @ concat (map (\<lambda>i. file_statements (the (read_path w (path i) d1)))
                                     (pending (fm_migrator fm) (set (ids (fm_migrator fm) d1)) morder))
        \<and> (\<forall>i \<in> set morder. \<exists>e \<in> set entries. entry_for i True e \<and> fst e = path i))"
proof -
  note L = loaded_from_files [OF assms(4-9)]
  obtain path where path: "from_files w path (fm_migrator fm)"
    "\<forall>i \<in> dom (migrations (fm_migrator fm)). \<exists>e \<in> set entries. entry_for i True e \<and> fst e = path i" using L(4) by blast
  note U = Up_on_files [OF assms(1-3) [folded L(1)] path(1) assms(10,11)]
  show ?thesis using U path(2) unfolding L(3) assms(10) by blast
qed

theorem loaded_migrations_run_their_files_witness:
  "\<exists>fm d'. LoadMigrations (beside disk_world) [''1_a''] (NewFileMigrator row_db ''m'' [])
       ([\<lparr>row_id = ''0_x'', row_comment = ''x''\<rparr>], [''m/1_a.up.sql'' \<mapsto> ''A; B;''], [''m/1_a.up.sql''], [])
     = (Inr fm, ([\<lparr>row_id = ''0_x'', row_comment = ''x''\<rparr>], [''m/1_a.up.sql'' \<mapsto> ''A; B;''], [''m/1_a.up.sql''], []))
   \<and> set (ids (fm_migrator fm) d') = {''0_x'', ''1_a''} \<and> disk_log d' = [''A'', ''B'']"
proof -
  let ?w = "beside disk_world :: (mig_row list \<times> disk) world"
  let ?d = "([\<lparr>row_id = ''0_x'', row_comment = ''x''\<rparr>], [''m/1_a.up.sql'' \<mapsto> ''A; B;''], [''m/1_a.up.sql''], []) :: mig_row list \<times> disk"
  let ?fm0 = "NewFileMigrator row_db ''m'' [] :: (mig_row list \<times> disk) file_migrator"
  let ?es = "[(''m/1_a.up.sql'', ''1_a.up.sql'', False)]"
  have e: "ensureMigrationsDir ?w ?fm0 ?d = (None, ?d)" by (simp add: disk_eval beside_def)
  have w: "walk ?w ''m'' ?d = Some ?es" by (simp add: disk_eval beside_def)
  have p: "paths_ok ?es" by (simp add: paths_ok_def)
  have v: "visit_all ?es = [''1_a'' \<mapsto> \<lparr>mf_ID = ''1_a'', UpPath = ''m/1_a.up.sql'', DownPath = [], mf_Comment = ''a''\<rparr>]"
    by (simp add: disk_eval)
  have o: "set [''1_a''] = dom (visit_all ?es)" by (simp add: v)
  have "found_files [''1_a''] (visit_all ?es) = [\<lparr>mf_ID = ''1_a'', UpPath = ''m/1_a.up.sql'', DownPath = [], mf_Comment = ''a''\<rparr>]"
    by (simp add: v found_files_def)
  moreover have "walk ?w (migrationsDir ?fm0) ?d = Some ?es" using w by (simp add: NewFileMigrator_def)
  ultimately obtain fm where load: "LoadMigrations ?w [''1_a''] ?fm0 ?d = (Inr fm, ?d)"
    and m: "migrations (fm_migrator fm) = [''1_a'' \<mapsto> \<lparr>ID = ''1_a'', Up_fn = Some (file_fn ?w ''m/1_a.up.sql''), Down_fn = None, MComment = ''a''\<rparr>]"
    "mdb (fm_migrator fm) = row_db"
    using LoadMigrations_eq [OF e, of ?es "[''1_a'']"]
    by (auto simp: Add_def file_migration_def NewFileMigrator_def NewMigrator_def)
  have run: "file_fn ?w ''m/1_a.up.sql'' ?d = (True, apsnd (\<lambda>_. ([''m/1_a.up.sql'' \<mapsto> ''A; B;''], [''m/1_a.up.sql''], [''A'', ''B''])) ?d)"
    by (simp add: file_fn_def executeSQLFile_def beside_def disk_world_def trim_space_def trim_left_def is_space_def)
  obtain d' where up: "Up (fm_migrator fm) [''1_a''] ?d = (None, d')"
    using run by (simp add: Up_def ensureMigrationTable_def getAppliedMigrations_def recordMigration_def mig_record_def m row_db_def)
  have d: "set [''1_a''] = dom (migrations (fm_migrator fm))" by (simp add: m)
  have es: "{i. \<exists>e \<in> set ?es. entry_for i True e} = {''1_a''}" "entry_for ''1_a'' True (hd ?es)"
    by (auto simp: entry_for_def parse_name_def is_digit_def)
  have ids0: "set (ids (fm_migrator fm) ?d) = {''0_x''}" by (simp add: ids_def tab_def m row_db_def)
  have pend: "pending (fm_migrator fm) {''0_x''} [''1_a''] = [''1_a'']" by (simp add: pending_def m)
  have dist: "distinct [''1_a'']" by simp
  have L: "set (ids (fm_migrator fm) d') = {''0_x''} \<union> {''1_a''}"
    "\<exists>path. disk_log d' = disk_log ?d @ concat (map (\<lambda>i. file_statements (the (read_path ?w (path i) ?d))) [''1_a''])
       \<and> (\<forall>i \<in> set [''1_a'']. \<exists>e \<in> set ?es. entry_for i True e \<and> fst e = path i)"
    using loaded_migrations_run_their_files [OF disk_client_ok row_db_ok e w p dist o load d up]
    unfolding es(1) ids0 pend by (rule conjunct1, rule conjunct2)
  obtain path where q: "disk_log d' = disk_log ?d @ concat (map (\<lambda>i. file_statements (the (read_path ?w (path i) ?d))) [''1_a''])"
    "\<forall>i \<in> set [''1_a'']. \<exists>e \<in> set ?es. entry_for i True e \<and> fst e = path i"
    using L(2) by blast
  have "path ''1_a'' = ''m/1_a.up.sql''" using q(2) by simp
  moreover have "the (read_path ?w ''m/1_a.up.sql'' ?d) = ''A; B;''" by (simp add: beside_def disk_world_def)
  ultimately have "disk_log d' = disk_log ?d @ file_statements ''A; B;''" using q(1) by simp
  moreover have "file_statements ''A; B;'' = [''A'', ''B'']"
    by (simp add: file_statements_def trim_space_def trim_left_def is_space_def)
  ultimately have "disk_log d' = [''A'', ''B'']" by (simp add: disk_log_def)
  moreover have "set (ids (fm_migrator fm) d') = {''0_x'', ''1_a''}" using L(1) by auto
  ultimately show ?thesis using load by blast
qed

end
